(* ===== verification/Spindle_Prelude.thy ===== *)
theory Spindle_Prelude
  imports Main "HOL-Library.Word" "HOL-Library.Monad_Syntax"
begin

text \<open>
  Shared vocabulary of the development: bytes and C strings, the little-endian
  images of C integers that the packet formats use, and generic lemmas on lists
  and options that several components need.

  Bytes are the 8-bit \<^typ>\<open>char\<close>s of HOL, so that a C string is a \<^typ>\<open>string\<close>
  followed by a NUL byte. Integers in packets are laid out as on the platforms
  Spindle runs on: little endian, \<open>int\<close> in 4 bytes, \<open>size_t\<close> in 8 bytes.
\<close>

named_theorems codec_simps "rewriting an encoded packet back to the value it came from"

section \<open>Bytes and C strings\<close>

type_synonym byte = char

text \<open>The longest path name (\<open>ldcs_api.h\<close>).\<close>

abbreviation (input) MAX_PATH_LEN :: nat where
  "MAX_PATH_LEN \<equiv> 4096"

definition NUL :: byte where
  "NUL = CHR 0x00"

text \<open>The bytes of a NUL-terminated string, and the string that starts a buffer.\<close>

definition cstr :: "string \<Rightarrow> byte list" where
  "cstr s = s @ [NUL]"

definition c_str :: "byte list \<Rightarrow> string" where
  "c_str bs = takeWhile (\<lambda>b. b \<noteq> NUL) bs"

definition nul_free :: "string \<Rightarrow> bool" where
  "nul_free s \<longleftrightarrow> NUL \<notin> set s"

lemma length_cstr [simp]: "length (cstr s) = Suc (length s)"
  by (simp add: cstr_def)

lemma cstr_neq_Nil [simp]: "cstr s \<noteq> []"
  by (simp add: cstr_def)

lemma takeWhile_nul_free:
  "nul_free s \<Longrightarrow> takeWhile (\<lambda>b. b \<noteq> NUL) (s @ NUL # rest) = s"
  by (induction s) (auto simp: nul_free_def)

lemma c_str_cstr [codec_simps]: "nul_free s \<Longrightarrow> c_str (cstr s @ rest) = s"
  by (simp add: c_str_def cstr_def takeWhile_nul_free)

lemma c_str_cstr' [codec_simps]: "nul_free s \<Longrightarrow> c_str (cstr s) = s"
  using c_str_cstr [of s "[]"] by simp

lemma nul_free_Nil [simp]: "nul_free []"
  by (simp add: nul_free_def)

lemma nul_free_append [simp]: "nul_free (s @ t) \<longleftrightarrow> nul_free s \<and> nul_free t"
  by (auto simp: nul_free_def)

section \<open>Little-endian integers\<close>

fun le_bytes :: "nat \<Rightarrow> nat \<Rightarrow> byte list" where
  "le_bytes 0 n = []"
| "le_bytes (Suc k) n = char_of n # le_bytes k (n div 256)"

fun le_val :: "byte list \<Rightarrow> nat" where
  "le_val [] = 0"
| "le_val (b # bs) = of_char b + 256 * le_val bs"

lemma length_le_bytes [simp]: "length (le_bytes k n) = k"
  by (induction k arbitrary: n) auto

lemma le_val_le_bytes [simp]: "le_val (le_bytes k n) = n mod 256 ^ k"
proof (induction k arbitrary: n)
  case 0
  then show ?case by simp
next
  case (Suc k)
  have "le_val (le_bytes (Suc k) n) = n mod 256 + 256 * (n div 256 mod 256 ^ k)"
    by (simp add: Suc.IH)
  also have "\<dots> = n mod (256 * 256 ^ k)"
    by (simp add: mod_mult2_eq)
  finally show ?case by simp
qed

definition put_u32 :: "nat \<Rightarrow> byte list" where
  "put_u32 n = le_bytes 4 n"

definition get_u32 :: "byte list \<Rightarrow> nat" where
  "get_u32 bs = le_val (take 4 bs)"

definition put_u64 :: "nat \<Rightarrow> byte list" where
  "put_u64 n = le_bytes 8 n"

definition get_u64 :: "byte list \<Rightarrow> nat" where
  "get_u64 bs = le_val (take 8 bs)"

text \<open>A signed \<open>int\<close> is stored in two's complement.\<close>

definition put_i32 :: "int \<Rightarrow> byte list" where
  "put_i32 i = le_bytes 4 (nat (i mod 2 ^ 32))"

definition get_i32 :: "byte list \<Rightarrow> int" where
  "get_i32 bs = (let n = int (get_u32 bs) in if n < 2 ^ 31 then n else n - 2 ^ 32)"

lemma length_put_u32 [simp]: "length (put_u32 n) = 4"
  by (simp add: put_u32_def)

lemma length_put_u64 [simp]: "length (put_u64 n) = 8"
  by (simp add: put_u64_def)

lemma length_put_i32 [simp]: "length (put_i32 i) = 4"
  by (simp add: put_i32_def)

lemma get_put_u32 [codec_simps]: "n < 2 ^ 32 \<Longrightarrow> get_u32 (put_u32 n @ rest) = n"
  by (simp add: get_u32_def put_u32_def)

lemma get_put_u64 [codec_simps]: "n < 2 ^ 64 \<Longrightarrow> get_u64 (put_u64 n @ rest) = n"
  by (simp add: get_u64_def put_u64_def)

lemma get_put_i32 [codec_simps]:
  assumes "- (2 ^ 31) \<le> i" and "i < 2 ^ 31"
  shows "get_i32 (put_i32 i @ rest) = i"
proof -
  have "get_u32 (put_i32 i @ rest) = nat (i mod 2 ^ 32)"
    by (simp add: get_u32_def put_i32_def nat_less_iff)
  then have n: "int (get_u32 (put_i32 i @ rest)) = i mod 2 ^ 32"
    by simp
  show ?thesis
  proof (cases "0 \<le> i")
    case True
    with assms have "i mod 2 ^ 32 = i" by simp
    with n assms show ?thesis by (simp add: get_i32_def)
  next
    case False
    with assms have "(i + 2 ^ 32) mod 2 ^ 32 = i + 2 ^ 32"
      by (intro mod_pos_pos_trivial) auto
    then have "i mod 2 ^ 32 = i + 2 ^ 32" by simp
    with n assms False show ?thesis by (simp add: get_i32_def)
  qed
qed

section \<open>Decimal numbers\<close>

text \<open>The digits that \<open>printf\<close> writes for \<open>%lu\<close>, and for \<open>%d\<close>.\<close>

definition dec_char :: "nat \<Rightarrow> char" where
  "dec_char d = ''0123456789'' ! (d mod 10)"

fun dec_digits :: "nat \<Rightarrow> string" where
  "dec_digits n = (if n < 10 then [dec_char n] else dec_digits (n div 10) @ [dec_char n])"

declare dec_digits.simps [simp del]

lemma dec_char_cases: "list_all (\<lambda>d. dec_char d \<noteq> CHR ''|'' \<and> list_all (\<lambda>e. dec_char d = dec_char e \<longrightarrow> d = e) [0..<10]) [0..<10]"
  by code_simp

lemma dec_char_no_bar: "dec_char d \<noteq> CHR ''|''"
  using dec_char_cases by (auto simp: list_all_iff dec_char_def)

lemma dec_char_inj: "dec_char d = dec_char e \<longleftrightarrow> d mod 10 = e mod 10"
proof
  assume "dec_char d = dec_char e"
  then have "dec_char (d mod 10) = dec_char (e mod 10)" by (simp add: dec_char_def)
  then show "d mod 10 = e mod 10" using dec_char_cases by (simp add: list_all_iff del: upt_rec_numeral)
qed (simp add: dec_char_def)

lemma dec_digits_no_bar: "CHR ''|'' \<notin> set (dec_digits n)"
proof (induction n rule: dec_digits.induct)
  case (1 n)
  then show ?case using dec_char_no_bar [of n] by (cases "n < 10") (auto simp: dec_digits.simps [of n])
qed

lemma dec_digits_neq_Nil: "dec_digits n \<noteq> []"
  by (subst dec_digits.simps) simp

lemma dec_digits_inj: "dec_digits m = dec_digits n \<Longrightarrow> m = n"
proof (induction m arbitrary: n rule: dec_digits.induct)
  case (1 m)
  have l: "dec_digits k = (if k < 10 then [] else dec_digits (k div 10)) @ [dec_char k]" for k
    by (subst dec_digits.simps) simp
  from 1(2) l [of m] l [of n] have eq: "(if m < 10 then [] else dec_digits (m div 10)) = (if n < 10 then [] else dec_digits (n div 10))"
    and c: "dec_char m = dec_char n" by simp_all
  show ?case
  proof (cases "m < 10")
    case True
    with eq have "n < 10" using dec_digits_neq_Nil [of "n div 10"] by (auto split: if_splits)
    with c True show ?thesis by (simp add: dec_char_inj)
  next
    case False
    with eq have n: "\<not> n < 10" "dec_digits (m div 10) = dec_digits (n div 10)"
      using dec_digits_neq_Nil [of "m div 10"] by (auto split: if_splits)
    with 1(1) False have "m div 10 = n div 10" by blast
    with c show ?thesis by (metis dec_char_inj mult_div_mod_eq)
  qed
qed

lemma length_dec_digits: "n < 10 ^ Suc k \<Longrightarrow> length (dec_digits n) \<le> Suc k"
proof (induction k arbitrary: n)
  case (Suc k)
  then have "length (dec_digits (n div 10)) \<le> Suc k" by (simp add: less_mult_imp_div_less mult.commute)
  then show ?case by (subst dec_digits.simps) simp
qed (simp add: dec_digits.simps)

definition dec_int :: "int \<Rightarrow> string" where
  "dec_int i = (if i < 0 then CHR ''-'' # dec_digits (nat (- i)) else dec_digits (nat i))"

section \<open>Buffers\<close>

text \<open>
  \<open>buf_put buf off bs\<close> is \<open>memcpy (buf + off, bs, length bs)\<close> into an allocation of
  \<open>length buf\<close> elements. A write past the end of the allocation is \<^const>\<open>None\<close>, so a
  result \<^const>\<open>Some\<close> of a model that uses it says that the code stays in bounds.
\<close>

definition buf_put :: "'a list \<Rightarrow> nat \<Rightarrow> 'a list \<Rightarrow> 'a list option" where
  "buf_put buf off bs =
     (if off + length bs \<le> length buf
      then Some (take off buf @ bs @ drop (off + length bs) buf) else None)"

lemma length_buf_put: "buf_put buf off bs = Some buf' \<Longrightarrow> length buf' = length buf"
  by (auto simp: buf_put_def split: if_splits)

lemma buf_put_prefix:
  assumes "length pre + length bs + k = n" and "length buf = n" and "take (length pre) buf = pre"
  shows "\<exists>rest. buf_put buf (length pre) bs = Some (pre @ bs @ rest) \<and> length rest = k"
  using assms by (auto simp: buf_put_def)

section \<open>Lists and options\<close>

lemma drop_append_length [codec_simps]: "length xs = n \<Longrightarrow> drop n (xs @ ys) = ys"
  by simp

lemma take_append_length [codec_simps]: "length xs = n \<Longrightarrow> take n (xs @ ys) = xs"
  by simp

lemma sum_list_const: "(\<forall>x \<in> set xs. f x = c) \<Longrightarrow> sum_list (map f xs) = length xs * (c::nat)"
  by (induction xs) auto

lemma length_concat_const:
  "(\<forall>x \<in> set xs. length x = c) \<Longrightarrow> length (concat xs) = length xs * c"
  by (induction xs) auto

lemma option_case_Some_iff:
  "(case x of None \<Rightarrow> None | Some y \<Rightarrow> f y) = Some z \<longleftrightarrow> (\<exists>y. x = Some y \<and> f y = Some z)"
  by (cases x) auto

lemma drop_concat_const:
  "(\<forall>x \<in> set xss. length x = m) \<Longrightarrow> i \<le> length xss \<Longrightarrow> drop (i * m) (concat xss) = concat (drop i xss)"
proof (induction xss arbitrary: i)
  case Nil
  then show ?case by simp
next
  case (Cons xs xss)
  then show ?case by (cases i) simp_all
qed

lemma concat_concat: "concat (concat xss) = concat (map concat xss)"
  by (induction xss) simp_all

lemma those_map_Some: "(\<forall>x \<in> set xs. f x = Some (g x)) \<Longrightarrow> those (map f xs) = Some (map g xs)"
  by (induction xs) auto

lemma those_map_option: "those (map (\<lambda>x. map_option f (g x)) xs) = map_option (map f) (those (map g xs))"
  by (induction xs) (auto simp: option.map_comp comp_def split: option.splits)

lemma map_of_const:
  "k \<in> fst ` set xs \<Longrightarrow> (\<forall>p \<in> set xs. snd p = v) \<Longrightarrow> map_of xs k = Some v"
  by (induction xs) auto

end
