(* ===== verification/Cobo_Tree.thy ===== *)
theory Cobo_Tree
  imports Spindle_Prelude "HOL-Library.Multiset"
begin

text \<open>
  COBO, the binomial tree of servers (\<open>src/src/cobo/cobo.c\<close>): the computation of
  a rank's parent and children by \<open>cobo_compute_children\<close>, and the two ways in which
  a collective runs over the tree those computations define.

  Ranks are \<^typ>\<open>nat\<close>: the negative values of \<open>cobo_me\<close> stand for a process without
  a rank, which runs none of these operations. Every rank computes its neighbours
  alone, so that the tree is consistent (a rank is a child of its parent, the segment
  sizes match) is a theorem and not a definition.
\<close>

section \<open>The tree\<close>

record cobo_t =
  cobo_me :: nat
  cobo_nprocs :: nat
  cobo_parent :: nat
  cobo_max_child :: nat          \<comment> \<open>allocated length of the child arrays\<close>
  cobo_child :: "nat list"
  cobo_child_incl :: "nat list"
  cobo_num_child :: nat
  cobo_num_child_incl :: nat

text \<open>
  The loop that doubles the \<open>int\<close> \<open>n\<close> until it reaches the number of processes. The
  shift is kept at 32 bits: above \<open>2 ^ 30\<close> processes it wraps and the loop does not end.
\<close>

partial_function (option) max_children_loop :: "int \<Rightarrow> int \<Rightarrow> nat \<Rightarrow> nat option" where
  "max_children_loop nprocs n max_children =
     (if n < nprocs then max_children_loop nprocs (signed_take_bit 31 (n * 2)) (Suc max_children)
      else Some max_children)"

declare max_children_loop.simps [code]

definition tree_mid :: "nat \<Rightarrow> nat \<Rightarrow> nat" where
  "tree_mid low high = (high - low) div 2 + (high - low) mod 2 + low"

lemma half_bounds: "0 < (d::nat) \<Longrightarrow> 0 < d div 2 + d mod 2 \<and> d div 2 + d mod 2 \<le> d"
  by (cases "even d") (auto elim!: evenE oddE)

lemma tree_mid_bounds: "low < high \<Longrightarrow> low < tree_mid low high \<and> tree_mid low high \<le> high"
  using half_bounds [of "high - low"] unfolding tree_mid_def by linarith

lemma tree_mid_decr:
  assumes "low < high"
  shows "high - tree_mid low high < high - low"
    and "tree_mid low high - Suc low < high - low"
  using tree_mid_bounds [OF assms] assms by linarith+

text \<open>The search for the own rank, which meets the children and the parent on its way.\<close>

function children_loop :: "nat \<Rightarrow> nat \<Rightarrow> cobo_t \<Rightarrow> cobo_t" where
  "children_loop low high st =
     (if low < high then
        let mid = tree_mid low high;
            st1 = (if low = cobo_me st
                   then st\<lparr>cobo_child := cobo_child st @ [mid],
                           cobo_child_incl := cobo_child_incl st @ [high - mid + 1],
                           cobo_num_child := cobo_num_child st + 1,
                           cobo_num_child_incl := cobo_num_child_incl st + (high - mid + 1)\<rparr>
                   else st);
            st2 = (if mid = cobo_me st then st1\<lparr>cobo_parent := low\<rparr> else st1)
        in if mid \<le> cobo_me st then children_loop mid high st2
           else children_loop low (mid - 1) st2
      else st)"
  by pat_completeness auto
termination
  by (relation "measure (\<lambda>(low, high, st). high - low)") (simp_all add: tree_mid_decr)

declare children_loop.simps [simp del]

definition cobo_compute_children :: "nat \<Rightarrow> nat \<Rightarrow> cobo_t option" where
  "cobo_compute_children me nprocs = do {
     max_children \<leftarrow> max_children_loop (int nprocs) 1 0;
     Some (children_loop 0 (nprocs - 1)
            \<lparr>cobo_me = me, cobo_nprocs = nprocs, cobo_parent = 0,
             cobo_max_child = max_children, cobo_child = [], cobo_child_incl = [],
             cobo_num_child = 0, cobo_num_child_incl = 0\<rparr>)
   }"

section \<open>Segments\<close>

text \<open>
  The loop halves a segment of ranks. A rank ends up owning the segment from itself
  to \<open>seg_upper\<close>, its children are \<open>seg_kids\<close> of that segment, and its parent is
  \<open>seg_parent\<close>.
\<close>

function seg_kids :: "nat \<Rightarrow> nat \<Rightarrow> (nat \<times> nat) list" where
  "seg_kids low high =
     (if low < high then (tree_mid low high, high - tree_mid low high + 1)
                           # seg_kids low (tree_mid low high - 1)
      else [])"
  by pat_completeness auto
termination
  by (relation "measure (\<lambda>(low, high). high - low)") (simp_all add: tree_mid_decr)

function seg_upper :: "nat \<Rightarrow> nat \<Rightarrow> nat \<Rightarrow> nat" where
  "seg_upper low high me =
     (if low < high \<and> low \<noteq> me then
        if tree_mid low high \<le> me then seg_upper (tree_mid low high) high me
        else seg_upper low (tree_mid low high - 1) me
      else high)"
  by pat_completeness auto
termination
  by (relation "measure (\<lambda>(low, high, me). high - low)") (simp_all add: tree_mid_decr)

function seg_parent :: "nat \<Rightarrow> nat \<Rightarrow> nat \<Rightarrow> nat" where
  "seg_parent low high me =
     (if low < high then
        if tree_mid low high = me then low
        else if tree_mid low high \<le> me then seg_parent (tree_mid low high) high me
        else seg_parent low (tree_mid low high - 1) me
      else low)"
  by pat_completeness auto
termination
  by (relation "measure (\<lambda>(low, high, me). high - low)") (simp_all add: tree_mid_decr)

declare seg_kids.simps [simp del] seg_upper.simps [simp del] seg_parent.simps [simp del]

lemma seg_upper_low [simp]: "seg_upper low high low = high"
  by (simp add: seg_upper.simps)

lemma seg_upper_right:
  "low < high \<Longrightarrow> tree_mid low high \<le> me \<Longrightarrow> seg_upper low high me = seg_upper (tree_mid low high) high me"
  using tree_mid_bounds [of low high] by (subst seg_upper.simps) auto

lemma seg_upper_left:
  "low < high \<Longrightarrow> me < tree_mid low high \<Longrightarrow> low < me \<Longrightarrow>
    seg_upper low high me = seg_upper low (tree_mid low high - 1) me"
  by (subst seg_upper.simps) auto

text \<open>The induction that follows the descent of the loop towards one rank.\<close>

lemma segment_induct [consumes 2, case_names own right left]:
  assumes "low \<le> me" and "me \<le> high"
    and own: "\<And>low high. low = me \<Longrightarrow> low \<le> high \<Longrightarrow> P low high"
    and right: "\<And>low high. low < high \<Longrightarrow> low < tree_mid low high \<Longrightarrow> tree_mid low high \<le> me \<Longrightarrow>
          me \<le> high \<Longrightarrow> P (tree_mid low high) high \<Longrightarrow> P low high"
    and left: "\<And>low high. low < high \<Longrightarrow> low < me \<Longrightarrow> me < tree_mid low high \<Longrightarrow>
          tree_mid low high \<le> high \<Longrightarrow> P low (tree_mid low high - 1) \<Longrightarrow> P low high"
  shows "P low high"
  using assms(1,2)
proof (induction "high - low" arbitrary: low high rule: less_induct)
  case less
  consider "low = me" | "low < me" "tree_mid low high \<le> me" | "low < me" "me < tree_mid low high"
    using less.prems by linarith
  then show ?case
  proof cases
    case 1
    then show ?thesis using own less.prems by simp
  next
    case 2
    then show ?thesis
      using less.prems tree_mid_bounds [of low high] tree_mid_decr [of low high]
      by (intro right [of low high] less.hyps [of high "tree_mid low high"]) linarith+
  next
    case 3
    then show ?thesis
      using less.prems tree_mid_bounds [of low high] tree_mid_decr [of low high]
      by (intro left [of low high] less.hyps [of "tree_mid low high - 1" low]) linarith+
  qed
qed

lemma seg_upper_bounds:
  "low \<le> me \<Longrightarrow> me \<le> high \<Longrightarrow> me \<le> seg_upper low high me \<and> seg_upper low high me \<le> high"
proof (induction rule: segment_induct)
  case (own low high)
  then show ?case by simp
next
  case (right low high)
  then show ?case by (simp add: seg_upper_right)
next
  case (left low high)
  then show ?case using seg_upper_left [of low high me] by linarith
qed

lemma children_loop_own:
  assumes "cobo_me st = low"
  shows "children_loop low high st =
    st\<lparr>cobo_child := cobo_child st @ map fst (seg_kids low high),
       cobo_child_incl := cobo_child_incl st @ map snd (seg_kids low high),
       cobo_num_child := cobo_num_child st + length (seg_kids low high),
       cobo_num_child_incl := cobo_num_child_incl st + sum_list (map snd (seg_kids low high))\<rparr>"
  using assms
proof (induction low high arbitrary: st rule: seg_kids.induct)
  case (1 low high)
  show ?case
  proof (cases "low < high")
    case True
    with tree_mid_bounds [OF True] 1 show ?thesis
      by (subst children_loop.simps, subst (1 2 3 4) seg_kids.simps) (simp add: Let_def)
  next
    case False
    then show ?thesis by (simp add: children_loop.simps seg_kids.simps)
  qed
qed


lemma children_loop_segment:
  assumes "low \<le> cobo_me st" and "cobo_me st \<le> high"
  defines "me \<equiv> cobo_me st"
  defines "ks \<equiv> seg_kids me (seg_upper low high me)"
  shows "children_loop low high st =
    st\<lparr>cobo_parent := (if low = me then cobo_parent st else seg_parent low high me),
       cobo_child := cobo_child st @ map fst ks,
       cobo_child_incl := cobo_child_incl st @ map snd ks,
       cobo_num_child := cobo_num_child st + length ks,
       cobo_num_child_incl := cobo_num_child_incl st + sum_list (map snd ks)\<rparr>"
  unfolding ks_def me_def using assms(1,2)
proof (induction arbitrary: rule: segment_induct)
  case (own low high)
  then show ?case by (simp add: children_loop_own)
next
  case (right low high)
  have "low \<noteq> cobo_me st" using right by linarith
  then have loop: "children_loop low high st = children_loop (tree_mid low high) high
      (if tree_mid low high = cobo_me st then st\<lparr>cobo_parent := low\<rparr> else st)"
    using right by (subst children_loop.simps) (simp add: Let_def)
  show ?case
  proof (cases "tree_mid low high = cobo_me st")
    case True
    then have "seg_parent low high (cobo_me st) = low"
      using right by (subst seg_parent.simps) simp
    with True right loop \<open>low \<noteq> cobo_me st\<close> show ?thesis
      by (simp add: children_loop_own seg_upper_right)
  next
    case False
    then have "seg_parent low high (cobo_me st) = seg_parent (tree_mid low high) high (cobo_me st)"
      using right by (subst seg_parent.simps) simp
    with False right loop \<open>low \<noteq> cobo_me st\<close> show ?thesis
      by (simp add: seg_upper_right)
  qed
next
  case (left low high)
  have "seg_parent low high (cobo_me st) = seg_parent low (tree_mid low high - 1) (cobo_me st)"
    using left by (subst seg_parent.simps) simp
  with left show ?case
    by (subst children_loop.simps) (simp add: Let_def seg_upper_left)
qed

lemma signed_take_bit_double:
  assumes "k < 30"
  shows "signed_take_bit 31 (2 ^ k * 2 :: int) = 2 ^ Suc k"
proof -
  have "(2::int) ^ Suc k \<le> 2 ^ 30" using assms by (intro power_increasing) auto
  then have "(2 ^ Suc k :: int) < 2 ^ 31" by simp
  moreover have "- (2 ^ 31) \<le> (2 ^ Suc k :: int)" 
    by (rule order_trans [of _ 0]) simp_all
  ultimately have "signed_take_bit 31 (2 ^ Suc k :: int) = 2 ^ Suc k" 
   by (intro signed_take_bit_int_eq_self) 
  then show ?thesis by (simp only: power_Suc2)
qed

lemma max_children_loop_returns:
  assumes "nprocs \<le> 2 ^ 30" and "k \<le> 30"
  shows "\<exists>m. max_children_loop nprocs (2 ^ k) m0 = Some (m0 + m) \<and> nprocs \<le> 2 ^ (k + m) \<and> (m = 0 \<or> 2 ^ (k + m - 1) < nprocs)"
  using assms(2)
proof (induction "30 - k" arbitrary: k m0)
  case 0
  then show ?case using assms(1) by (intro exI [of _ 0], subst max_children_loop.simps) simp
next
  case (Suc d)
  then have d: "d = 30 - Suc k" "Suc k \<le> 30" by simp_all
  show ?case
  proof (cases "2 ^ k < nprocs")
    case True
    from Suc.hyps(1) [OF d, of "Suc m0"] obtain m where
      "max_children_loop nprocs (2 ^ Suc k) (Suc m0) = Some (Suc m0 + m)"
      "nprocs \<le> 2 ^ (Suc k + m)" "m = 0 \<or> 2 ^ (Suc k + m - 1) < nprocs" by blast
    with True d show ?thesis
      by (intro exI [of _ "Suc m"], subst max_children_loop.simps)
        (auto simp: signed_take_bit_double)
  next
    case False
    then show ?thesis by (intro exI [of _ 0], subst max_children_loop.simps) simp
  qed
qed


lemma seg_kids_step:
  "low < high \<Longrightarrow> seg_kids low high =
     (tree_mid low high, high - tree_mid low high + 1) # seg_kids low (tree_mid low high - 1)"
  by (subst seg_kids.simps) simp

lemma seg_kids_done [simp]: "high \<le> low \<Longrightarrow> seg_kids low high = []"
  by (subst seg_kids.simps) simp

lemma seg_kids_induct [case_names leaf step]:
  assumes "\<And>low high. high \<le> low \<Longrightarrow> P low high"
    and "\<And>low high. low < high \<Longrightarrow> low < tree_mid low high \<Longrightarrow> tree_mid low high \<le> high \<Longrightarrow>
          P low (tree_mid low high - 1) \<Longrightarrow> P low high"
  shows "P low high"
proof (induction low high rule: seg_kids.induct)
  case (1 low high)
  then show ?case
    using assms tree_mid_bounds [of low high] by (cases "low < high") simp_all
qed

lemma seg_kids_interval: "(c, k) \<in> set (seg_kids low high) \<Longrightarrow> low < c \<and> 0 < k \<and> c + k \<le> Suc high"
proof (induction low high rule: seg_kids_induct)
  case (leaf low high)
  then show ?case by simp
next
  case (step low high)
  then show ?case by (fastforce simp: seg_kids_step)
qed

lemma seg_kids_tile:
  "concat (map (\<lambda>(c, k). [c..<c + k]) (rev (seg_kids low high))) = [Suc low..<Suc high]"
proof (induction low high rule: seg_kids_induct)
  case (leaf low high)
  then show ?case by simp
next
  case (step low high)
  then have "[Suc low..<Suc high] = [Suc low..<tree_mid low high] @ [tree_mid low high..<Suc high]"
    using upt_add_eq_append [of "Suc low" "tree_mid low high" "Suc high - tree_mid low high"] by simp
  with step show ?case by (simp add: seg_kids_step)
qed

lemma seg_kids_incl: "sum_list (map snd (seg_kids low high)) = high - low"
proof -
  have "length (concat (map (\<lambda>(c, k). [c..<c + k]) (rev (seg_kids low high)))) = high - low"
    by (simp only: seg_kids_tile) (simp del: upt_Suc)
  then show ?thesis
    by (simp add: length_concat comp_def case_prod_unfold flip: rev_map)
qed

lemma seg_kids_count: "low \<le> high \<Longrightarrow> 2 ^ length (seg_kids low high) \<le> Suc (high - low)"
proof (induction low high rule: seg_kids_induct)
  case (leaf low high)
  then show ?case by simp
next
  case (step low high)
  have "2 * (tree_mid low high - low) \<le> Suc (high - low)"
    unfolding tree_mid_def by (cases "even (high - low)") (auto elim!: evenE oddE)
  moreover have "2 ^ length (seg_kids low (tree_mid low high - 1)) \<le> tree_mid low high - low"
    using step.hyps step.IH [OF Nat.le_diff_conv2 [THEN iffD2]] by simp
  ultimately show ?case using step.hyps by (simp add: seg_kids_step)
qed

lemma seg_upper_own_kid: "(c, k) \<in> set (seg_kids low high) \<Longrightarrow> seg_upper low high c = c + k - 1"
proof (induction low high rule: seg_kids_induct)
  case (leaf low high)
  then show ?case by simp
next
  case (step low high)
  show ?case
  proof (cases "(c, k) \<in> set (seg_kids low (tree_mid low high - 1))")
    case True
    with seg_kids_interval [OF this] step show ?thesis by (simp add: seg_upper_left)
  next
    case False
    with step show ?thesis by (simp add: seg_kids_step seg_upper_right)
  qed
qed

lemma seg_parent_own_kid: "(c, k) \<in> set (seg_kids low high) \<Longrightarrow> seg_parent low high c = low"
proof (induction low high rule: seg_kids_induct)
  case (leaf low high)
  then show ?case by simp
next
  case (step low high)
  show ?case
  proof (cases "(c, k) \<in> set (seg_kids low (tree_mid low high - 1))")
    case True
    with seg_kids_interval [OF this] step show ?thesis by (subst seg_parent.simps) simp
  next
    case False
    with step show ?thesis by (subst seg_parent.simps) (simp add: seg_kids_step)
  qed
qed

lemma seg_kid:
  assumes "low \<le> r" and "r \<le> high" and "(c, k) \<in> set (seg_kids r (seg_upper low high r))"
  shows "seg_upper low high c = c + k - 1 \<and> seg_parent low high c = r"
  using assms
proof (induction rule: segment_induct)
  case (own low high)
  then show ?case by (simp add: seg_upper_own_kid seg_parent_own_kid)
next
  case (right low high)
  from right.hyps right.prems have "r < c" by (simp add: seg_upper_right seg_kids_interval)
  with right show ?case
    by (subst seg_parent.simps) (auto simp: seg_upper_right)
next
  case (left low high)
  from left.hyps have up: "seg_upper low high r = seg_upper low (tree_mid low high - 1) r"
    by (simp add: seg_upper_left)
  moreover have "seg_upper low (tree_mid low high - 1) r \<le> tree_mid low high - 1"
    using left.hyps seg_upper_bounds [of low r "tree_mid low high - 1"] by linarith
  ultimately have "r < c" "c < tree_mid low high"
    using left.hyps left.prems seg_kids_interval [of c k r "seg_upper low high r"] by linarith+
  with left up show ?case
    by (subst seg_parent.simps) (auto simp: seg_upper_left)
qed

lemma seg_parent_bounds: "low \<le> c \<Longrightarrow> c \<le> high \<Longrightarrow> low < c \<Longrightarrow> low \<le> seg_parent low high c \<and> seg_parent low high c < c"
proof (induction rule: segment_induct)
  case (own low high)
  then show ?case by simp
next
  case (right low high)
  then show ?case by (subst (1 2) seg_parent.simps) auto
next
  case (left low high)
  then show ?case by (subst (1 2) seg_parent.simps) auto
qed

lemma seg_kid_of_parent:
  assumes "low \<le> c" and "c \<le> high" and "low < c"
  shows "\<exists>k. (c, k) \<in> set (seg_kids (seg_parent low high c) (seg_upper low high (seg_parent low high c)))"
  using assms
proof (induction rule: segment_induct)
  case (own low high)
  then show ?case by simp
next
  case (right low high)
  show ?case
  proof (cases "tree_mid low high = c")
    case True
    with right show ?thesis
      by (subst (1 2) seg_parent.simps) (auto simp: seg_kids_step)
  next
    case False
    with right have "seg_parent low high c = seg_parent (tree_mid low high) high c"
      by (subst seg_parent.simps) simp
    moreover have "tree_mid low high \<le> seg_parent (tree_mid low high) high c"
      using right False seg_parent_bounds [of "tree_mid low high" c high] by simp
    ultimately show ?thesis using right False by (simp add: seg_upper_right)
  qed
next
  case (left low high)
  then have p: "seg_parent low high c = seg_parent low (tree_mid low high - 1) c"
    by (subst seg_parent.simps) simp
  have b: "low \<le> seg_parent low (tree_mid low high - 1) c" "seg_parent low (tree_mid low high - 1) c < c"
    using left seg_parent_bounds [of low c "tree_mid low high - 1"] by simp_all
  show ?case
  proof (cases "seg_parent low (tree_mid low high - 1) c = low")
    case True
    with left p show ?thesis by (auto simp: seg_kids_step)
  next
    case False
    with left p b show ?thesis by (simp add: seg_upper_left)
  qed
qed


lemma max_children_returns:
  assumes "0 < n" and "n \<le> 2 ^ 30"
  obtains m where "max_children_loop (int n) 1 0 = Some m" and "n \<le> 2 ^ m"
proof -
  have "int n \<le> int (2 ^ 30)" using assms(2) by (simp only: of_nat_le_iff)
  then have "int n \<le> 2 ^ 30" by simp
  from max_children_loop_returns [OF this, of 0 0] obtain m where
    "max_children_loop (int n) 1 0 = Some m" "int n \<le> 2 ^ m" by auto
  then show ?thesis using that [of m] by (simp flip: of_nat_power)
qed

definition rank_upper :: "nat \<Rightarrow> nat \<Rightarrow> nat" where
  "rank_upper n r = seg_upper 0 (n - 1) r"

definition rank_kids :: "nat \<Rightarrow> nat \<Rightarrow> (nat \<times> nat) list" where
  "rank_kids n r = seg_kids r (rank_upper n r)"

lemma cobo_compute_children_eq:
  assumes "r < n" and "n \<le> 2 ^ 30"
  obtains m where "cobo_compute_children r n =
     Some \<lparr>cobo_me = r, cobo_nprocs = n,
           cobo_parent = (if r = 0 then 0 else seg_parent 0 (n - 1) r),
           cobo_max_child = m,
           cobo_child = map fst (rank_kids n r), cobo_child_incl = map snd (rank_kids n r),
           cobo_num_child = length (rank_kids n r),
           cobo_num_child_incl = rank_upper n r - r\<rparr>"
    and "length (rank_kids n r) \<le> m"
proof -
  from assms max_children_returns [of n] obtain m where
    m: "max_children_loop (int n) 1 0 = Some m" "n \<le> 2 ^ m" by auto
  have u: "r \<le> rank_upper n r" "rank_upper n r \<le> n - 1"
    using assms seg_upper_bounds [of 0 r "n - 1"] by (auto simp: rank_upper_def)
  have "2 ^ length (rank_kids n r) \<le> Suc (rank_upper n r - r)"
    unfolding rank_kids_def using u(1) by (rule seg_kids_count)
  also have "\<dots> \<le> 2 ^ m" using u assms m(2) by linarith
  finally have "length (rank_kids n r) \<le> m" by simp
  moreover note m(1)
  ultimately show ?thesis
    using that [of m] assms unfolding cobo_compute_children_def
    by (simp add: children_loop_segment rank_kids_def rank_upper_def seg_kids_incl)
qed

lemma compute_children_Some:
  assumes "r < n" and "n \<le> 2 ^ 30"
  shows "\<exists>st. cobo_compute_children r n = Some st \<and> cobo_me st = r \<and> cobo_nprocs st = n \<and>
     cobo_child st = map fst (rank_kids n r) \<and> cobo_child_incl st = map snd (rank_kids n r) \<and>
     cobo_num_child st = length (rank_kids n r) \<and> cobo_num_child_incl st = rank_upper n r - r"
  by (rule cobo_compute_children_eq [OF assms]) simp

section \<open>Running a collective over the tree\<close>

text \<open>
  \<open>run_up\<close> runs a collective whose data flows to rank 0: every rank computes its
  message to the parent from the messages of its children. \<open>run_down\<close> runs one
  whose data flows from rank 0: a rank computes its own result and one message per
  child from the message of its parent. \<open>None\<close> is a rank that fails or blocks; the
  first argument bounds the depth of the tree.
\<close>

primrec run_up :: "nat \<Rightarrow> nat \<Rightarrow> (cobo_t \<Rightarrow> 'm list \<Rightarrow> 'm option) \<Rightarrow> nat \<Rightarrow> 'm option" where
  "run_up 0 n f r = None"
| "run_up (Suc k) n f r = do {
     st \<leftarrow> cobo_compute_children r n;
     ms \<leftarrow> those (map (run_up k n f) (cobo_child st));
     f st ms
   }"

primrec run_down ::
  "nat \<Rightarrow> nat \<Rightarrow> (cobo_t \<Rightarrow> 'm option \<Rightarrow> ('a \<times> 'm list) option) \<Rightarrow> nat \<Rightarrow> 'm option \<Rightarrow> (nat \<times> 'a) list option"
where
  "run_down 0 n f r inp = None"
| "run_down (Suc k) n f r inp = do {
     st \<leftarrow> cobo_compute_children r n;
     (res, outs) \<leftarrow> f st inp;
     subs \<leftarrow> those (map (\<lambda>(c, m). run_down k n f c (Some m)) (zip (cobo_child st) outs));
     Some ((r, res) # concat subs)
   }"

lemma rank_kids_bounds:
  assumes "r < n" and "(c, k) \<in> set (rank_kids n r)"
  shows "r < c" and "c < n" and "0 < k" and "rank_upper n c = c + k - 1"
proof -
  have "rank_upper n r \<le> n - 1"
    using assms seg_upper_bounds [of 0 r "n - 1"] by (simp add: rank_upper_def)
  with assms seg_kids_interval [of c k r "rank_upper n r"]
  show "r < c" "c < n" "0 < k" by (auto simp: rank_kids_def)
  show "rank_upper n c = c + k - 1"
    using assms seg_kid [of 0 r "n - 1" c k] by (simp add: rank_upper_def rank_kids_def)
qed

lemma run_up_rule:
  assumes "n \<le> 2 ^ 30"
    and step: "\<And>r st. r < n \<Longrightarrow> cobo_compute_children r n = Some st \<Longrightarrow>
                 f st (map V (cobo_child st)) = Some (V r)"
    and "r < n" and "n \<le> k + r"
  shows "run_up k n f r = Some (V r)"
  using assms(3,4)
proof (induction k arbitrary: r)
  case 0
  then show ?case by simp
next
  case (Suc k)
  obtain st where st: "cobo_compute_children r n = Some st" "cobo_child st = map fst (rank_kids n r)"
    using compute_children_Some [OF Suc.prems(1) assms(1)] by blast
  have "run_up k n f c = Some (V c)" if "c \<in> set (cobo_child st)" for c
  proof -
    from that st(2) obtain j where "(c, j) \<in> set (rank_kids n r)" by auto
    from rank_kids_bounds [OF Suc.prems(1) this] Suc show ?thesis by simp
  qed
  then have "those (map (run_up k n f) (cobo_child st)) = Some (map V (cobo_child st))"
    by (intro those_map_Some) auto
  with st(1) step Suc.prems show ?case by simp
qed

lemma rank_upper_bounds: "r < n \<Longrightarrow> r \<le> rank_upper n r \<and> rank_upper n r < n"
  using seg_upper_bounds [of 0 r "n - 1"] by (fastforce simp: rank_upper_def)

lemma rank_upper_0 [simp]: "rank_upper n 0 = n - 1"
  by (simp add: rank_upper_def)

text \<open>The segments of the children, last child first, are the ranks after \<open>r\<close> in order.\<close>

lemma rank_tile:
  assumes "r < n"
  shows "concat (map (\<lambda>c. [c..<Suc (rank_upper n c)]) (rev (map fst (rank_kids n r)))) =
    [Suc r..<Suc (rank_upper n r)]"
proof -
  have "map (\<lambda>c. [c..<Suc (rank_upper n c)]) (map fst (rank_kids n r)) =
      map (\<lambda>(c, k). [c..<c + k]) (rank_kids n r)"
    using rank_kids_bounds(3,4) [OF assms] by (auto simp del: upt_Suc)
  then show ?thesis
    by (simp only: rev_map [symmetric]) (simp only: rev_map rank_kids_def seg_kids_tile)
qed

lemma mset_rank_tile:
  assumes "r < n"
  shows "mset (map g [r..<Suc (rank_upper n r)]) =
     add_mset (g r) (mset (concat (map (\<lambda>c. map g [c..<Suc (rank_upper n c)]) (map fst (rank_kids n r)))))"
proof -
  have "[r..<Suc (rank_upper n r)] = r # [Suc r..<Suc (rank_upper n r)]"
    using rank_upper_bounds [OF assms] by (simp add: upt_conv_Cons)
  then have "mset (map g [r..<Suc (rank_upper n r)]) =
      add_mset (g r) (mset (map g [Suc r..<Suc (rank_upper n r)]))"
    by (simp only: list.map mset.simps)
  then show ?thesis
    unfolding rank_tile [OF assms, symmetric]
    by (simp only: map_concat mset_concat map_map comp_def mset_rev sum_mset_sum_list [symmetric] mset_map
        multiset.map_comp)
qed

lemma run_down_rule:
  assumes "n \<le> 2 ^ 30"
    and step: "\<And>r st. r < n \<Longrightarrow> cobo_compute_children r n = Some st \<Longrightarrow>
                 f st (I r) = Some (R r, map M (cobo_child st))"
    and inp: "\<And>c. 0 < c \<Longrightarrow> I c = Some (M c)"
    and "r < n" and "n \<le> k + r"
  shows "\<exists>xs. run_down k n f r (I r) = Some xs \<and>
     mset xs = mset (map (\<lambda>r. (r, R r)) [r..<Suc (rank_upper n r)])"
  using assms(4,5)
proof (induction k arbitrary: r)
  case 0
  then show ?case by simp
next
  case (Suc k)
  obtain st where st: "cobo_compute_children r n = Some st" "cobo_child st = map fst (rank_kids n r)"
    using compute_children_Some [OF Suc.prems(1) assms(1)] by blast
  let ?sub = "\<lambda>c. run_down k n f c (Some (M c))"
  have sub: "\<exists>xs. ?sub c = Some xs \<and> mset xs = mset (map (\<lambda>r. (r, R r)) [c..<Suc (rank_upper n c)])"
    if "(c, j) \<in> set (rank_kids n r)" for c j
    using Suc.IH [of c] Suc.prems rank_kids_bounds [OF Suc.prems(1) that] inp [of c] by simp
  then have "those (map ?sub (cobo_child st)) = Some (map (\<lambda>c. the (?sub c)) (cobo_child st))"
    using st(2) by (intro those_map_Some) force
  then have "run_down (Suc k) n f r (I r) =
      Some ((r, R r) # concat (map (\<lambda>c. the (?sub c)) (cobo_child st)))"
    using st(1) step [OF Suc.prems(1) st(1)]
    by (simp add: zip_map2 zip_same_conv_map comp_def)
  moreover have "mset (concat (map (\<lambda>c. the (?sub c)) (cobo_child st))) =
      mset (concat (map (\<lambda>c. map (\<lambda>r. (r, R r)) [c..<Suc (rank_upper n c)]) (map fst (rank_kids n r))))"
    unfolding st(2) mset_concat using sub by (fastforce intro!: arg_cong [where f = sum_list] simp del: upt_Suc)
  ultimately show ?case
    unfolding mset_rank_tile [OF Suc.prems(1)] by simp
qed


section \<open>Neighbours agree\<close>

text \<open>C21. The tree that the ranks compute independently is consistent: \<open>c\<close> is in the
  child array of rank \<open>r\<close> exactly if \<open>c\<close> is not the root and computes \<open>r\<close> as its parent.\<close>

theorem cobo_parent_child_agree:
  assumes "n \<le> 2 ^ 30" and "r < n" and "c < n"
    and "cobo_compute_children r n = Some p" and "cobo_compute_children c n = Some q"
  shows "c \<in> set (cobo_child p) \<longleftrightarrow> c \<noteq> 0 \<and> cobo_parent q = r"
proof -
  have p: "cobo_child p = map fst (rank_kids n r)"
    by (rule cobo_compute_children_eq [OF assms(2,1)]) (use assms(4) in auto)
  have q: "cobo_parent q = (if c = 0 then 0 else seg_parent 0 (n - 1) c)"
    by (rule cobo_compute_children_eq [OF assms(3,1)]) (use assms(5) in auto)
  show ?thesis
  proof
    assume "c \<in> set (cobo_child p)"
    then obtain k where "(c, k) \<in> set (rank_kids n r)" using p by auto
    with rank_kids_bounds [OF assms(2) this] seg_kid [of 0 r "n - 1" c k] assms(2)
    show "c \<noteq> 0 \<and> cobo_parent q = r" by (simp add: q rank_kids_def rank_upper_def)
  next
    assume "c \<noteq> 0 \<and> cobo_parent q = r"
    with seg_kid_of_parent [of 0 c "n - 1"] assms(3) show "c \<in> set (cobo_child p)"
      by (force simp: p q rank_kids_def rank_upper_def)
  qed
qed

theorem cobo_parent_child_agree_witness:
  "\<exists>p q. cobo_compute_children 2 6 = Some p \<and> cobo_compute_children 3 6 = Some q \<and>
     (3 \<in> set (cobo_child p) \<longleftrightarrow> 3 \<noteq> (0::nat) \<and> cobo_parent q = 2)"
proof -
  obtain p q where "cobo_compute_children 2 6 = Some p" "cobo_compute_children 3 6 = Some q"
    using compute_children_Some [of 2 6] compute_children_Some [of 3 6] by auto
  with cobo_parent_child_agree [of 6 2 3 p q] show ?thesis by simp
qed

text \<open>C22. A rank's child arrays never overflow their allocation, hold as many entries as
  the counters say, and the size recorded for a child is one more than the number of
  descendants the child itself computes. So what a parent expects of a child in a
  collective is what the child sends.\<close>

theorem cobo_child_arrays:
  assumes "n \<le> 2 ^ 30" and "r < n"
  shows "\<exists>st. cobo_compute_children r n = Some st \<and> cobo_num_child st \<le> cobo_max_child st \<and>
    length (cobo_child st) = cobo_num_child st \<and> length (cobo_child_incl st) = cobo_num_child st \<and>
    cobo_num_child_incl st = sum_list (cobo_child_incl st) \<and>
    (\<forall>i < cobo_num_child st. \<exists>q. cobo_compute_children (cobo_child st ! i) n = Some q \<and>
       cobo_child_incl st ! i = cobo_num_child_incl q + 1)"
proof (rule cobo_compute_children_eq [OF assms(2,1)], goal_cases)
  case (1 m)
  have "\<exists>q. cobo_compute_children (fst (rank_kids n r ! i)) n = Some q \<and>
      snd (rank_kids n r ! i) = cobo_num_child_incl q + 1" if "i < length (rank_kids n r)" for i
    using rank_kids_bounds [OF assms(2), of "fst (rank_kids n r ! i)" "snd (rank_kids n r ! i)"] that
      compute_children_Some [of "fst (rank_kids n r ! i)" n] assms(1) by auto
  with 1 show ?case by (auto simp: rank_kids_def seg_kids_incl)
qed

theorem cobo_child_arrays_witness:
  "\<exists>st. cobo_compute_children 0 6 = Some st \<and> cobo_num_child st \<le> cobo_max_child st \<and>
     length (cobo_child st) = cobo_num_child st"
  using cobo_child_arrays [of 6 0] by auto

end
