(* ===== verification/Cobo_Collectives.thy ===== *)
theory Cobo_Collectives
  imports Cobo_Tree
begin

text \<open>
  The collectives of COBO (\<open>src/src/cobo/cobo.c\<close>) over the tree of \<open>Cobo_Tree\<close>.

  Each collective has a rank-local operation, which takes what the rank reads from the
  sockets of its children (or of its parent) and returns what it writes, and is composed
  over the tree by \<^const>\<open>run_up\<close> and \<^const>\<open>run_down\<close>. Byte counts are \<^typ>\<open>nat\<close>. Fresh memory
  of \<open>cobo_malloc\<close> is filled with NUL, and every write into a buffer is bounds checked by
  \<^const>\<open>buf_put\<close>.
\<close>

section \<open>Reading and writing a socket\<close>

text \<open>
  One iteration of the read loop sees one outcome of \<open>poll\<close> and \<open>read\<close>. In
  \<open>Read_Bytes k\<close> the kernel has \<open>Suc k\<close> bytes ready; \<open>read\<close> returns as many of them as
  the caller asks for and the stream holds. Running out of outcomes is a loop that has
  not finished.
\<close>

datatype poll_event =
    Poll_Error
  | Poll_Timeout
  | Poll_Hangup
  | Poll_Err
  | Poll_Invalid
  | Poll_No_In
  | Read_Retry
  | Read_Error
  | Read_Zero
  | Read_Bytes nat

primrec cobo_read_fd_w_timeout ::
  "poll_event list \<Rightarrow> byte list \<Rightarrow> nat \<Rightarrow> byte list \<Rightarrow> (byte list \<times> byte list) option"
where
  "cobo_read_fd_w_timeout [] stream sz buf = (if length buf < sz then None else Some (buf, stream))"
| "cobo_read_fd_w_timeout (ev # evs) stream sz buf =
     (if length buf < sz then
        (case ev of
           Read_Retry \<Rightarrow> cobo_read_fd_w_timeout evs stream sz buf
         | Read_Bytes k \<Rightarrow>
             let rc = min (min (Suc k) (length stream)) (sz - length buf) in
             if rc = 0 then None
             else cobo_read_fd_w_timeout evs (drop rc stream) sz (buf @ take rc stream)
         | _ \<Rightarrow> None)
      else Some (buf, stream))"

datatype write_event = Write_Retry | Write_Error | Write_Zero | Write_Bytes nat

primrec cobo_write_fd_w_suppress ::
  "write_event list \<Rightarrow> byte list \<Rightarrow> byte list \<Rightarrow> byte list option"
where
  "cobo_write_fd_w_suppress [] stream rest = (if rest \<noteq> [] then None else Some stream)"
| "cobo_write_fd_w_suppress (ev # evs) stream rest =
     (if rest \<noteq> [] then
        (case ev of
           Write_Retry \<Rightarrow> cobo_write_fd_w_suppress evs stream rest
         | Write_Bytes k \<Rightarrow>
             let rc = min (Suc k) (length rest) in
             cobo_write_fd_w_suppress evs (stream @ take rc rest) (drop rc rest)
         | _ \<Rightarrow> None)
      else Some stream)"

text \<open>What a blocking read of \<open>sz\<close> bytes returns from a stream that holds them.\<close>

definition stream_read :: "byte list \<Rightarrow> nat \<Rightarrow> byte list option" where
  "stream_read stream sz = (if sz \<le> length stream then Some (take sz stream) else None)"

section \<open>Gather\<close>

text \<open>
  The result is the content of \<open>bigbuf\<close>: what a rank writes to its parent, or what rank 0
  has in its receive buffer.
\<close>

primrec gather_children ::
  "nat \<Rightarrow> cobo_t \<Rightarrow> nat \<Rightarrow> byte list list \<Rightarrow> byte list \<Rightarrow> nat \<Rightarrow> byte list option"
where
  "gather_children 0 st sendcount child_fd bigbuf offset = Some bigbuf"
| "gather_children (Suc i) st sendcount child_fd bigbuf offset = do {
     data \<leftarrow> stream_read (child_fd ! i) (sendcount * cobo_child_incl st ! i);
     bigbuf' \<leftarrow> buf_put bigbuf offset data;
     gather_children i st sendcount child_fd bigbuf' (offset + sendcount * cobo_child_incl st ! i)
   }"

definition cobo_gather_tree ::
  "cobo_t \<Rightarrow> byte list \<Rightarrow> nat \<Rightarrow> byte list \<Rightarrow> byte list list \<Rightarrow> byte list option"
where
  "cobo_gather_tree st sendbuf sendcount recvbuf child_fd =
     (let bigcount = (cobo_num_child_incl st + 1) * sendcount;
          bigbuf = (if cobo_me st \<noteq> 0 then replicate bigcount NUL else recvbuf)
      in do {
        bigbuf \<leftarrow> buf_put bigbuf 0 (take sendcount sendbuf);
        bigbuf \<leftarrow> gather_children (cobo_num_child st) st sendcount child_fd bigbuf sendcount;
        Some (if cobo_me st \<noteq> 0 then take bigcount bigbuf else bigbuf)
      })"

section \<open>Broadcast\<close>

text \<open>The rank's buffer after the broadcast and the messages to the children, in child order.\<close>

definition cobo_bcast_tree :: "cobo_t \<Rightarrow> 'm \<Rightarrow> 'm option \<Rightarrow> ('m \<times> 'm list) option" where
  "cobo_bcast_tree st buf parent_fd = do {
     buf \<leftarrow> (if cobo_me st \<noteq> 0 then parent_fd else Some buf);
     Some (buf, map (\<lambda>i. buf) [0..<cobo_num_child st])
   }"

section \<open>Scatter\<close>

text \<open>The rank's own chunk and the messages to the children, in child order.\<close>

fun scatter_children :: "nat list \<Rightarrow> nat \<Rightarrow> byte list \<Rightarrow> nat \<Rightarrow> byte list list" where
  "scatter_children [] sendcount bigbuf offset = []"
| "scatter_children (incl # incls) sendcount bigbuf offset =
     take (sendcount * incl) (drop offset bigbuf)
       # scatter_children incls sendcount bigbuf (offset + sendcount * incl)"

definition cobo_scatter_tree ::
  "cobo_t \<Rightarrow> byte list \<Rightarrow> nat \<Rightarrow> byte list option \<Rightarrow> (byte list \<times> byte list list) option"
where
  "cobo_scatter_tree st sendbuf sendcount parent_fd =
     (let bigcount = (cobo_num_child_incl st + 1) * sendcount in do {
        bigbuf \<leftarrow> (if cobo_me st \<noteq> 0
                   then parent_fd \<bind> (\<lambda>stream. stream_read stream bigcount) else Some sendbuf);
        Some (take sendcount bigbuf,
              scatter_children (take (cobo_num_child st) (cobo_child_incl st)) sendcount bigbuf sendcount)
      })"

section \<open>Reductions\<close>

datatype cobo_op_t =
    COBO_OP_MIN | COBO_OP_MAX | COBO_OP_BITWISE_AND | COBO_OP_BITWISE_OR
  | COBO_OP_LOGICAL_AND | COBO_OP_LOGICAL_OR | COBO_OP_SUM | COBO_OP_NOOP | NUM_COBO_OP

unbundle bit_operations_syntax

definition cobo_op :: "cobo_op_t \<Rightarrow> 64 word \<Rightarrow> 64 word \<Rightarrow> 64 word" where
  "cobo_op op pval child_val =
     (case op of
        COBO_OP_MIN \<Rightarrow> if child_val < pval then child_val else pval
      | COBO_OP_MAX \<Rightarrow> if child_val > pval then child_val else pval
      | COBO_OP_BITWISE_AND \<Rightarrow> pval AND child_val
      | COBO_OP_BITWISE_OR \<Rightarrow> pval OR child_val
      | COBO_OP_LOGICAL_AND \<Rightarrow> if pval \<noteq> 0 \<and> child_val \<noteq> 0 then 1 else 0
      | COBO_OP_LOGICAL_OR \<Rightarrow> if pval \<noteq> 0 \<or> child_val \<noteq> 0 then 1 else 0
      | COBO_OP_SUM \<Rightarrow> pval + child_val
      | COBO_OP_NOOP \<Rightarrow> pval
      | NUM_COBO_OP \<Rightarrow> pval)"

text \<open>The loop over the children of a reduction, from the last child to the first.\<close>

primrec reduce_children :: "('v \<Rightarrow> 'v \<Rightarrow> 'v) \<Rightarrow> nat \<Rightarrow> 'v list \<Rightarrow> 'v \<Rightarrow> 'v" where
  "reduce_children f 0 child_fd pval = pval"
| "reduce_children f (Suc i) child_fd pval = reduce_children f i child_fd (f pval (child_fd ! i))"

definition max_int_op :: "int \<Rightarrow> int \<Rightarrow> int" where
  "max_int_op max_val child_val = (if child_val > max_val then child_val else max_val)"

text \<open>The two halves of a reduction over the whole tree: up to rank 0, then down again.\<close>

definition reduce_tree :: "('v \<Rightarrow> 'v \<Rightarrow> 'v) \<Rightarrow> nat \<Rightarrow> (nat \<Rightarrow> 'v) \<Rightarrow> (nat \<times> 'v) list option" where
  "reduce_tree f n v = do {
     res \<leftarrow> run_up n n (\<lambda>st child_fd.
             Some (reduce_children f (cobo_num_child st) child_fd (v (cobo_me st)))) 0;
     run_down n n (\<lambda>st. cobo_bcast_tree st (if cobo_me st = 0 then res else v (cobo_me st))) 0 None
   }"

definition cobo_allreduce :: "cobo_op_t \<Rightarrow> nat \<Rightarrow> (nat \<Rightarrow> 64 word) \<Rightarrow> (nat \<times> 64 word) list option" where
  "cobo_allreduce op n pval = reduce_tree (cobo_op op) n pval"

definition cobo_allreduce_max_int_tree :: "nat \<Rightarrow> (nat \<Rightarrow> int) \<Rightarrow> (nat \<times> int) list option" where
  "cobo_allreduce_max_int_tree n sendbuf = reduce_tree max_int_op n sendbuf"

definition cobo_barrier :: "nat \<Rightarrow> (nat \<times> int) list option" where
  "cobo_barrier n = cobo_allreduce_max_int_tree n (\<lambda>r. 1)"

section \<open>Allgather\<close>

definition cobo_allgather ::
  "nat \<Rightarrow> (nat \<Rightarrow> byte list) \<Rightarrow> (nat \<Rightarrow> nat) \<Rightarrow> (nat \<times> byte list) list option"
where
  "cobo_allgather n sendbuf sendcount =
     (let recvbuf = (\<lambda>r. replicate (n * sendcount r) NUL) in do {
        gathered \<leftarrow> run_up n n (\<lambda>st. cobo_gather_tree st (sendbuf (cobo_me st))
                       (sendcount (cobo_me st)) (recvbuf (cobo_me st))) 0;
        run_down n n (\<lambda>st. cobo_bcast_tree st
                       (if cobo_me st = 0 then gathered else recvbuf (cobo_me st))) 0 None
      })"

text \<open>
  \<open>cobo_allgather_str\<close>: the maximum length travels first, then the padded strings; the
  strings a rank returns are the pointers into its receive buffer.
\<close>

definition pad_str :: "string \<Rightarrow> nat \<Rightarrow> byte list" where
  "pad_str s maxlen = cstr s @ replicate (maxlen - length (cstr s)) NUL"

definition split_strings :: "nat \<Rightarrow> nat \<Rightarrow> byte list \<Rightarrow> string list" where
  "split_strings n maxlen stringbuf = map (\<lambda>i. c_str (drop (i * maxlen) stringbuf)) [0..<n]"

definition result_at :: "(nat \<times> 'v) list \<Rightarrow> 'v \<Rightarrow> nat \<Rightarrow> 'v" where
  "result_at res d r = (case map_of res r of Some v \<Rightarrow> v | None \<Rightarrow> d)"

definition cobo_allgather_str :: "nat \<Rightarrow> (nat \<Rightarrow> string) \<Rightarrow> (nat \<times> string list) list option" where
  "cobo_allgather_str n sendstr = do {
     lens \<leftarrow> cobo_allreduce_max_int_tree n (\<lambda>r. int (length (sendstr r)) + 1);
     let maxlen = (\<lambda>r. nat (result_at lens 0 r));
     bufs \<leftarrow> cobo_allgather n (\<lambda>r. pad_str (sendstr r) (maxlen r)) maxlen;
     Some (map (\<lambda>(r, stringbuf). (r, split_strings n (maxlen r) stringbuf)) bufs)
   }"

section \<open>Short reads and writes are invisible\<close>

lemma cobo_read_fd_prefix:
  assumes "cobo_read_fd_w_timeout evs stream sz buf = Some (buf', stream')" and "length buf \<le> sz"
  shows "buf' @ stream' = buf @ stream \<and> length buf' = sz"
  using assms
proof (induction evs arbitrary: stream buf)
  case Nil
  then show ?case by (auto split: if_splits)
next
  case (Cons ev evs)
  then show ?case
    by (cases ev; cases "length buf < sz") (fastforce simp: Let_def split: if_splits)+
qed

lemma cobo_write_fd_appends:
  "cobo_write_fd_w_suppress evs stream rest = Some stream' \<Longrightarrow> stream' = stream @ rest"
proof (induction evs arbitrary: stream rest)
  case Nil
  then show ?case by (auto split: if_splits)
next
  case (Cons ev evs)
  then show ?case
    by (cases ev; cases "rest = []") (fastforce simp: Let_def)+
qed

text \<open>Progress: with data in the stream and enough wake-ups, the read finishes.\<close>

lemma cobo_read_fd_completes:
  assumes "\<forall>e \<in> set evs. e = Read_Retry \<or> (\<exists>k. e = Read_Bytes k)"
    and "sz \<le> length buf + length stream"
    and "sz \<le> length buf + length (filter (\<lambda>e. e \<noteq> Read_Retry) evs)"
  shows "cobo_read_fd_w_timeout evs stream sz buf \<noteq> None"
  using assms
proof (induction evs arbitrary: stream buf)
  case Nil
  then show ?case by simp
next
  case (Cons e evs)
  from Cons.prems(1) consider "e = Read_Retry" | k where "e = Read_Bytes k" by auto
  then show ?case
  proof cases
    case 1
    with Cons show ?thesis by auto
  next
    case 2
    show ?thesis
    proof (cases "length buf < sz")
      case True
      define rc where "rc = min (min (Suc k) (length stream)) (sz - length buf)"
      have "0 < rc" "rc \<le> length stream" using True Cons.prems by (auto simp: rc_def)
      with Cons.IH [of "buf @ take rc stream" "drop rc stream"] Cons.prems True 2 show ?thesis
        by (simp add: Let_def flip: rc_def)
    next
      case False
      then show ?thesis by simp
    qed
  qed
qed


section \<open>Broadcast reaches every rank once\<close>

lemma bcast_all:
  assumes "0 < n" and "n \<le> 2 ^ 30"
  shows "\<exists>xs. run_down n n (\<lambda>st. cobo_bcast_tree st (b (cobo_me st))) 0 None = Some xs \<and>
           mset xs = mset (map (\<lambda>r. (r, b 0)) [0..<n])"
proof -
  define I where "I r = (if r = 0 then None else Some (b 0))" for r :: nat
  have "\<exists>xs. run_down n n (\<lambda>st. cobo_bcast_tree st (b (cobo_me st))) 0 (I 0) = Some xs \<and>
      mset xs = mset (map (\<lambda>r. (r, b 0)) [0..<Suc (rank_upper n 0)])"
  proof (rule run_down_rule [where M = "\<lambda>_. b 0" and R = "\<lambda>_. b 0"])
    fix r st
    assume "r < n" and "cobo_compute_children r n = Some st"
    with compute_children_Some [OF this(1) assms(2)]
    have "cobo_me st = r" "length (cobo_child st) = cobo_num_child st" by auto
    then show "cobo_bcast_tree st (b (cobo_me st)) (I r) = Some (b 0, map (\<lambda>_. b 0) (cobo_child st))"
      by (simp add: cobo_bcast_tree_def map_replicate_const I_def)
  qed (use assms in \<open>auto simp: I_def\<close>)
  with assms show ?thesis by (simp add: I_def del: upt_Suc)
qed

section \<open>Gather collects in rank order\<close>

lemma gather_children_eq:
  assumes "i \<le> length ks" and "cobo_child_incl st = map snd ks" and "length child_fd = length ks"
    and "\<forall>j < length ks. length (child_fd ! j) = sc * snd (ks ! j)"
    and "length pre + sc * sum_list (map snd (take i ks)) + extra = length buf"
    and "take (length pre) buf = pre"
  shows "\<exists>rest. gather_children i st sc child_fd buf (length pre) =
           Some (pre @ concat (rev (take i child_fd)) @ rest) \<and> length rest = extra"
  using assms(1,5,6)
proof (induction i arbitrary: pre buf)
  case 0
  then have "buf = pre @ drop (length pre) buf" by (metis append_take_drop_id)
  with 0 show ?case by (intro exI [of _ "drop (length pre) buf"]) simp
next
  case (Suc i)
  let ?d = "child_fd ! i"
  have d: "length ?d = sc * snd (ks ! i)" "cobo_child_incl st ! i = snd (ks ! i)"
    using Suc.prems(1) assms(2,4) by simp_all
  have tk: "take (Suc i) ks = take i ks @ [ks ! i]" "take (Suc i) child_fd = take i child_fd @ [?d]"
    using Suc.prems(1) assms(3) by (simp_all add: take_Suc_conv_app_nth)
  have "length pre + length ?d + (sc * sum_list (map snd (take i ks)) + extra) = length buf"
    using Suc.prems(2) d tk by (simp add: algebra_simps)
  from buf_put_prefix [OF this refl Suc.prems(3)] obtain rest where
    put: "buf_put buf (length pre) ?d = Some (pre @ ?d @ rest)"
    and len: "length rest = sc * sum_list (map snd (take i ks)) + extra" by blast
  have "\<exists>rest'. gather_children i st sc child_fd (pre @ ?d @ rest) (length (pre @ ?d)) =
      Some ((pre @ ?d) @ concat (rev (take i child_fd)) @ rest') \<and> length rest' = extra"
    using Suc.prems(1) len by (intro Suc.IH) simp_all
  with put d tk show ?case by (simp add: stream_read_def)
qed

lemma length_gather_children:
  "gather_children i st sc child_fd buf off = Some buf' \<Longrightarrow> length buf' = length buf"
  by (induction i arbitrary: buf off) (auto simp: bind_eq_Some_conv dest: length_buf_put)

lemma gather_local:
  assumes "r < n" and "n \<le> 2 ^ 30" and "cobo_compute_children r n = Some st"
    and "length own = sc" and "r = 0 \<Longrightarrow> length recvbuf = n * sc"
    and V: "\<And>c k. (c, k) \<in> set (rank_kids n r) \<Longrightarrow> length (V c) = sc * k"
  shows "cobo_gather_tree st own sc recvbuf (map V (cobo_child st)) =
    Some (own @ concat (map V (rev (map fst (rank_kids n r)))))"
proof -
  let ?ks = "rank_kids n r"
  from compute_children_Some [OF assms(1,2)] assms(3) have
    st: "cobo_me st = r" "cobo_child st = map fst ?ks" "cobo_child_incl st = map snd ?ks"
      "cobo_num_child st = length ?ks" "cobo_num_child_incl st = rank_upper n r - r" by auto
  define big where "big = (if r \<noteq> 0 then replicate (Suc (rank_upper n r - r) * sc) NUL else recvbuf)"
  have big: "length big = sc + sc * (rank_upper n r - r)"
    using assms(1,5) by (cases n) (auto simp: big_def mult.commute)
  then obtain big' where put: "buf_put big 0 own = Some (own @ big')"
    "length big' = sc * (rank_upper n r - r)"
    using assms(4) by (auto simp: buf_put_def)
  have sum: "sum_list (map snd ?ks) = rank_upper n r - r"
    by (simp add: rank_kids_def seg_kids_incl)
  have "\<exists>rest. gather_children (length ?ks) st sc (map V (cobo_child st)) (own @ big') (length own) =
      Some (own @ concat (rev (take (length ?ks) (map V (cobo_child st)))) @ rest) \<and> length rest = 0"
  proof (rule gather_children_eq)
    show "\<forall>j < length ?ks. length (map V (cobo_child st) ! j) = sc * snd (?ks ! j)"
      using st(2) V [of "fst (?ks ! j)" "snd (?ks ! j)" for j] by simp
  qed (use st sum put assms in auto)
  then have "gather_children (length ?ks) st sc (map V (cobo_child st)) (own @ big') sc =
      Some (own @ concat (map V (rev (map fst ?ks))))"
    using st(2) assms(4) by (simp add: rev_map)
  moreover from this have "length (own @ concat (map V (rev (map fst ?ks)))) \<le> Suc (rank_upper n r - r) * sc"
    using put(2) assms(4) by (auto dest: length_gather_children simp: mult.commute)
  ultimately show ?thesis
    using put(1) st assms(4) by (cases "r = 0") (simp_all add: cobo_gather_tree_def Let_def big_def)
qed

lemma gather_run:
  assumes "0 < n" and "n \<le> 2 ^ 30" and "\<forall>r < n. length (sendbuf r) = sc" and "\<forall>r < n. sendcount r = sc"
    and "length (recvbuf 0) = n * sc"
  shows "run_up n n (\<lambda>st. cobo_gather_tree st (sendbuf (cobo_me st)) (sendcount (cobo_me st))
           (recvbuf (cobo_me st))) 0 = Some (concat (map sendbuf [0..<n]))"
    (is "run_up n n ?f 0 = _")
proof -
  define V where "V r = concat (map sendbuf [r..<Suc (rank_upper n r)])" for r
  have lenV: "length (V r) = sc * Suc (rank_upper n r - r)" if "r < n" for r
    using rank_upper_bounds [OF that] assms(3) unfolding V_def
    by (subst length_concat_const [of _ sc]) (auto simp: Suc_diff_le)
  have "run_up n n ?f 0 = Some (V 0)"
  proof (rule run_up_rule)
    fix r st
    assume r: "r < n" and st: "cobo_compute_children r n = Some st"
    with compute_children_Some [OF r assms(2)] have me: "cobo_me st = r" by auto
    have kids: "length (V c) = sc * k" if "(c, k) \<in> set (rank_kids n r)" for c k
      using rank_kids_bounds [OF r that] lenV [of c] by simp
    have "?f st (map V (cobo_child st)) = Some (sendbuf r @ concat (map V (rev (map fst (rank_kids n r)))))"
      using gather_local [OF r assms(2) st, of "sendbuf r" sc "recvbuf r" V] kids assms r me by auto
    also have "concat (map V (rev (map fst (rank_kids n r)))) = concat (map sendbuf [Suc r..<Suc (rank_upper n r)])"
      unfolding rank_tile [OF r, symmetric] V_def
      by (simp only: map_concat concat_concat rev_map map_map comp_def)
    also have "sendbuf r @ concat (map sendbuf [Suc r..<Suc (rank_upper n r)]) = V r"
      using rank_upper_bounds [OF r] by (simp add: V_def upt_conv_Cons del: upt_Suc)
    finally show "?f st (map V (cobo_child st)) = Some (V r)" .
  qed (use assms in auto)
  with assms(1) show ?thesis by (simp add: V_def del: upt_Suc)
qed


section \<open>Reductions\<close>

text \<open>
  What a reduction over the tree needs of its operator: associativity. The children
  are folded in from the last to the first, which is rank order, so commutativity is
  not needed.
\<close>

locale reduce_op =
  fixes f :: "'v \<Rightarrow> 'v \<Rightarrow> 'v"
  assumes assoc: "f (f a b) c = f a (f b c)"
begin

lemma foldl_push: "f a (foldl f b xs) = foldl f (f a b) xs"
  by (induction xs arbitrary: b) (simp_all add: assoc)

lemma foldl_blocks:
  "\<forall>xs \<in> set xss. xs \<noteq> [] \<Longrightarrow>
     foldl f a (map (\<lambda>xs. foldl f (hd xs) (tl xs)) xss) = foldl f a (concat xss)"
proof (induction xss arbitrary: a)
  case Nil
  then show ?case by simp
next
  case (Cons xs xss)
  then show ?case by (cases xs) (simp_all add: foldl_push)
qed

lemma reduce_up:
  assumes "0 < n" and "n \<le> 2 ^ 30"
  shows "run_up n n (\<lambda>st child_fd.
      Some (reduce_children f (cobo_num_child st) child_fd (v (cobo_me st)))) 0 =
    Some (foldl f (v 0) (map v [Suc 0..<n]))"
    (is "run_up n n ?g 0 = _")
proof -
  define seg where "seg r = map v [r..<Suc (rank_upper n r)]" for r
  define V where "V r = foldl f (hd (seg r)) (tl (seg r))" for r
  have red: "reduce_children f m xs a = foldl f a (rev (take m xs))" if "m \<le> length xs" for m xs a
    using that by (induction m arbitrary: a) (simp_all add: take_Suc_conv_app_nth)
  have seg: "seg r = v r # map v [Suc r..<Suc (rank_upper n r)]" if "r < n" for r
    using rank_upper_bounds [OF that] by (simp add: seg_def upt_conv_Cons del: upt_Suc)
  have "run_up n n ?g 0 = Some (V 0)"
  proof (rule run_up_rule)
    fix r st
    assume r: "r < n" and "cobo_compute_children r n = Some st"
    with compute_children_Some [OF r assms(2)] have st: "cobo_me st = r"
      "cobo_child st = map fst (rank_kids n r)" "cobo_num_child st = length (cobo_child st)" by auto
    have "\<forall>xs \<in> set (map seg (rev (cobo_child st))). xs \<noteq> []"
      using seg rank_kids_bounds(2) [OF r] st(2) by auto
    from foldl_blocks [OF this, of "v r"]
    have "foldl f (v r) (rev (map V (cobo_child st))) = foldl f (v r) (concat (map seg (rev (cobo_child st))))"
      by (simp add: V_def [abs_def] rev_map comp_def)
    also have "concat (map seg (rev (cobo_child st))) = map v [Suc r..<Suc (rank_upper n r)]"
      unfolding rank_tile [OF r, symmetric] st(2) seg_def by (simp only: map_concat map_map comp_def)
    finally show "?g st (map V (cobo_child st)) = Some (V r)"
      using st(1,3) seg [OF r] red [of "cobo_num_child st" "map V (cobo_child st)"]
      by (simp add: V_def [of r] del: upt_Suc)
  qed (use assms in auto)
  with assms(1) seg [of 0] show ?thesis by (simp add: V_def del: upt_Suc)
qed

lemma reduce_tree_all:
  assumes "0 < n" and "n \<le> 2 ^ 30"
  shows "\<exists>xs. reduce_tree f n v = Some xs \<and>
    mset xs = mset (map (\<lambda>r. (r, foldl f (v 0) (map v [Suc 0..<n]))) [0..<n])"
  using reduce_up [OF assms, of v]
    bcast_all [OF assms, of "\<lambda>r. if r = 0 then foldl f (v 0) (map v [Suc 0..<n]) else v r"]
  by (simp add: reduce_tree_def)

end

lemma cobo_op_assoc: "cobo_op op (cobo_op op a b) c = cobo_op op a (cobo_op op b c)"
  by (cases op) (auto simp: cobo_op_def and.assoc or.assoc)

interpretation cobo_red: reduce_op "cobo_op op" for op
  by unfold_locales (rule cobo_op_assoc)

interpretation max_red: reduce_op max_int_op
  by unfold_locales (auto simp: max_int_op_def)


lemma foldl_max_int_ge: "a \<le> foldl max_int_op a xs \<and> (\<forall>x \<in> set xs. x \<le> foldl max_int_op a xs)"
proof (induction xs arbitrary: a)
  case Nil
  then show ?case by simp
next
  case (Cons x xs)
  from Cons [of "max_int_op a x"] show ?case by (auto simp: max_int_op_def split: if_splits)
qed

section \<open>Allgather\<close>

lemma allgather_all:
  assumes "0 < n" and "n \<le> 2 ^ 30" and "\<forall>r < n. length (sendbuf r) = sc" and "\<forall>r < n. sendcount r = sc"
  shows "\<exists>xs. cobo_allgather n sendbuf sendcount = Some xs \<and>
    mset xs = mset (map (\<lambda>r. (r, concat (map sendbuf [0..<n]))) [0..<n])"
  using gather_run [of n sendbuf sc sendcount "\<lambda>r. replicate (n * sendcount r) NUL"] assms
    bcast_all [of n "\<lambda>r. if r = 0 then concat (map sendbuf [0..<n]) else replicate (n * sendcount r) NUL"]
  by (simp add: cobo_allgather_def Let_def)

lemma length_pad_str [simp]: "length s < maxlen \<Longrightarrow> length (pad_str s maxlen) = maxlen"
  by (simp add: pad_str_def)

lemma split_strings_padded:
  assumes "\<forall>r < n. nul_free (s r) \<and> length (s r) < maxlen"
  shows "split_strings n maxlen (concat (map (\<lambda>r. pad_str (s r) maxlen) [0..<n])) = map s [0..<n]"
proof -
  have "c_str (drop (i * maxlen) (concat (map (\<lambda>r. pad_str (s r) maxlen) [0..<n]))) = s i" if "i < n" for i
  proof -
    have "drop (i * maxlen) (concat (map (\<lambda>r. pad_str (s r) maxlen) [0..<n])) =
        concat (drop i (map (\<lambda>r. pad_str (s r) maxlen) [0..<n]))"
      using assms that by (intro drop_concat_const) auto
    also have "\<dots> = pad_str (s i) maxlen @ concat (map (\<lambda>r. pad_str (s r) maxlen) [Suc i..<n])"
      using that by (simp only: drop_map drop_upt add_0) (simp add: upt_conv_Cons [of i])
    finally show ?thesis using assms that by (simp add: pad_str_def c_str_cstr)
  qed
  then show ?thesis by (simp add: split_strings_def)
qed

lemma allgather_str_all:
  assumes "0 < n" and "n \<le> 2 ^ 30" and "\<forall>r < n. nul_free (sendstr r)"
  shows "\<exists>xs. cobo_allgather_str n sendstr = Some xs \<and>
    mset xs = mset (map (\<lambda>r. (r, map sendstr [0..<n])) [0..<n])"
proof -
  let ?l = "\<lambda>r. int (length (sendstr r)) + 1"
  define M where "M = foldl max_int_op (?l 0) (map ?l [Suc 0..<n])"
  from max_red.reduce_tree_all [OF assms(1,2), of ?l] obtain lens where
    lens: "cobo_allreduce_max_int_tree n ?l = Some lens" "mset lens = mset (map (\<lambda>r. (r, M)) [0..<n])"
    by (auto simp: cobo_allreduce_max_int_tree_def M_def)
  have set_lens: "set lens = (\<lambda>r. (r, M)) ` {0..<n}"
    using mset_eq_setD [OF lens(2)] by simp
  have res: "result_at lens 0 r = M" if "r < n" for r
    using map_of_const [of r lens M] that set_lens by (force simp: result_at_def)
  have M: "length (sendstr r) < nat M" if "r < n" for r
  proof -
    have "?l r \<le> M"
      using foldl_max_int_ge [of "?l 0" "map ?l [Suc 0..<n]"] that unfolding M_def by (cases "r = 0") auto
    then show ?thesis by linarith
  qed
  define maxlen where "maxlen r = nat (result_at lens 0 r)" for r
  from allgather_all [OF assms(1,2), of "\<lambda>r. pad_str (sendstr r) (maxlen r)" "nat M" maxlen] obtain bufs where
    bufs: "cobo_allgather n (\<lambda>r. pad_str (sendstr r) (maxlen r)) maxlen = Some bufs"
      "mset bufs = mset (map (\<lambda>r. (r, concat (map (\<lambda>r. pad_str (sendstr r) (maxlen r)) [0..<n]))) [0..<n])"
    using M res by (auto simp: maxlen_def)
  have "map (\<lambda>r. pad_str (sendstr r) (maxlen r)) [0..<n] = map (\<lambda>r. pad_str (sendstr r) (nat M)) [0..<n]"
    using res by (simp add: maxlen_def)
  with bufs(2) have "mset (map (\<lambda>(r, b). (r, split_strings n (maxlen r) b)) bufs) =
      image_mset (\<lambda>(r, b). (r, split_strings n (maxlen r) b))
        (mset (map (\<lambda>r. (r, concat (map (\<lambda>r. pad_str (sendstr r) (nat M)) [0..<n]))) [0..<n]))"
    by simp
  also have "\<dots> = mset (map (\<lambda>r. (r, split_strings n (maxlen r) (concat (map (\<lambda>r. pad_str (sendstr r) (nat M)) [0..<n])))) [0..<n])"
    by (simp add: multiset.map_comp comp_def)
  also have "\<dots> = mset (map (\<lambda>r. (r, map sendstr [0..<n])) [0..<n])"
    using split_strings_padded [of n sendstr "nat M"] assms(3) M res
    by (intro arg_cong [where f = mset] map_cong) (auto simp: maxlen_def)
  finally show ?thesis
    using lens(1) bufs(1) by (simp add: cobo_allgather_str_def maxlen_def [abs_def] Let_def)
qed


section \<open>Correctness of the collectives\<close>

text \<open>C26. However \<open>read\<close> fragments the data, a socket read of \<open>sz\<close> bytes that is given
  the bytes and enough wake-ups returns exactly the first \<open>sz\<close> bytes of the stream and
  leaves the rest there.\<close>

theorem cobo_read_fd_exact:
  assumes "\<forall>e \<in> set evs. e = Read_Retry \<or> (\<exists>k. e = Read_Bytes k)"
    and "sz \<le> length stream" and "sz \<le> length (filter (\<lambda>e. e \<noteq> Read_Retry) evs)"
  shows "cobo_read_fd_w_timeout evs stream sz [] = Some (take sz stream, drop sz stream)"
proof -
  from cobo_read_fd_completes [OF assms(1), of sz "[]" stream] assms obtain b s where
    r: "cobo_read_fd_w_timeout evs stream sz [] = Some (b, s)" by auto
  from cobo_read_fd_prefix [OF r] have "b @ s = stream" "length b = sz" by simp_all
  with r show ?thesis by auto
qed

theorem cobo_read_fd_exact_witness:
  "cobo_read_fd_w_timeout [Read_Bytes 1, Read_Retry, Read_Bytes 0, Read_Bytes 7] ''abcde'' 3 [] =
     Some (''abc'', ''de'')"
  using cobo_read_fd_exact [of "[Read_Bytes 1, Read_Retry, Read_Bytes 0, Read_Bytes 7]" 3 "''abcde''"]
  by simp



text \<open>C24. An allreduce finishes with the same value on every rank, each exactly once: the
  fold of the operator over the ranks' values in rank order. It holds for all operators
  of \<open>cobo_op_t\<close>, the sum on 64 bits wrapping.\<close>

theorem cobo_allreduce_agrees:
  assumes "0 < n" and "n \<le> 2 ^ 30"
  shows "\<exists>xs. cobo_allreduce op n pval = Some xs \<and>
    mset xs = mset (map (\<lambda>r. (r, foldl (cobo_op op) (pval 0) (map pval [1..<n]))) [0..<n])"
  using cobo_red.reduce_tree_all [OF assms] by (simp add: cobo_allreduce_def)

theorem cobo_allreduce_agrees_witness:
  "\<exists>xs. cobo_allreduce COBO_OP_SUM 3 (\<lambda>r. of_nat r + 1) = Some xs \<and>
     mset xs = mset [(0, 6), (1, 6), (2, 6)]"
  using cobo_allreduce_agrees [of 3 COBO_OP_SUM "\<lambda>r. of_nat r + 1"]
  by (simp add: upt_rec cobo_op_def numeral_2_eq_2 [symmetric])




end
