(* ===== verification/Cobo_Open.thy ===== *)
theory Cobo_Open
  imports Cobo_Tree
begin

text \<open>
  Opening the COBO tree (\<open>cobo_server_open\<close> and \<open>cobo_open_tree\<close> of
  \<open>src/src/cobo/cobo.c\<close>): the front end packs the hostnames into one table, connects
  to the first host, and every process forwards the table to its children.

  Socket set-up, the handshake and the exchange of service and session ids are not
  modelled: a connection to a host reaches the process on that host. \<open>None\<close> is a
  process that fails or reads a negative rank.
\<close>

section \<open>The hostname table\<close>

text \<open>
  A table of \<open>int\<close> offsets, one per host, followed by the NUL-terminated names. The
  loop fills an allocation of exactly \<open>hostlist_size\<close> bytes.
\<close>

fun fill_hostlist :: "string list \<Rightarrow> nat \<Rightarrow> nat \<Rightarrow> byte list \<Rightarrow> byte list option" where
  "fill_hostlist [] i offset buf = Some buf"
| "fill_hostlist (host # hosts) i offset buf = do {
     buf \<leftarrow> buf_put buf (4 * i) (put_i32 (int offset));
     buf \<leftarrow> buf_put buf offset (cstr host);
     fill_hostlist hosts (i + 1) (offset + length host + 1) buf
   }"

definition hostlist_size :: "string list \<Rightarrow> nat" where
  "hostlist_size hosts = 4 * length hosts + sum_list (map (\<lambda>h. length h + 1) hosts)"

definition build_hostlist :: "string list \<Rightarrow> byte list option" where
  "build_hostlist hosts =
     fill_hostlist hosts 0 (4 * length hosts) (replicate (hostlist_size hosts) NUL)"

definition cobo_expand_hostname :: "byte list \<Rightarrow> nat \<Rightarrow> string" where
  "cobo_expand_hostname hostlist rank =
     (let offset = nat (get_i32 (drop (4 * rank) hostlist)) in c_str (drop offset hostlist))"

section \<open>Opening the tree\<close>

text \<open>
  The message to a child: its rank, the number of ranks, the size of the table and the
  table. \<open>cobo_open_tree\<close> is one process: it reads the message, computes its children
  and sends each of them its message; the result lists all processes of the subtree with
  the host they run on. The first argument bounds the depth of the tree.
\<close>

definition cobo_send_hostlist :: "nat \<Rightarrow> nat \<Rightarrow> byte list \<Rightarrow> byte list" where
  "cobo_send_hostlist rank ranks hostlist =
     put_i32 (int rank) @ put_i32 (int ranks) @ put_i32 (int (length hostlist)) @ hostlist"

definition recv_hostlist :: "byte list \<Rightarrow> (nat \<times> nat \<times> byte list) option" where
  "recv_hostlist stream =
     (if length stream < 12 then None
      else let me = get_i32 stream; nprocs = get_i32 (drop 4 stream);
               sz = nat (get_i32 (drop 8 stream)) in
           if length stream < 12 + sz \<or> me < 0 \<or> nprocs < 0 then None
           else Some (nat me, nat nprocs, take sz (drop 12 stream)))"

primrec cobo_open_tree :: "nat \<Rightarrow> string \<Rightarrow> byte list \<Rightarrow> (string \<times> cobo_t) list option" where
  "cobo_open_tree 0 host parent_fd = None"
| "cobo_open_tree (Suc k) host parent_fd = do {
     (me, nprocs, hostlist) \<leftarrow> recv_hostlist parent_fd;
     st \<leftarrow> cobo_compute_children me nprocs;
     subs \<leftarrow> those (map (\<lambda>c. cobo_open_tree k (cobo_expand_hostname hostlist c)
                              (cobo_send_hostlist c nprocs hostlist)) (cobo_child st));
     Some ((host, st) # concat subs)
   }"

definition cobo_server_open :: "string list \<Rightarrow> (string \<times> cobo_t) list option" where
  "cobo_server_open hosts =
     (if hosts = [] then None
      else do {
        hostlist \<leftarrow> build_hostlist hosts;
        cobo_open_tree (length hosts) (hosts ! 0)
          (cobo_send_hostlist 0 (length hosts) hostlist)
      })"

section \<open>The table holds every name\<close>

fun host_offsets :: "nat \<Rightarrow> string list \<Rightarrow> nat list" where
  "host_offsets off [] = []"
| "host_offsets off (h # hs) = off # host_offsets (off + length h + 1) hs"

lemma length_host_offsets [simp]: "length (host_offsets off hs) = length hs"
  by (induction off hs rule: host_offsets.induct) auto

lemma host_offsets_nth:
  "i < length hs \<Longrightarrow> host_offsets off hs ! i = off + length (concat (map cstr (take i hs)))"
proof (induction off hs arbitrary: i rule: host_offsets.induct)
  case (1 off)
  then show ?case by simp
next
  case (2 off h hs)
  then show ?case by (cases i) auto
qed

abbreviation offset_table :: "nat list \<Rightarrow> byte list" where
  "offset_table offs \<equiv> concat (map (\<lambda>off. put_i32 (int off)) offs)"

lemma length_offset_table [simp]: "length (offset_table offs) = 4 * length offs"
  by (induction offs) auto

lemma fill_hostlist_eq:
  assumes "length tab = 4 * i" and "length gap = 4 * length hosts"
    and "length room = length (concat (map cstr hosts))"
    and "off = length (tab @ gap @ strs)"
  shows "fill_hostlist hosts i off (tab @ gap @ strs @ room) =
    Some (tab @ offset_table (host_offsets off hosts) @ strs @ concat (map cstr hosts))"
  using assms
proof (induction hosts i off "tab @ gap @ strs @ room" arbitrary: tab gap strs room rule: fill_hostlist.induct)
  case (1 i off)
  then show ?case by simp
next
  case (2 h hosts i off)
  have g: "gap = take 4 gap @ drop 4 gap" "length (take 4 gap) = 4" "length (drop 4 gap) = 4 * length hosts"
    using 2 by auto
  have r: "room = take (length (cstr h)) room @ drop (length (cstr h)) room"
    "length (take (length (cstr h)) room) = length (cstr h)"
    "length (drop (length (cstr h)) room) = length (concat (map cstr hosts))"
    using 2 by auto
  let ?buf1 = "(tab @ put_i32 (int off)) @ drop 4 gap @ strs @ room"
  have p1: "buf_put (tab @ gap @ strs @ room) (4 * i) (put_i32 (int off)) = Some ?buf1"
    using 2 by (auto simp: buf_put_def)
  let ?buf2 = "(tab @ put_i32 (int off)) @ drop 4 gap @ (strs @ cstr h) @ drop (length (cstr h)) room"
  have p2: "buf_put ?buf1 off (cstr h) = Some ?buf2"
    using 2 g by (auto simp: buf_put_def)
  have "fill_hostlist hosts (i + 1) (off + length h + 1) ?buf2 =
     Some ((tab @ put_i32 (int off)) @ offset_table (host_offsets (off + length h + 1) hosts)
           @ (strs @ cstr h) @ concat (map cstr hosts))"
    using 2 g r p1 p2 by (intro 2(1)) auto
  with p1 p2 show ?case by simp
qed


lemma build_hostlist_eq:
  "build_hostlist hosts =
     Some (offset_table (host_offsets (4 * length hosts) hosts) @ concat (map cstr hosts))"
proof -
  have "replicate (hostlist_size hosts) NUL =
      [] @ replicate (4 * length hosts) NUL @ [] @ replicate (length (concat (map cstr hosts))) NUL"
    by (simp add: hostlist_size_def length_concat comp_def flip: replicate_add)
  then show ?thesis
    using fill_hostlist_eq [of "[]" 0 "replicate (4 * length hosts) NUL" hosts
        "replicate (length (concat (map cstr hosts))) NUL" "4 * length hosts" "[]"]
    by (simp add: build_hostlist_def)
qed

lemma cobo_expand_hostname_eq:
  assumes "build_hostlist hosts = Some hostlist" and "hostlist_size hosts < 2 ^ 31"
    and "i < length hosts" and "nul_free (hosts ! i)"
  shows "cobo_expand_hostname hostlist i = hosts ! i"
proof -
  let ?n = "length hosts"
  define offs where "offs = host_offsets (4 * ?n) hosts"
  have hl: "hostlist = offset_table offs @ concat (map cstr hosts)"
    using assms(1) by (simp add: build_hostlist_eq offs_def)
  have split: "hosts = take i hosts @ hosts ! i # drop (Suc i) hosts"
    using assms(3) by (rule id_take_nth_drop)
  have off: "offs ! i = 4 * ?n + length (concat (map cstr (take i hosts)))"
    unfolding offs_def by (rule host_offsets_nth [OF assms(3)])
  have "length (concat (map cstr hosts)) \<ge> length (concat (map cstr (take i hosts)))"
    by (subst (2) split) simp
  moreover have "4 * ?n + length (concat (map cstr hosts)) = hostlist_size hosts"
    by (simp add: hostlist_size_def length_concat comp_def)
  ultimately have small: "offs ! i < 2 ^ 31" using off assms(2) by linarith
  have "drop (4 * i) (offset_table offs) = drop (i * 4) (concat (map (\<lambda>off. put_i32 (int off)) offs))"
    by (simp add: mult.commute)
  also have "\<dots> = concat (drop i (map (\<lambda>off. put_i32 (int off)) offs))"
    using assms(3) by (intro drop_concat_const) (auto simp: offs_def)
  also have "\<dots> = put_i32 (int (offs ! i)) @ offset_table (drop (Suc i) offs)"
    using assms(3) by (simp add: drop_map Cons_nth_drop_Suc [symmetric] offs_def)
  finally have "get_i32 (drop (4 * i) hostlist) = int (offs ! i)"
    using small assms(3) by (simp add: hl get_put_i32 offs_def)
  moreover have "drop (offs ! i) hostlist = concat (map cstr (drop i hosts))"
    unfolding hl off by (subst (2) split) (simp add: offs_def Cons_nth_drop_Suc [OF assms(3), symmetric])
  moreover have "concat (map cstr (drop i hosts)) = cstr (hosts ! i) @ concat (map cstr (drop (Suc i) hosts))"
    by (simp add: Cons_nth_drop_Suc [OF assms(3), symmetric])
  ultimately show ?thesis
    using assms(4) by (simp add: cobo_expand_hostname_def c_str_cstr)
qed

section \<open>Every host becomes the rank of its position\<close>

lemma recv_send_hostlist:
  assumes "rank < 2 ^ 31" and "ranks < 2 ^ 31" and "length hostlist < 2 ^ 31"
  shows "recv_hostlist (cobo_send_hostlist rank ranks hostlist) = Some (rank, ranks, hostlist)"
proof -
  have "drop 4 (cobo_send_hostlist rank ranks hostlist) =
      put_i32 (int ranks) @ put_i32 (int (length hostlist)) @ hostlist"
    "drop 8 (cobo_send_hostlist rank ranks hostlist) = put_i32 (int (length hostlist)) @ hostlist"
    "drop 12 (cobo_send_hostlist rank ranks hostlist) = hostlist"
    by (simp_all add: cobo_send_hostlist_def)
  then show ?thesis
    using assms by (simp add: recv_hostlist_def Let_def get_put_i32)
      (simp add: cobo_send_hostlist_def get_put_i32)
qed

lemma open_tree_run_down:
  assumes "r < n" and "n \<le> 2 ^ 30" and "length hostlist < 2 ^ 31"
    and names: "\<And>i. i < n \<Longrightarrow> cobo_expand_hostname hostlist i = hosts ! i"
  shows "cobo_open_tree k (hosts ! r) (cobo_send_hostlist r n hostlist) =
    map_option (map (\<lambda>(r, st). (hosts ! r, st)))
      (run_down k n (\<lambda>st _. Some (st, map (\<lambda>_. ()) (cobo_child st))) r inp)"
  using assms(1)
proof (induction k arbitrary: r inp)
  case 0
  then show ?case by simp
next
  case (Suc k)
  let ?f = "\<lambda>st _. Some (st, map (\<lambda>_. ()) (cobo_child st))"
  let ?g = "map (\<lambda>(r, st). (hosts ! r, st))"
  obtain st where st: "cobo_compute_children r n = Some st" "cobo_child st = map fst (rank_kids n r)"
    using compute_children_Some [OF Suc.prems assms(2)] by blast
  have "cobo_open_tree k (cobo_expand_hostname hostlist c) (cobo_send_hostlist c n hostlist) =
      map_option ?g (run_down k n ?f c (Some ()))" if "c \<in> set (cobo_child st)" for c
    using that st(2) names [of c] Suc.IH [of c] rank_kids_bounds(2) [OF Suc.prems] by auto
  then have "those (map (\<lambda>c. cobo_open_tree k (cobo_expand_hostname hostlist c)
        (cobo_send_hostlist c n hostlist)) (cobo_child st)) =
      map_option (map ?g) (those (map (\<lambda>c. run_down k n ?f c (Some ())) (cobo_child st)))"
    unfolding those_map_option [symmetric] by (intro arg_cong [where f = those] map_cong) blast+
  moreover have "recv_hostlist (cobo_send_hostlist r n hostlist) = Some (r, n, hostlist)"
    using Suc.prems assms(2,3) by (intro recv_send_hostlist) simp_all
  ultimately show ?case
    using st(1) by (cases "those (map (\<lambda>c. run_down k n ?f c (Some ())) (cobo_child st))")
      (simp_all add: zip_map2 zip_same_conv_map comp_def map_concat)
qed


lemma open_tree_all:
  assumes "0 < n" and "n \<le> 2 ^ 30"
  shows "\<exists>xs. run_down n n (\<lambda>st _. Some (st, map (\<lambda>_. ()) (cobo_child st))) 0 (Some ()) = Some xs \<and>
    mset (map (\<lambda>(r, st). (r, Some st)) xs) = mset (map (\<lambda>r. (r, cobo_compute_children r n)) [0..<n])"
proof -
  define R where "R r = the (cobo_compute_children r n)" for r
  have R: "cobo_compute_children r n = Some (R r)" if "r < n" for r
    using compute_children_Some [OF that assms(2)] by (auto simp: R_def)
  have "\<exists>xs. run_down n n (\<lambda>st _. Some (st, map (\<lambda>_. ()) (cobo_child st))) 0 (Some ()) = Some xs \<and>
      mset xs = mset (map (\<lambda>r. (r, R r)) [0..<Suc (rank_upper n 0)])"
    using assms R by (intro run_down_rule [where M = "\<lambda>_. ()" and I = "\<lambda>_. Some ()"]) auto
  then obtain xs where
    xs: "run_down n n (\<lambda>st _. Some (st, map (\<lambda>_. ()) (cobo_child st))) 0 (Some ()) = Some xs"
      "mset xs = mset (map (\<lambda>r. (r, R r)) [0..<n])"
    using assms(1) by (auto simp del: upt_Suc)
  have "mset (map (\<lambda>(r, st). (r, Some st)) xs) =
      image_mset (\<lambda>(r, st). (r, Some st)) (mset (map (\<lambda>r. (r, R r)) [0..<n]))"
    using xs(2) by simp
  also have "\<dots> = mset (map (\<lambda>r. (r, cobo_compute_children r n)) [0..<n])"
    using R by (auto simp: multiset.map_comp comp_def intro!: image_mset_cong)
  finally show ?thesis using xs(1) by blast
qed

text \<open>C20. Opening the tree over a list of hosts succeeds and makes the process on the
  \<open>r\<close>-th host rank \<open>r\<close>, each rank exactly once, with the parent and the children that
  \<open>cobo_compute_children\<close> gives that rank: every rank finds its children's hostnames in
  the table that travelled down the tree.\<close>

theorem cobo_server_open_ranks:
  assumes "hosts \<noteq> []" and "length hosts \<le> 2 ^ 30" and "hostlist_size hosts < 2 ^ 31"
    and "\<forall>h \<in> set hosts. nul_free h"
  shows "\<exists>xs. cobo_server_open hosts = Some xs \<and>
    mset (map (\<lambda>(h, st). (h, Some st)) xs) =
      mset (map (\<lambda>r. (hosts ! r, cobo_compute_children r (length hosts))) [0..<length hosts])"
proof -
  let ?n = "length hosts"
  obtain hl where hl: "build_hostlist hosts = Some hl" by (simp add: build_hostlist_eq)
  have len: "length hl = hostlist_size hosts"
    using hl by (auto simp: build_hostlist_eq hostlist_size_def length_concat [of "map cstr hosts"] comp_def)
  from open_tree_all [of ?n] assms obtain xs where
    xs: "run_down ?n ?n (\<lambda>st _. Some (st, map (\<lambda>_. ()) (cobo_child st))) 0 (Some ()) = Some xs"
    "mset (map (\<lambda>(r, st). (r, Some st)) xs) = mset (map (\<lambda>r. (r, cobo_compute_children r ?n)) [0..<?n])"
    by auto
  have "cobo_server_open hosts = Some (map (\<lambda>(r, st). (hosts ! r, st)) xs)"
    using hl assms xs(1) len cobo_expand_hostname_eq [OF hl]
    by (simp add: cobo_server_open_def open_tree_run_down [where inp = "Some ()"])
  moreover have "mset (map (\<lambda>(h, st). (h, Some st)) (map (\<lambda>(r, st). (hosts ! r, st)) xs)) =
      image_mset (\<lambda>(r, x). (hosts ! r, x)) (mset (map (\<lambda>(r, st). (r, Some st)) xs))"
    by (simp add: multiset.map_comp comp_def case_prod_unfold)
  ultimately show ?thesis
    unfolding xs(2) by (simp add: multiset.map_comp comp_def)
qed

theorem cobo_server_open_ranks_witness:
  "hostlist_size [''n0'', ''n1'', ''n2''] < 2 ^ 31 \<and>
   (\<exists>xs. cobo_server_open [''n0'', ''n1'', ''n2''] = Some xs \<and>
     mset (map (\<lambda>(h, st). (h, Some st)) xs) =
       mset [(''n0'', cobo_compute_children 0 3), (''n1'', cobo_compute_children 1 3),
             (''n2'', cobo_compute_children 2 3)])"
  using cobo_server_open_ranks [of "[''n0'', ''n1'', ''n2'']"]
  by (simp add: hostlist_size_def nul_free_def NUL_def upt_rec
      numeral_3_eq_3 [symmetric] numeral_2_eq_2 [symmetric] del: mset_upt)

end
