(* ===== verification/Spindle_Types.thy ===== *)
theory Spindle_Types
  imports Spindle_Prelude
begin

text \<open>
  Types shared by the parts of the server: message identifiers and messages of
  \<open>src/src/include/ldcs_api.h\<close>, and the peers of a server of
  \<open>src/src/server/auditserver/ldcs_audit_server_md.h\<close>.

  A message identifier is its number in the enumeration \<open>ldcs_message_ids_t\<close>, which is
  what travels in a packet. A peer is a \<open>void *\<close> that is either one of the reserved
  values or the handle of a connection to another server; the network layer never hands
  out a reserved value as a connection.
\<close>

type_synonym ldcs_message_ids_t = nat

abbreviation (input) LDCS_MSG_FILE_QUERY :: ldcs_message_ids_t where "LDCS_MSG_FILE_QUERY \<equiv> 0"
abbreviation (input) LDCS_MSG_FILE_QUERY_EXACT_PATH :: ldcs_message_ids_t where "LDCS_MSG_FILE_QUERY_EXACT_PATH \<equiv> 1"
abbreviation (input) LDCS_MSG_DSO_QUERY :: ldcs_message_ids_t where "LDCS_MSG_DSO_QUERY \<equiv> 2"
abbreviation (input) LDCS_MSG_DSO_QUERY_EXACT_PATH :: ldcs_message_ids_t where "LDCS_MSG_DSO_QUERY_EXACT_PATH \<equiv> 3"
abbreviation (input) LDCS_MSG_FILE_QUERY_ANSWER :: ldcs_message_ids_t where "LDCS_MSG_FILE_QUERY_ANSWER \<equiv> 4"
abbreviation (input) LDCS_MSG_FILE_ERRCODE :: ldcs_message_ids_t where "LDCS_MSG_FILE_ERRCODE \<equiv> 5"
abbreviation (input) LDCS_MSG_FILE_REQUEST :: ldcs_message_ids_t where "LDCS_MSG_FILE_REQUEST \<equiv> 6"
abbreviation (input) LDCS_MSG_STAT_QUERY :: ldcs_message_ids_t where "LDCS_MSG_STAT_QUERY \<equiv> 7"
abbreviation (input) LDCS_MSG_LSTAT_QUERY :: ldcs_message_ids_t where "LDCS_MSG_LSTAT_QUERY \<equiv> 8"
abbreviation (input) LDCS_MSG_STAT_ANSWER :: ldcs_message_ids_t where "LDCS_MSG_STAT_ANSWER \<equiv> 9"
abbreviation (input) LDCS_MSG_STAT_ANSWER_SELF :: ldcs_message_ids_t where "LDCS_MSG_STAT_ANSWER_SELF \<equiv> 10"
abbreviation (input) LDCS_MSG_STAT_NET_REQUEST :: ldcs_message_ids_t where "LDCS_MSG_STAT_NET_REQUEST \<equiv> 11"
abbreviation (input) LDCS_MSG_LSTAT_NET_REQUEST :: ldcs_message_ids_t where "LDCS_MSG_LSTAT_NET_REQUEST \<equiv> 12"
abbreviation (input) LDCS_MSG_STAT_NET_RESULT :: ldcs_message_ids_t where "LDCS_MSG_STAT_NET_RESULT \<equiv> 13"
abbreviation (input) LDCS_MSG_LSTAT_NET_RESULT :: ldcs_message_ids_t where "LDCS_MSG_LSTAT_NET_RESULT \<equiv> 14"
abbreviation (input) LDCS_MSG_EXISTS_QUERY :: ldcs_message_ids_t where "LDCS_MSG_EXISTS_QUERY \<equiv> 15"
abbreviation (input) LDCS_MSG_EXISTS_ANSWER :: ldcs_message_ids_t where "LDCS_MSG_EXISTS_ANSWER \<equiv> 16"
abbreviation (input) LDCS_MSG_ORIGPATH_QUERY :: ldcs_message_ids_t where "LDCS_MSG_ORIGPATH_QUERY \<equiv> 17"
abbreviation (input) LDCS_MSG_ORIGPATH_ANSWER :: ldcs_message_ids_t where "LDCS_MSG_ORIGPATH_ANSWER \<equiv> 18"
abbreviation (input) LDCS_MSG_END :: ldcs_message_ids_t where "LDCS_MSG_END \<equiv> 19"
abbreviation (input) LDCS_MSG_CWD :: ldcs_message_ids_t where "LDCS_MSG_CWD \<equiv> 20"
abbreviation (input) LDCS_MSG_PID :: ldcs_message_ids_t where "LDCS_MSG_PID \<equiv> 21"
abbreviation (input) LDCS_MSG_COMMPATH :: ldcs_message_ids_t where "LDCS_MSG_COMMPATH \<equiv> 22"
abbreviation (input) LDCS_MSG_CPU :: ldcs_message_ids_t where "LDCS_MSG_CPU \<equiv> 23"
abbreviation (input) LDCS_MSG_MYRANKINFO_QUERY :: ldcs_message_ids_t where "LDCS_MSG_MYRANKINFO_QUERY \<equiv> 24"
abbreviation (input) LDCS_MSG_MYRANKINFO_QUERY_ANSWER :: ldcs_message_ids_t where "LDCS_MSG_MYRANKINFO_QUERY_ANSWER \<equiv> 25"
abbreviation (input) LDCS_MSG_CACHE_ENTRIES :: ldcs_message_ids_t where "LDCS_MSG_CACHE_ENTRIES \<equiv> 26"
abbreviation (input) LDCS_MSG_ACK :: ldcs_message_ids_t where "LDCS_MSG_ACK \<equiv> 27"
abbreviation (input) LDCS_MSG_DESTROY :: ldcs_message_ids_t where "LDCS_MSG_DESTROY \<equiv> 28"
abbreviation (input) LDCS_MSG_FILE_DATA :: ldcs_message_ids_t where "LDCS_MSG_FILE_DATA \<equiv> 29"
abbreviation (input) LDCS_MSG_FILE_DATA_PART :: ldcs_message_ids_t where "LDCS_MSG_FILE_DATA_PART \<equiv> 30"
abbreviation (input) LDCS_MSG_PYTHONPREFIX_REQ :: ldcs_message_ids_t where "LDCS_MSG_PYTHONPREFIX_REQ \<equiv> 31"
abbreviation (input) LDCS_MSG_PYTHONPREFIX_RESP :: ldcs_message_ids_t where "LDCS_MSG_PYTHONPREFIX_RESP \<equiv> 32"
abbreviation (input) LDCS_MSG_DIRLISTS_REQ :: ldcs_message_ids_t where "LDCS_MSG_DIRLISTS_REQ \<equiv> 33"
abbreviation (input) LDCS_MSG_DIRLISTS_RESP :: ldcs_message_ids_t where "LDCS_MSG_DIRLISTS_RESP \<equiv> 34"
abbreviation (input) LDCS_MSG_LOADER_DATA_REQ :: ldcs_message_ids_t where "LDCS_MSG_LOADER_DATA_REQ \<equiv> 35"
abbreviation (input) LDCS_MSG_LOADER_DATA_RESP :: ldcs_message_ids_t where "LDCS_MSG_LOADER_DATA_RESP \<equiv> 36"
abbreviation (input) LDCS_MSG_LOADER_DATA_NET_REQ :: ldcs_message_ids_t where "LDCS_MSG_LOADER_DATA_NET_REQ \<equiv> 37"
abbreviation (input) LDCS_MSG_LOADER_DATA_NET_RESP :: ldcs_message_ids_t where "LDCS_MSG_LOADER_DATA_NET_RESP \<equiv> 38"
abbreviation (input) LDCS_MSG_MD_HOSTINFO :: ldcs_message_ids_t where "LDCS_MSG_MD_HOSTINFO \<equiv> 39"
abbreviation (input) LDCS_MSG_MD_HOSTLIST :: ldcs_message_ids_t where "LDCS_MSG_MD_HOSTLIST \<equiv> 40"
abbreviation (input) LDCS_MSG_MD_BOOTSTRAP :: ldcs_message_ids_t where "LDCS_MSG_MD_BOOTSTRAP \<equiv> 41"
abbreviation (input) LDCS_MSG_MD_BOOTSTRAP_END :: ldcs_message_ids_t where "LDCS_MSG_MD_BOOTSTRAP_END \<equiv> 42"
abbreviation (input) LDCS_MSG_MD_BOOTSTRAP_END_OK :: ldcs_message_ids_t where "LDCS_MSG_MD_BOOTSTRAP_END_OK \<equiv> 43"
abbreviation (input) LDCS_MSG_MD_BOOTSTRAP_END_NOT_OK :: ldcs_message_ids_t where "LDCS_MSG_MD_BOOTSTRAP_END_NOT_OK \<equiv> 44"
abbreviation (input) LDCS_MSG_PRELOAD_FILELIST :: ldcs_message_ids_t where "LDCS_MSG_PRELOAD_FILELIST \<equiv> 45"
abbreviation (input) LDCS_MSG_PRELOAD_DIR :: ldcs_message_ids_t where "LDCS_MSG_PRELOAD_DIR \<equiv> 46"
abbreviation (input) LDCS_MSG_PRELOAD_FILE :: ldcs_message_ids_t where "LDCS_MSG_PRELOAD_FILE \<equiv> 47"
abbreviation (input) LDCS_MSG_PRELOAD_DONE :: ldcs_message_ids_t where "LDCS_MSG_PRELOAD_DONE \<equiv> 48"
abbreviation (input) LDCS_MSG_SELFLOAD_FILE :: ldcs_message_ids_t where "LDCS_MSG_SELFLOAD_FILE \<equiv> 49"
abbreviation (input) LDCS_MSG_SETTINGS :: ldcs_message_ids_t where "LDCS_MSG_SETTINGS \<equiv> 50"
abbreviation (input) LDCS_MSG_EXIT_READY :: ldcs_message_ids_t where "LDCS_MSG_EXIT_READY \<equiv> 51"
abbreviation (input) LDCS_MSG_EXIT_CANCEL :: ldcs_message_ids_t where "LDCS_MSG_EXIT_CANCEL \<equiv> 52"
abbreviation (input) LDCS_MSG_EXIT :: ldcs_message_ids_t where "LDCS_MSG_EXIT \<equiv> 53"
abbreviation (input) LDCS_MSG_BUNDLE :: ldcs_message_ids_t where "LDCS_MSG_BUNDLE \<equiv> 54"
abbreviation (input) LDCS_MSG_ALIAS :: ldcs_message_ids_t where "LDCS_MSG_ALIAS \<equiv> 55"
abbreviation (input) LDCS_MSG_PROCMAPS_REQ :: ldcs_message_ids_t where "LDCS_MSG_PROCMAPS_REQ \<equiv> 56"
abbreviation (input) LDCS_MSG_PROCMAPS_RESP :: ldcs_message_ids_t where "LDCS_MSG_PROCMAPS_RESP \<equiv> 57"
abbreviation (input) LDCS_MSG_PICKONE_REQ :: ldcs_message_ids_t where "LDCS_MSG_PICKONE_REQ \<equiv> 58"
abbreviation (input) LDCS_MSG_PICKONE_RESP :: ldcs_message_ids_t where "LDCS_MSG_PICKONE_RESP \<equiv> 59"
abbreviation (input) LDCS_MSG_ALIVE_REQ :: ldcs_message_ids_t where "LDCS_MSG_ALIVE_REQ \<equiv> 60"
abbreviation (input) LDCS_MSG_ALIVE_RESP :: ldcs_message_ids_t where "LDCS_MSG_ALIVE_RESP \<equiv> 61"
abbreviation (input) LDCS_MSG_CHOSEN_CACHEPATH_REQUEST :: ldcs_message_ids_t where "LDCS_MSG_CHOSEN_CACHEPATH_REQUEST \<equiv> 62"
abbreviation (input) LDCS_MSG_CHOSEN_CACHEPATH :: ldcs_message_ids_t where "LDCS_MSG_CHOSEN_CACHEPATH \<equiv> 63"
abbreviation (input) LDCS_MSG_CRASH_REPORT :: ldcs_message_ids_t where "LDCS_MSG_CRASH_REPORT \<equiv> 64"
abbreviation (input) LDCS_MSG_CRASH_RESPONSE :: ldcs_message_ids_t where "LDCS_MSG_CRASH_RESPONSE \<equiv> 65"
abbreviation (input) LDCS_MSG_CLIENT_STATICTLS :: ldcs_message_ids_t where "LDCS_MSG_CLIENT_STATICTLS \<equiv> 66"
abbreviation (input) LDCS_MSG_CLIENT_STATICTLS_RESP :: ldcs_message_ids_t where "LDCS_MSG_CLIENT_STATICTLS_RESP \<equiv> 67"
abbreviation (input) LDCS_MSG_STATICTLS :: ldcs_message_ids_t where "LDCS_MSG_STATICTLS \<equiv> 68"
abbreviation (input) LDCS_MSG_STATICTLS_RESP :: ldcs_message_ids_t where "LDCS_MSG_STATICTLS_RESP \<equiv> 69"
abbreviation (input) LDCS_MSG_CRASH_LOG :: ldcs_message_ids_t where "LDCS_MSG_CRASH_LOG \<equiv> 70"
abbreviation (input) LDCS_MSG_CRASH_EXE :: ldcs_message_ids_t where "LDCS_MSG_CRASH_EXE \<equiv> 71"
abbreviation (input) LDCS_MSG_CRASH_COREPATH :: ldcs_message_ids_t where "LDCS_MSG_CRASH_COREPATH \<equiv> 72"
abbreviation (input) LDCS_MSG_UNKNOWN :: ldcs_message_ids_t where "LDCS_MSG_UNKNOWN \<equiv> 73"

record ldcs_message_header_t =
  msg_type :: ldcs_message_ids_t
  msg_len :: nat

record ldcs_message_t =
  msg_header :: ldcs_message_header_t
  msg_data :: "byte list"

definition mk_msg :: "ldcs_message_ids_t \<Rightarrow> byte list \<Rightarrow> ldcs_message_t" where
  "mk_msg ty bs = \<lparr>msg_header = \<lparr>msg_type = ty, msg_len = length bs\<rparr>, msg_data = bs\<rparr>"

lemma mk_msg_sel [simp]:
  "msg_type (msg_header (mk_msg ty bs)) = ty" "msg_len (msg_header (mk_msg ty bs)) = length bs"
  "msg_data (mk_msg ty bs) = bs"
  by (simp_all add: mk_msg_def)

text \<open>The image of a header in memory: 4 bytes of type, 4 bytes of padding, 8 bytes of length.\<close>

definition put_header :: "ldcs_message_header_t \<Rightarrow> byte list" where
  "put_header h = put_u32 (msg_type h) @ replicate 4 NUL @ put_u64 (msg_len h)"

definition get_header :: "byte list \<Rightarrow> ldcs_message_header_t" where
  "get_header bs = \<lparr>msg_type = get_u32 bs, msg_len = get_u64 (drop 8 bs)\<rparr>"

lemma length_put_header [simp]: "length (put_header h) = 16"
  by (simp add: put_header_def)

lemma get_put_header [codec_simps]:
  "msg_type h < 2 ^ 32 \<Longrightarrow> msg_len h < 2 ^ 64 \<Longrightarrow> get_header (put_header h @ rest) = h"
  by (simp add: get_header_def put_header_def get_put_u32 get_put_u64)

datatype node_peer_t =
    NODE_PEER_NULL
  | NODE_PEER_CLIENT
  | NODE_PEER_ALL
  | BROADCAST
  | PARENT
  | Peer nat

end
