(* ===== verification/Requestors.thy ===== *)
theory Requestors
  imports Spindle_Types
begin

text \<open>
  The table of pending requests (\<open>src/src/server/auditserver/ldcs_audit_server_requestors.c\<close>):
  for every file that has been asked for, the peers that wait for the answer.

  The table is a list of buckets, each bucket the linked list of its entries from the
  head. A \<open>requested_file_t *\<close> is a pair of bucket number and position in the bucket.
  \<open>requestors\<close> holds the initialised part of the array, \<open>requestors_size\<close> the length of
  its allocation.
\<close>

section \<open>The table\<close>

record requested_file_t =
  path :: string
  hash_val :: nat
  requestors_num :: nat
  requestors_size :: nat
  requestors :: "node_peer_t list"

type_synonym requestor_list_t = "requested_file_t list list"

abbreviation (input) INITIAL_PEER_SIZE :: nat where "INITIAL_PEER_SIZE \<equiv> 8"
abbreviation (input) REQUESTORS_TABLE_SIZE :: nat where "REQUESTORS_TABLE_SIZE \<equiv> 1024"

definition new_requestor_list :: requestor_list_t where
  "new_requestor_list = replicate REQUESTORS_TABLE_SIZE []"

text \<open>The hash runs on 32 bits; a byte of the string is sign extended.\<close>

fun hash_loop :: "32 word \<Rightarrow> string \<Rightarrow> 32 word" where
  "hash_loop hash [] = hash"
| "hash_loop hash (ch # str) =
     hash_loop ((push_bit 5 hash + hash) + word_of_int (signed_take_bit 7 (of_char ch))) str"

definition hashval :: "string \<Rightarrow> nat" where
  "hashval str = unat (hash_loop 5381 str) mod REQUESTORS_TABLE_SIZE"

fun find_requested :: "nat \<Rightarrow> string \<Rightarrow> requested_file_t list \<Rightarrow> nat option" where
  "find_requested val file [] = None"
| "find_requested val file (cur # bucket) =
     (if hash_val cur \<noteq> val \<or> path cur \<noteq> file
      then map_option Suc (find_requested val file bucket)
      else Some 0)"

definition get_requestor ::
  "requestor_list_t \<Rightarrow> string \<Rightarrow> bool \<Rightarrow> requestor_list_t \<times> (nat \<times> nat) option"
where
  "get_requestor table file add =
     (let val = hashval file in
      case find_requested val file (table ! val) of
        Some i \<Rightarrow> (table, Some (val, i))
      | None \<Rightarrow>
          if \<not> add then (table, None)
          else (table[val := \<lparr>path = file, hash_val = val, requestors_num = 0,
                              requestors_size = INITIAL_PEER_SIZE, requestors = []\<rparr> # table ! val],
                Some (val, 0)))"

definition deref :: "requestor_list_t \<Rightarrow> nat \<times> nat \<Rightarrow> requested_file_t" where
  "deref table cur = table ! fst cur ! snd cur"

definition been_requested :: "requestor_list_t \<Rightarrow> string \<Rightarrow> bool" where
  "been_requested table file = (snd (get_requestor table file False) \<noteq> None)"

definition push_requestor :: "requested_file_t \<Rightarrow> node_peer_t \<Rightarrow> requested_file_t" where
  "push_requestor cur peer =
     (if peer \<in> set (take (requestors_num cur) (requestors cur)) then cur
      else let cur = (if requestors_num cur = requestors_size cur
                      then cur\<lparr>requestors_size := requestors_size cur * 2\<rparr> else cur)
           in cur\<lparr>requestors := take (requestors_num cur) (requestors cur) @ [peer],
                  requestors_num := requestors_num cur + 1\<rparr>)"

definition add_requestor :: "requestor_list_t \<Rightarrow> string \<Rightarrow> node_peer_t \<Rightarrow> requestor_list_t" where
  "add_requestor table file peer =
     (case get_requestor table file True of
        (table, Some (b, i)) \<Rightarrow> table[b := (table ! b)[i := push_requestor (table ! b ! i) peer]]
      | (table, None) \<Rightarrow> table)"

definition get_requestors :: "requestor_list_t \<Rightarrow> string \<Rightarrow> node_peer_t list option" where
  "get_requestors table file =
     (case snd (get_requestor table file False) of
        None \<Rightarrow> None
      | Some req \<Rightarrow> Some (take (requestors_num (deref table req)) (requestors (deref table req))))"

definition get_requestors2 ::
  "requestor_list_t \<Rightarrow> requestor_list_t \<Rightarrow> string \<Rightarrow> node_peer_t list option"
where
  "get_requestors2 table table2 file =
     (case (get_requestors table file, get_requestors table2 file) of
        (None, None) \<Rightarrow> None
      | (req1, req2) \<Rightarrow>
          let list1 = (case req1 of Some l \<Rightarrow> l | None \<Rightarrow> []);
              list2 = (case req2 of Some l \<Rightarrow> l | None \<Rightarrow> [])
          in Some (list1 @ filter (\<lambda>p. p \<notin> set list1) list2))"

definition clear_requestor :: "requestor_list_t \<Rightarrow> string \<Rightarrow> requestor_list_t" where
  "clear_requestor table file =
     (case snd (get_requestor table file False) of
        None \<Rightarrow> table
      | Some (b, i) \<Rightarrow> table[b := take i (table ! b) @ drop (Suc i) (table ! b)])"

definition peer_requested :: "requestor_list_t \<Rightarrow> string \<Rightarrow> node_peer_t \<Rightarrow> bool" where
  "peer_requested table file peer =
     (case snd (get_requestor table file False) of
        None \<Rightarrow> False
      | Some req \<Rightarrow> peer \<in> set (take (requestors_num (deref table req)) (requestors (deref table req))))"

section \<open>Well-formed tables\<close>

definition entry_ok :: "nat \<Rightarrow> requested_file_t \<Rightarrow> bool" where
  "entry_ok b e \<longleftrightarrow> hash_val e = b \<and> hashval (path e) = b \<and> requestors_num e \<le> requestors_size e \<and>
     length (requestors e) = requestors_num e \<and> INITIAL_PEER_SIZE \<le> requestors_size e \<and>
     distinct (requestors e)"

definition table_ok :: "requestor_list_t \<Rightarrow> bool" where
  "table_ok table \<longleftrightarrow> length table = REQUESTORS_TABLE_SIZE \<and>
     (\<forall>b < REQUESTORS_TABLE_SIZE.
        (\<forall>e \<in> set (table ! b). entry_ok b e) \<and> distinct (map path (table ! b)))"

section \<open>Buckets\<close>

lemma hashval_less [simp]: "hashval str < REQUESTORS_TABLE_SIZE"
  by (simp add: hashval_def)

lemma find_requested_None:
  "\<forall>e \<in> set bucket. hash_val e = val \<Longrightarrow>
     find_requested val file bucket = None \<longleftrightarrow> file \<notin> path ` set bucket"
  by (induction bucket) auto

lemma find_requested_Some:
  "find_requested val file bucket = Some i \<Longrightarrow>
     i < length bucket \<and> path (bucket ! i) = file \<and> hash_val (bucket ! i) = val"
  by (induction bucket arbitrary: i) (auto split: if_splits)

lemma find_requested_unique:
  assumes "i < length bucket" and "path (bucket ! i) = file" and "\<forall>e \<in> set bucket. hash_val e = val"
    and "distinct (map path bucket)"
  shows "find_requested val file bucket = Some i"
proof (cases "find_requested val file bucket")
  case None
  with assms show ?thesis by (auto simp: find_requested_None)
next
  case (Some j)
  from find_requested_Some [OF this] assms have "j = i"
    by (metis length_map nth_eq_iff_index_eq nth_map)
  with Some show ?thesis by simp
qed

text \<open>What the table says about a file, as a lookup in the bucket seen as a map.\<close>

definition bucket_map :: "requested_file_t list \<Rightarrow> string \<rightharpoonup> node_peer_t list" where
  "bucket_map bucket = map_of (map (\<lambda>e. (path e, requestors e)) bucket)"

lemma bucket_map_find:
  assumes "\<forall>e \<in> set bucket. hash_val e = val" and "distinct (map path bucket)"
  shows "bucket_map bucket file =
    (case find_requested val file bucket of None \<Rightarrow> None | Some i \<Rightarrow> Some (requestors (bucket ! i)))"
  using assms
proof (induction bucket)
  case Nil
  then show ?case by (simp add: bucket_map_def)
next
  case (Cons e bucket)
  then show ?case
    by (auto simp: bucket_map_def split: option.splits)
qed


lemma bucket_map_update:
  assumes "distinct (map path bucket)" and "i < length bucket" and "path e = path (bucket ! i)"
  shows "bucket_map (bucket[i := e]) = (bucket_map bucket)(path e \<mapsto> requestors e)"
  using assms
proof (induction bucket arbitrary: i)
  case Nil
  then show ?case by simp
next
  case (Cons x bucket)
  show ?case
  proof (cases i)
    case 0
    with Cons.prems show ?thesis by (auto simp: bucket_map_def)
  next
    case (Suc j)
    with Cons have "path e \<noteq> path x" by (metis distinct.simps(2) image_eqI length_Cons list.map(2) nth_Cons_Suc nth_mem not_less_eq list.set_map)
    with Suc Cons show ?thesis by (auto simp: bucket_map_def fun_upd_twist)
  qed
qed

lemma bucket_map_remove:
  assumes "distinct (map path bucket)" and "i < length bucket"
  shows "bucket_map (take i bucket @ drop (Suc i) bucket) = (bucket_map bucket)(path (bucket ! i) := None)"
  using assms
proof (induction bucket arbitrary: i)
  case Nil
  then show ?case by simp
next
  case (Cons x bucket)
  show ?case
  proof (cases i)
    case 0
    with Cons.prems show ?thesis
      by (auto simp: bucket_map_def fun_eq_iff map_of_eq_None_iff)
  next
    case (Suc j)
    with Cons have "path (bucket ! j) \<noteq> path x" by (metis distinct.simps(2) length_Cons list.simps(9) nth_mem not_less_eq image_eqI set_map)
    with Suc Cons show ?thesis by (auto simp: bucket_map_def fun_upd_twist)
  qed
qed

section \<open>The table as a map\<close>

lemma table_bucket:
  assumes "table_ok t"
  shows "\<forall>e \<in> set (t ! hashval f). hash_val e = hashval f" and "distinct (map path (t ! hashval f))"
    and "\<forall>e \<in> set (t ! hashval f). entry_ok (hashval f) e" and "hashval f < length t"
proof -
  have "(\<forall>e \<in> set (t ! hashval f). entry_ok (hashval f) e) \<and> distinct (map path (t ! hashval f))"
    using assms hashval_less unfolding table_ok_def by blast
  then show "\<forall>e \<in> set (t ! hashval f). hash_val e = hashval f" "distinct (map path (t ! hashval f))"
    "\<forall>e \<in> set (t ! hashval f). entry_ok (hashval f) e" by (auto simp: entry_ok_def)
  show "hashval f < length t" using assms by (simp add: table_ok_def)
qed

lemma get_requestors_map:
  assumes "table_ok t"
  shows "get_requestors t f = bucket_map (t ! hashval f) f"
  unfolding bucket_map_find [OF table_bucket(1,2) [OF assms]]
  using table_bucket(3) [OF assms, of f] find_requested_Some [of "hashval f" f "t ! hashval f"]
  by (auto simp: get_requestors_def get_requestor_def Let_def deref_def entry_ok_def
      split: option.splits)

lemma been_requested_iff: "been_requested t f \<longleftrightarrow> get_requestors t f \<noteq> None"
  by (simp add: been_requested_def get_requestors_def split: option.splits)

lemma peer_requested_iff:
  "peer_requested t f p \<longleftrightarrow> (case get_requestors t f of None \<Rightarrow> False | Some ps \<Rightarrow> p \<in> set ps)"
  by (simp add: peer_requested_def get_requestors_def split: option.splits)

lemma table_ok_update:
  assumes "table_ok t" and "b < REQUESTORS_TABLE_SIZE" and "\<forall>e \<in> set bucket. entry_ok b e"
    and "distinct (map path bucket)"
  shows "table_ok (t[b := bucket])"
  using assms by (auto simp: table_ok_def nth_list_update)

lemma get_requestors_update:
  assumes "table_ok t" and "table_ok (t[b := bucket])" and "b < REQUESTORS_TABLE_SIZE"
    and "bucket_map bucket = (bucket_map (t ! b))(f := v)" and "hashval f = b"
  shows "get_requestors (t[b := bucket]) g = (if g = f then v else get_requestors t g)"
proof (cases "hashval g = b")
  case True
  with assms show ?thesis by (simp add: get_requestors_map table_ok_def)
next
  case False
  with assms show ?thesis by (auto simp: get_requestors_map)
qed

definition add_peer :: "node_peer_t list option \<Rightarrow> node_peer_t \<Rightarrow> node_peer_t list" where
  "add_peer ps p = (case ps of None \<Rightarrow> [p] | Some l \<Rightarrow> if p \<in> set l then l else l @ [p])"

lemma push_requestor_ok:
  "entry_ok b e \<Longrightarrow> entry_ok b (push_requestor e p) \<and> path (push_requestor e p) = path e \<and>
     requestors (push_requestor e p) = add_peer (Some (requestors e)) p"
  by (auto simp: entry_ok_def push_requestor_def add_peer_def Let_def)

lemma new_requestor_list_ok: "table_ok new_requestor_list"
  by (simp add: table_ok_def new_requestor_list_def)

lemma get_requestors_new: "get_requestors new_requestor_list f = None"
  by (simp add: get_requestors_map new_requestor_list_ok) (simp add: new_requestor_list_def bucket_map_def)

lemma add_requestor_laws:
  assumes "table_ok t"
  shows "table_ok (add_requestor t f p) \<and>
    get_requestors (add_requestor t f p) g =
      (if g = f then Some (add_peer (get_requestors t f) p) else get_requestors t g)"
proof -
  let ?b = "hashval f"
  note B = table_bucket [OF assms, of f]
  show ?thesis
  proof (cases "find_requested ?b f (t ! ?b)")
    case None
    let ?new = "\<lparr>path = f, hash_val = ?b, requestors_num = 0, requestors_size = INITIAL_PEER_SIZE,
                 requestors = []\<rparr>"
    have new: "entry_ok ?b (push_requestor ?new p)" "path (push_requestor ?new p) = f"
      "requestors (push_requestor ?new p) = [p]"
      by (simp_all add: entry_ok_def push_requestor_def Let_def)
    have f: "f \<notin> path ` set (t ! ?b)" using None B(1) by (simp add: find_requested_None)
    have eq: "add_requestor t f p = t[?b := push_requestor ?new p # t ! ?b]"
      using None B(4) by (simp add: add_requestor_def get_requestor_def Let_def)
    have ok: "table_ok (add_requestor t f p)"
      unfolding eq using assms B new f by (intro table_ok_update) auto
    moreover have "bucket_map (push_requestor ?new p # t ! ?b) = (bucket_map (t ! ?b))(f := Some [p])"
      using new by (simp add: bucket_map_def)
    moreover have "get_requestors t f = None"
      using None B by (simp add: get_requestors_map [OF assms] bucket_map_find [OF B(1,2)])
    ultimately show ?thesis
      using get_requestors_update [OF assms, of ?b] eq by (simp add: add_peer_def)
  next
    case (Some i)
    from find_requested_Some [OF Some] have i: "i < length (t ! ?b)" "path (t ! ?b ! i) = f" by auto
    let ?e = "push_requestor (t ! ?b ! i) p"
    have e: "entry_ok ?b ?e" "path ?e = f" "requestors ?e = add_peer (Some (requestors (t ! ?b ! i))) p"
      using push_requestor_ok [of ?b "t ! ?b ! i" p] B(3) i by auto
    have eq: "add_requestor t f p = t[?b := (t ! ?b)[i := ?e]]"
      using Some by (simp add: add_requestor_def get_requestor_def Let_def)
    have "map path ((t ! ?b)[i := ?e]) = map path (t ! ?b)"
      using i e by (metis list_update_id map_update)
    then have ok: "table_ok (add_requestor t f p)"
      unfolding eq using assms B e
      by (intro table_ok_update) (auto dest!: subsetD [OF set_update_subset_insert])
    moreover have "bucket_map ((t ! ?b)[i := ?e]) = (bucket_map (t ! ?b))(f := Some (requestors ?e))"
      using bucket_map_update [OF B(2) i(1), of ?e] e i by simp
    moreover have "get_requestors t f = Some (requestors (t ! ?b ! i))"
      using Some B by (simp add: get_requestors_map [OF assms] bucket_map_find [OF B(1,2)])
    ultimately show ?thesis
      using get_requestors_update [OF assms, of ?b] eq e(3) by simp
  qed
qed

lemma clear_requestor_laws:
  assumes "table_ok t"
  shows "table_ok (clear_requestor t f) \<and>
    get_requestors (clear_requestor t f) g = (if g = f then None else get_requestors t g)"
proof -
  let ?b = "hashval f"
  note B = table_bucket [OF assms, of f]
  show ?thesis
  proof (cases "find_requested ?b f (t ! ?b)")
    case None
    then have "get_requestors t f = None"
      using B by (simp add: get_requestors_map [OF assms] bucket_map_find [OF B(1,2)])
    with None assms show ?thesis by (simp add: clear_requestor_def get_requestor_def Let_def)
  next
    case (Some i)
    from find_requested_Some [OF Some] have i: "i < length (t ! ?b)" "path (t ! ?b ! i) = f" by auto
    let ?B = "take i (t ! ?b) @ drop (Suc i) (t ! ?b)"
    have eq: "clear_requestor t f = t[?b := ?B]"
      using Some by (simp add: clear_requestor_def get_requestor_def Let_def)
    have "map path (t ! ?b) = map path (take i (t ! ?b)) @ f # map path (drop (Suc i) (t ! ?b))"
      using i by (metis id_take_nth_drop list.simps(9) map_append)
    then have "distinct (map path ?B)" using B(2) by simp
    then have "table_ok (clear_requestor t f)"
      unfolding eq using assms B by (intro table_ok_update) (auto dest: in_set_takeD in_set_dropD)
    moreover have "bucket_map ?B = (bucket_map (t ! ?b))(f := None)"
      using bucket_map_remove [OF B(2) i(1)] i(2) by simp
    ultimately show ?thesis using get_requestors_update [OF assms, of ?b] eq by simp
  qed
qed


section \<open>The interface the handlers rely on\<close>

locale requestor_table =
  fixes new :: 't
    and lookup :: "'t \<Rightarrow> string \<Rightarrow> node_peer_t list option"
    and add :: "'t \<Rightarrow> string \<Rightarrow> node_peer_t \<Rightarrow> 't"
    and clear :: "'t \<Rightarrow> string \<Rightarrow> 't"
    and ok :: "'t \<Rightarrow> bool"
  assumes ok_new: "ok new" and lookup_new: "lookup new f = None"
    and ok_add: "ok t \<Longrightarrow> ok (add t f p)"
    and lookup_add: "ok t \<Longrightarrow> lookup (add t f p) g =
          (if g = f then Some (add_peer (lookup t f) p) else lookup t g)"
    and ok_clear: "ok t \<Longrightarrow> ok (clear t f)"
    and lookup_clear: "ok t \<Longrightarrow> lookup (clear t f) g = (if g = f then None else lookup t g)"
begin

lemma ok_add_all: "ok t \<Longrightarrow> ok (foldl (\<lambda>t (f, p). add t f p) t reqs)"
  by (induction reqs arbitrary: t) (auto simp: ok_add)

lemma lookup_add_same: "ok t \<Longrightarrow> \<exists>ps. lookup (add t f p) f = Some ps \<and> p \<in> set ps"
  by (auto simp: lookup_add add_peer_def split: option.splits)

lemma lookup_add_mono:
  "ok t \<Longrightarrow> lookup t g = Some ps \<Longrightarrow> \<exists>qs. lookup (add t f p) g = Some qs \<and> set ps \<subseteq> set qs"
  by (auto simp: lookup_add add_peer_def split: option.splits)

lemma clear_add: "ok t \<Longrightarrow> lookup (clear (add t f p) f) = (lookup t)(f := None)"
  by (rule ext) (simp add: lookup_clear lookup_add ok_add)

end

interpretation reqs: requestor_table new_requestor_list get_requestors add_requestor clear_requestor table_ok
  by unfold_locales
    (simp_all add: new_requestor_list_ok get_requestors_new add_requestor_laws clear_requestor_laws)

section \<open>Refinement of a map\<close>

datatype req_op = Add_requestor string node_peer_t | Clear_requestor string

fun req_step :: "requestor_list_t \<Rightarrow> req_op \<Rightarrow> requestor_list_t" where
  "req_step t (Add_requestor f p) = add_requestor t f p"
| "req_step t (Clear_requestor f) = clear_requestor t f"

fun req_spec :: "(string \<rightharpoonup> node_peer_t list) \<Rightarrow> req_op \<Rightarrow> (string \<rightharpoonup> node_peer_t list)" where
  "req_spec m (Add_requestor f p) = m(f \<mapsto> add_peer (m f) p)"
| "req_spec m (Clear_requestor f) = m(f := None)"

lemma req_step_refines:
  "table_ok t \<Longrightarrow> table_ok (req_step t op) \<and> get_requestors (req_step t op) = req_spec (get_requestors t) op"
  by (cases op) (auto simp: reqs.ok_add reqs.ok_clear reqs.lookup_add reqs.lookup_clear fun_eq_iff)

lemma req_run_refines:
  "table_ok t \<Longrightarrow> table_ok (foldl req_step t ops) \<and>
     get_requestors (foldl req_step t ops) = foldl req_spec (get_requestors t) ops"
proof (induction ops arbitrary: t)
  case Nil
  then show ?case by simp
next
  case (Cons op ops)
  with req_step_refines [OF Cons.prems, of op] show ?case by simp
qed

text \<open>C11. After any sequence of additions and removals the hash table of requests answers
  like a map from files to lists of peers: an addition appends a peer once, a removal
  forgets the file, whatever files share a bucket. In every reachable table each entry
  is in the bucket of its hash, holds no peer twice and fits its allocation.\<close>

theorem requestors_refine_map:
  "get_requestors (foldl req_step new_requestor_list ops) f = foldl req_spec (\<lambda>_. None) ops f \<and>
   table_ok (foldl req_step new_requestor_list ops)"
proof -
  have "get_requestors new_requestor_list = (\<lambda>_. None)" by (simp add: fun_eq_iff reqs.lookup_new)
  then show ?thesis using req_run_refines [OF reqs.ok_new, of ops] by simp
qed



end
