(* ===== verification/Msgbundle.thy ===== *)
theory Msgbundle
  imports Spindle_Types
begin

text \<open>
  Message bundling (\<open>src/src/server/auditserver/msgbundle.c\<close>): small messages to the same
  destination are collected in a buffer and sent as one \<open>LDCS_MSG_BUNDLE\<close>; the receiving
  server takes the bundle apart again (\<open>handle_msgbundle\<close>).

  The calls into the network layer append to \<open>wire\<close>, with the destination they were
  given: \<open>BROADCAST\<close> for all children, \<open>PARENT\<close> for the parent. A write past the end of a
  buffer is \<open>None\<close>. The second half of the theory is the thread that triggers a flush when
  a buffer has been waiting.
\<close>

section \<open>Buffers\<close>

record msgbundle_entry_t =
  mb_node :: node_peer_t
  mb_cache :: "byte list"
  mb_position :: nat

record bundle_t =
  opt_msgbundle :: bool
  msgbundle_cache_size_kb :: nat
  md_num_children :: nat
  msgbundle_entries :: "msgbundle_entry_t list"
  active_timeout :: bool
  wire :: "(node_peer_t \<times> ldcs_message_t) list"

definition md_send :: "bundle_t \<Rightarrow> ldcs_message_t \<Rightarrow> node_peer_t \<Rightarrow> bundle_t" where
  "md_send st msg node = st\<lparr>wire := wire st @ [(node, msg)]\<rparr>"

fun find_bundle :: "node_peer_t \<Rightarrow> msgbundle_entry_t list \<Rightarrow> nat option" where
  "find_bundle node [] = None"
| "find_bundle node (mb # mbs) =
     (if mb_node mb \<noteq> node then map_option Suc (find_bundle node mbs) else Some 0)"

definition flush_msgbuffer :: "bundle_t \<Rightarrow> nat \<Rightarrow> bundle_t" where
  "flush_msgbuffer st i =
     (let mb = msgbundle_entries st ! i in
      if mb_position mb = 0 then st
      else let st = md_send st (mk_msg LDCS_MSG_BUNDLE (take (mb_position mb) (mb_cache mb))) (mb_node mb)
           in st\<lparr>msgbundle_entries := (msgbundle_entries st)[i := mb\<lparr>mb_position := 0\<rparr>]\<rparr>)"

definition flush_msgbuffer_cb :: "bundle_t \<Rightarrow> bundle_t" where
  "flush_msgbuffer_cb st = foldl flush_msgbuffer st [0..<length (msgbundle_entries st)]"

definition msgbundle_force_flush :: "bundle_t \<Rightarrow> bundle_t" where
  "msgbundle_force_flush st = (if \<not> opt_msgbundle st then st else flush_msgbuffer_cb st)"

definition start_cache_timeout :: "bundle_t \<Rightarrow> bundle_t" where
  "start_cache_timeout st = (if \<not> active_timeout st then st\<lparr>active_timeout := True\<rparr> else st)"

definition cache_message ::
  "msgbundle_entry_t \<Rightarrow> ldcs_message_t \<Rightarrow> byte list \<Rightarrow> msgbundle_entry_t option"
where
  "cache_message mb msg secondary =
     (let plen = msg_len (msg_header msg) - length secondary; pos = mb_position mb in do {
        cache \<leftarrow> buf_put (mb_cache mb) pos (put_header (msg_header msg));
        cache \<leftarrow> buf_put cache (pos + 16) (take plen (msg_data msg));
        cache \<leftarrow> (if secondary \<noteq> [] then buf_put cache (pos + 16 + plen) secondary else Some cache);
        Some (mb\<lparr>mb_cache := cache, mb_position := pos + 16 + plen + length secondary\<rparr>)
      })"

datatype send_result = PASSTHROUGH | Done

definition spindle_send_worker ::
  "bundle_t \<Rightarrow> ldcs_message_t \<Rightarrow> node_peer_t \<Rightarrow> byte list \<Rightarrow> (send_result \<times> bundle_t) option"
where
  "spindle_send_worker st msg node secondary =
     (let len = msg_len (msg_header msg); cap = msgbundle_cache_size_kb st * 1024 in
      if \<not> opt_msgbundle st then Some (PASSTHROUGH, st)
      else if md_num_children st = 0 \<and> node = BROADCAST then Some (Done, st)
      else
        let found = find_bundle node (msgbundle_entries st) in
        if 16 * 2 + len \<ge> cap then
          Some (PASSTHROUGH, case found of Some i \<Rightarrow> flush_msgbuffer st i | None \<Rightarrow> st)
        else
          let (st, i) = (case found of
                 Some i \<Rightarrow> (st, i)
               | None \<Rightarrow> (st\<lparr>msgbundle_entries :=
                              \<lparr>mb_node = node, mb_cache = replicate cap NUL, mb_position = 0\<rparr>
                                # msgbundle_entries st\<rparr>, 0));
              st = (if 16 + len + mb_position (msgbundle_entries st ! i) \<ge> cap
                    then flush_msgbuffer st i else st)
          in do {
            mb \<leftarrow> cache_message (msgbundle_entries st ! i) msg secondary;
            Some (Done, start_cache_timeout
                     (st\<lparr>msgbundle_entries := (msgbundle_entries st)[i := mb]\<rparr>))
          })"

definition spindle_send_noncontig ::
  "bundle_t \<Rightarrow> ldcs_message_t \<Rightarrow> node_peer_t \<Rightarrow> byte list \<Rightarrow> bundle_t option"
where
  "spindle_send_noncontig st msg node secondary = do {
     (result, st) \<leftarrow> spindle_send_worker st msg node secondary;
     Some (if result = PASSTHROUGH
           then md_send st (msg\<lparr>msg_data := take (msg_len (msg_header msg) - length secondary) (msg_data msg) @ secondary\<rparr>) node
           else st)
   }"

definition spindle_send :: "bundle_t \<Rightarrow> ldcs_message_t \<Rightarrow> node_peer_t \<Rightarrow> bundle_t option" where
  "spindle_send st msg node = do {
     (result, st) \<leftarrow> spindle_send_worker st msg node [];
     Some (if result = PASSTHROUGH then md_send st msg node else st)
   }"

definition spindle_broadcast_noncontig ::
  "bundle_t \<Rightarrow> ldcs_message_t \<Rightarrow> byte list \<Rightarrow> bundle_t option"
where
  "spindle_broadcast_noncontig st msg secondary = spindle_send_noncontig st msg BROADCAST secondary"

definition spindle_broadcast :: "bundle_t \<Rightarrow> ldcs_message_t \<Rightarrow> bundle_t option" where
  "spindle_broadcast st msg = spindle_send st msg BROADCAST"

definition spindle_forward_query :: "bundle_t \<Rightarrow> ldcs_message_t \<Rightarrow> bundle_t option" where
  "spindle_forward_query st msg = spindle_send st msg PARENT"

text \<open>The receiving side: the messages that \<open>handle_msgbundle\<close> passes on, in order.\<close>

function unpack_bundle :: "byte list \<Rightarrow> ldcs_message_t list" where
  "unpack_bundle buf =
     (if buf = [] then []
      else let h = get_header buf; rest = drop 16 buf in
           \<lparr>msg_header = h, msg_data = take (msg_len h) rest\<rparr> # unpack_bundle (drop (msg_len h) rest))"
  by pat_completeness auto
termination
  by (relation "measure length") auto

declare unpack_bundle.simps [simp del]


section \<open>What a destination has been sent\<close>

definition msg_ok :: "ldcs_message_t \<Rightarrow> bool" where
  "msg_ok m \<longleftrightarrow> msg_type (msg_header m) < 2 ^ 32 \<and> msg_type (msg_header m) \<noteq> LDCS_MSG_BUNDLE \<and>
     msg_len (msg_header m) < 2 ^ 64 \<and> length (msg_data m) = msg_len (msg_header m)"

definition pack :: "ldcs_message_t \<Rightarrow> byte list" where
  "pack m = put_header (msg_header m) @ msg_data m"

definition packed :: "ldcs_message_t list \<Rightarrow> byte list" where
  "packed ms = concat (map pack ms)"

lemma unpack_packed: "\<forall>m \<in> set ms. msg_ok m \<Longrightarrow> unpack_bundle (packed ms) = ms"
proof (induction ms)
  case Nil
  then show ?case by (simp add: packed_def unpack_bundle.simps)
next
  case (Cons m ms)
  then have "msg_ok m" by simp
  then have "get_header (packed (m # ms)) = msg_header m"
    and "drop 16 (packed (m # ms)) = msg_data m @ packed ms"
    and "length (msg_data m) = msg_len (msg_header m)"
    by (simp_all add: packed_def pack_def msg_ok_def get_put_header)
  moreover have "packed (m # ms) \<noteq> []" by (simp add: packed_def pack_def put_header_def)
  ultimately show ?case
    using Cons by (subst unpack_bundle.simps) (simp add: Let_def)
qed

definition arrived :: "ldcs_message_t \<Rightarrow> ldcs_message_t list" where
  "arrived m = (if msg_type (msg_header m) = LDCS_MSG_BUNDLE then unpack_bundle (msg_data m) else [m])"

definition delivered :: "bundle_t \<Rightarrow> node_peer_t \<Rightarrow> ldcs_message_t list" where
  "delivered st d = concat (map (\<lambda>(n, m). if n = d then arrived m else []) (wire st))"

definition pending :: "bundle_t \<Rightarrow> node_peer_t \<Rightarrow> ldcs_message_t list" where
  "pending st d = (case find_bundle d (msgbundle_entries st) of
       None \<Rightarrow> []
     | Some i \<Rightarrow> let mb = msgbundle_entries st ! i in unpack_bundle (take (mb_position mb) (mb_cache mb)))"

definition sent_stream :: "bundle_t \<Rightarrow> node_peer_t \<Rightarrow> ldcs_message_t list" where
  "sent_stream st d = delivered st d @ pending st d"

text \<open>A buffer holds whole messages and is never full.\<close>

definition entry_inv :: "nat \<Rightarrow> msgbundle_entry_t \<Rightarrow> bool" where
  "entry_inv cap mb \<longleftrightarrow> length (mb_cache mb) = cap \<and> mb_position mb < cap \<and>
     (\<exists>ms. (\<forall>m \<in> set ms. msg_ok m) \<and> take (mb_position mb) (mb_cache mb) = packed ms)"

definition bundle_inv :: "bundle_t \<Rightarrow> bool" where
  "bundle_inv st \<longleftrightarrow> 0 < msgbundle_cache_size_kb st \<and>
     (\<forall>mb \<in> set (msgbundle_entries st). entry_inv (msgbundle_cache_size_kb st * 1024) mb) \<and>
     distinct (map mb_node (msgbundle_entries st)) \<and>
     (\<not> opt_msgbundle st \<longrightarrow> msgbundle_entries st = [])"

lemma find_bundle_Some:
  "find_bundle d mbs = Some i \<Longrightarrow> i < length mbs \<and> mb_node (mbs ! i) = d"
  by (induction mbs arbitrary: i) (auto split: if_splits)

lemma find_bundle_None: "find_bundle d mbs = None \<longleftrightarrow> d \<notin> mb_node ` set mbs"
  by (induction mbs) auto

lemma find_bundle_nth:
  "distinct (map mb_node mbs) \<Longrightarrow> i < length mbs \<Longrightarrow> find_bundle (mb_node (mbs ! i)) mbs = Some i"
proof (induction mbs arbitrary: i)
  case Nil
  then show ?case by simp
next
  case (Cons mb mbs)
  then show ?case by (cases i) (auto simp: image_iff)
qed

lemma find_bundle_update:
  "i < length mbs \<Longrightarrow> mb_node mb = mb_node (mbs ! i) \<Longrightarrow> find_bundle d (mbs[i := mb]) = find_bundle d mbs"
proof (induction mbs arbitrary: i)
  case Nil
  then show ?case by simp
next
  case (Cons x mbs)
  then show ?case by (cases i) auto
qed

lemma pending_cong:
  assumes "msgbundle_entries a = msgbundle_entries b"
  shows "pending a d = pending b d"
  unfolding pending_def assms by (rule refl)

lemma pending_update:
  assumes "bundle_inv st" and "i < length (msgbundle_entries st)"
    and "mb_node mb = mb_node (msgbundle_entries st ! i)"
  shows "pending (st\<lparr>msgbundle_entries := (msgbundle_entries st)[i := mb]\<rparr>) d =
    (if d = mb_node mb then unpack_bundle (take (mb_position mb) (mb_cache mb)) else pending st d)"
proof (cases "find_bundle d (msgbundle_entries st)")
  case None
  with assms have "d \<noteq> mb_node mb" by (auto simp: find_bundle_None)
  with None assms show ?thesis by (simp add: pending_def find_bundle_update)
next
  case (Some j)
  have at_i: "find_bundle (mb_node (msgbundle_entries st ! i)) (msgbundle_entries st) = Some i"
    using assms(1,2) by (intro find_bundle_nth) (simp_all add: bundle_inv_def)
  show ?thesis
  proof (cases "d = mb_node mb")
    case True
    with at_i assms show ?thesis by (simp add: pending_def find_bundle_update)
  next
    case False
    with Some assms(3) find_bundle_Some [OF Some] have "j \<noteq> i" by auto
    with Some False assms show ?thesis by (simp add: pending_def find_bundle_update)
  qed
qed

lemma bundle_inv_update:
  assumes "bundle_inv st" and "i < length (msgbundle_entries st)"
    and "mb_node mb = mb_node (msgbundle_entries st ! i)"
    and "entry_inv (msgbundle_cache_size_kb st * 1024) mb"
  shows "bundle_inv (st\<lparr>msgbundle_entries := (msgbundle_entries st)[i := mb]\<rparr>)"
proof -
  have "map mb_node ((msgbundle_entries st)[i := mb]) = map mb_node (msgbundle_entries st)"
    using assms(2,3) by (metis list_update_id map_update)
  with assms show ?thesis
    by (auto simp: bundle_inv_def dest!: subsetD [OF set_update_subset_insert])
qed

lemma flush_msgbuffer_laws:
  assumes "bundle_inv st" and "i < length (msgbundle_entries st)"
  shows "bundle_inv (flush_msgbuffer st i)"
    and "sent_stream (flush_msgbuffer st i) d = sent_stream st d"
    and "mb_position (msgbundle_entries (flush_msgbuffer st i) ! i) = 0"
    and "map mb_node (msgbundle_entries (flush_msgbuffer st i)) = map mb_node (msgbundle_entries st)"
    and "msgbundle_cache_size_kb (flush_msgbuffer st i) = msgbundle_cache_size_kb st"
    and "opt_msgbundle (flush_msgbuffer st i) = opt_msgbundle st"
    and "md_num_children (flush_msgbuffer st i) = md_num_children st"
proof -
  let ?mb = "msgbundle_entries st ! i"
  let ?cleared = "?mb\<lparr>mb_position := 0\<rparr>"
  define st1 where "st1 = md_send st (mk_msg LDCS_MSG_BUNDLE (take (mb_position ?mb) (mb_cache ?mb))) (mb_node ?mb)"
  have fl: "flush_msgbuffer st i = (if mb_position ?mb = 0 then st
      else st1\<lparr>msgbundle_entries := (msgbundle_entries st1)[i := ?cleared]\<rparr>)"
    by (simp add: flush_msgbuffer_def Let_def st1_def md_send_def)
  have st1: "bundle_inv st1" "msgbundle_entries st1 = msgbundle_entries st"
    using assms(1) by (simp_all add: st1_def md_send_def bundle_inv_def)
  have "entry_inv (msgbundle_cache_size_kb st * 1024) ?mb" using assms by (simp add: bundle_inv_def)
  then have mb0: "entry_inv (msgbundle_cache_size_kb st1 * 1024) ?cleared"
    using assms(1) by (auto simp: entry_inv_def st1_def md_send_def packed_def intro!: exI [of _ "[]"])
  show "bundle_inv (flush_msgbuffer st i)"
    using assms st1 mb0 bundle_inv_update [of st1 i ?cleared] by (simp add: fl)
  have "pending st (mb_node ?mb) = unpack_bundle (take (mb_position ?mb) (mb_cache ?mb))"
    using assms by (simp add: pending_def bundle_inv_def find_bundle_nth Let_def)
  moreover have "pending (st1\<lparr>msgbundle_entries := (msgbundle_entries st1)[i := ?cleared]\<rparr>) d =
      (if d = mb_node ?mb then [] else pending st d)" for d
    using pending_update [of st1 i ?cleared d] st1 assms pending_cong [OF st1(2), of d]
    by (simp add: unpack_bundle.simps [of "[]"])
  ultimately show "sent_stream (flush_msgbuffer st i) d = sent_stream st d"
    by (auto simp: fl sent_stream_def delivered_def st1_def md_send_def arrived_def)
  show "map mb_node (msgbundle_entries (flush_msgbuffer st i)) = map mb_node (msgbundle_entries st)"
    using assms(2) st1 by (simp add: fl map_update) (metis list_update_id map_update nth_map length_map)
  show "mb_position (msgbundle_entries (flush_msgbuffer st i) ! i) = 0"
    using assms(2) st1 by (simp add: fl)
qed (simp_all add: flush_msgbuffer_def Let_def md_send_def)


section \<open>One send\<close>

definition full_msg :: "ldcs_message_t \<Rightarrow> byte list \<Rightarrow> ldcs_message_t" where
  "full_msg msg secondary =
     msg\<lparr>msg_data := take (msg_len (msg_header msg) - length secondary) (msg_data msg) @ secondary\<rparr>"

lemma cache_message_appends:
  assumes "entry_inv cap mb" and "msg_ok (full_msg msg secondary)"
    and "mb_position mb + 16 + msg_len (msg_header msg) < cap"
    and "length secondary \<le> msg_len (msg_header msg)"
  shows "\<exists>mb'. cache_message mb msg secondary = Some mb' \<and> entry_inv cap mb' \<and> mb_node mb' = mb_node mb \<and>
    unpack_bundle (take (mb_position mb') (mb_cache mb')) =
      unpack_bundle (take (mb_position mb) (mb_cache mb)) @ [full_msg msg secondary]"
proof -
  let ?len = "msg_len (msg_header msg)" and ?pos = "mb_position mb"
  let ?plen = "?len - length secondary"
  let ?pre = "take ?pos (mb_cache mb)"
  from assms(1) obtain ms where ms: "\<forall>m \<in> set ms. msg_ok m" "?pre = packed ms"
    and c: "length (mb_cache mb) = cap" "?pos < cap" by (auto simp: entry_inv_def)
  have "length (take ?plen (msg_data msg)) + length secondary = ?len"
    using assms(2) by (simp add: msg_ok_def full_msg_def)
  then have dl: "length (take ?plen (msg_data msg)) = ?plen" by linarith
  define rest where "rest = drop (?pos + 16 + ?len) (mb_cache mb)"
  define cache where "cache = ?pre @ put_header (msg_header msg) @ take ?plen (msg_data msg) @ secondary @ rest"
  have put: "cache_message mb msg secondary =
      Some (mb\<lparr>mb_cache := cache, mb_position := ?pos + 16 + ?plen + length secondary\<rparr>)"
    using assms(3,4) c dl
    by (cases "secondary = []")
      (auto simp: cache_message_def Let_def buf_put_def cache_def rest_def ac_simps min_def)
  define body where "body = ?pre @ put_header (msg_header msg) @ take ?plen (msg_data msg) @ secondary"
  have "length body = ?pos + 16 + ?plen + length secondary"
    using c dl by (simp add: body_def)
  then have "take (?pos + 16 + ?plen + length secondary) cache = body"
    by (simp add: cache_def body_def)
  also have "body = packed (ms @ [full_msg msg secondary])"
    unfolding body_def ms(2) by (simp add: packed_def pack_def full_msg_def)
  finally have tk: "take (?pos + 16 + ?plen + length secondary) cache = packed (ms @ [full_msg msg secondary])" .
  have "entry_inv cap (mb\<lparr>mb_cache := cache, mb_position := ?pos + 16 + ?plen + length secondary\<rparr>)"
    using tk ms(1) assms(2,3,4) c dl
    by (auto simp: entry_inv_def cache_def rest_def intro!: exI [of _ "ms @ [full_msg msg secondary]"])
  moreover have "unpack_bundle (packed (ms @ [full_msg msg secondary])) = ms @ [full_msg msg secondary]"
    using ms(1) assms(2) by (intro unpack_packed) auto
  ultimately show ?thesis using put tk ms unpack_packed [OF ms(1)] by auto
qed

lemma new_entry_laws:
  assumes "bundle_inv st" and "opt_msgbundle st" and "find_bundle node (msgbundle_entries st) = None"
  defines "st' \<equiv> st\<lparr>msgbundle_entries := \<lparr>mb_node = node, mb_cache = replicate (msgbundle_cache_size_kb st * 1024) NUL,
     mb_position = 0\<rparr> # msgbundle_entries st\<rparr>"
  shows "bundle_inv st'" and "sent_stream st' d = sent_stream st d"
proof -
  show "bundle_inv st'"
    using assms(1-3) by (auto simp: bundle_inv_def st'_def entry_inv_def find_bundle_None packed_def intro!: exI [of _ "[]"])
  have "pending st' d = pending st d"
    using assms(3) by (auto simp: st'_def pending_def Let_def unpack_bundle.simps [of "[]"] split: option.splits)
  then show "sent_stream st' d = sent_stream st d"
    by (simp add: sent_stream_def delivered_def st'_def)
qed

lemma sent_stream_start_cache_timeout [simp]:
  "sent_stream (start_cache_timeout st) d = sent_stream st d"
  "bundle_inv (start_cache_timeout st) = bundle_inv st"
  "md_num_children (start_cache_timeout st) = md_num_children st"
  using pending_cong [of "start_cache_timeout st" st d]
  by (simp_all add: start_cache_timeout_def sent_stream_def delivered_def bundle_inv_def)

lemma append_to_entry:
  assumes "bundle_inv st" and "i < length (msgbundle_entries st)" and "mb_node (msgbundle_entries st ! i) = node"
    and "msg_ok (full_msg msg secondary)" and "length secondary \<le> msg_len (msg_header msg)"
    and "mb_position (msgbundle_entries st ! i) + 16 + msg_len (msg_header msg) < msgbundle_cache_size_kb st * 1024"
  shows "\<exists>mb. cache_message (msgbundle_entries st ! i) msg secondary = Some mb \<and>
    bundle_inv (st\<lparr>msgbundle_entries := (msgbundle_entries st)[i := mb]\<rparr>) \<and>
    sent_stream (st\<lparr>msgbundle_entries := (msgbundle_entries st)[i := mb]\<rparr>) d =
      sent_stream st d @ (if d = node then [full_msg msg secondary] else [])"
proof -
  let ?e = "msgbundle_entries st ! i"
  have "entry_inv (msgbundle_cache_size_kb st * 1024) ?e" using assms(1,2) by (simp add: bundle_inv_def)
  from cache_message_appends [OF this assms(4,6,5)] obtain mb where
    mb: "cache_message ?e msg secondary = Some mb" "entry_inv (msgbundle_cache_size_kb st * 1024) mb"
      "mb_node mb = mb_node ?e" and
    up: "unpack_bundle (take (mb_position mb) (mb_cache mb)) =
      unpack_bundle (take (mb_position ?e) (mb_cache ?e)) @ [full_msg msg secondary]" by blast
  have "pending st node = unpack_bundle (take (mb_position ?e) (mb_cache ?e))"
    using assms(1-3) find_bundle_nth [of "msgbundle_entries st" i] by (simp add: pending_def bundle_inv_def Let_def)
  then show ?thesis
    using mb up bundle_inv_update [OF assms(1,2) mb(3,2)] pending_update [OF assms(1,2) mb(3), of d] assms(3)
    by (auto simp: sent_stream_def delivered_def)
qed


lemma add_to_buffer:
  assumes "bundle_inv st" and "i < length (msgbundle_entries st)" and "mb_node (msgbundle_entries st ! i) = node"
    and "msg_ok (full_msg msg secondary)" and "length secondary \<le> msg_len (msg_header msg)"
    and "16 * 2 + msg_len (msg_header msg) < msgbundle_cache_size_kb st * 1024"
  defines "st1 \<equiv> (if 16 + msg_len (msg_header msg) + mb_position (msgbundle_entries st ! i) \<ge> msgbundle_cache_size_kb st * 1024
      then flush_msgbuffer st i else st)"
  shows "\<exists>mb. cache_message (msgbundle_entries st1 ! i) msg secondary = Some mb \<and>
    bundle_inv (st1\<lparr>msgbundle_entries := (msgbundle_entries st1)[i := mb]\<rparr>) \<and>
    sent_stream (st1\<lparr>msgbundle_entries := (msgbundle_entries st1)[i := mb]\<rparr>) d =
      sent_stream st d @ (if d = node then [full_msg msg secondary] else [])"
proof -
  note fl = flush_msgbuffer_laws [OF assms(1,2)]
  have "map mb_node (msgbundle_entries st1) = map mb_node (msgbundle_entries st)"
    by (simp add: st1_def fl(4))
  then have "i < length (msgbundle_entries st1)" "mb_node (msgbundle_entries st1 ! i) = node"
    using assms(2,3) by (metis length_map, metis length_map nth_map)
  moreover have "bundle_inv st1" "sent_stream st1 d = sent_stream st d"
    using assms(1) fl(1,2) by (simp_all add: st1_def)
  moreover have "mb_position (msgbundle_entries st1 ! i) + 16 + msg_len (msg_header msg)
      < msgbundle_cache_size_kb st1 * 1024"
    using assms(6) fl(3,5) by (simp add: st1_def)
  ultimately show ?thesis
    using append_to_entry [of st1 i node msg secondary d] assms(4,5) by simp
qed

lemma send_worker_laws:
  assumes "bundle_inv st" and "msg_ok (full_msg msg secondary)" and "length secondary \<le> msg_len (msg_header msg)"
    and "\<not> (md_num_children st = 0 \<and> node = BROADCAST)"
  shows "\<exists>r st'. spindle_send_worker st msg node secondary = Some (r, st') \<and> bundle_inv st' \<and>
    md_num_children st' = md_num_children st \<and>
    (r = PASSTHROUGH \<longrightarrow> sent_stream st' d = sent_stream st d \<and> pending st' node = []) \<and>
    (r \<noteq> PASSTHROUGH \<longrightarrow> sent_stream st' d = sent_stream st d @ (if d = node then [full_msg msg secondary] else []))"
proof -
  let ?len = "msg_len (msg_header msg)" and ?cap = "msgbundle_cache_size_kb st * 1024"
  have leaf: "(md_num_children st = 0 \<and> node = BROADCAST) = False" using assms(4) by simp
  consider "\<not> opt_msgbundle st" | "opt_msgbundle st" "16 * 2 + ?len \<ge> ?cap" | "opt_msgbundle st" "16 * 2 + ?len < ?cap"
    by linarith
  then show ?thesis
  proof cases
    case 1
    then have "msgbundle_entries st = []" using assms(1) by (simp add: bundle_inv_def)
    with 1 assms(1) show ?thesis by (simp add: spindle_send_worker_def pending_def)
  next
    case 2
    show ?thesis
    proof (cases "find_bundle node (msgbundle_entries st)")
      case None
      with 2 assms show ?thesis by (simp add: spindle_send_worker_def Let_def pending_def)
    next
      case (Some i)
      from find_bundle_Some [OF Some] have i: "i < length (msgbundle_entries st)" "mb_node (msgbundle_entries st ! i) = node" by auto
      note fl = flush_msgbuffer_laws [OF assms(1) i(1)]
      have "i < length (msgbundle_entries (flush_msgbuffer st i))"
        "mb_node (msgbundle_entries (flush_msgbuffer st i) ! i) = node"
        using i fl(4) by (metis length_map, metis length_map nth_map)
      then have "pending (flush_msgbuffer st i) node = []"
        using fl(1,3) find_bundle_nth [of "msgbundle_entries (flush_msgbuffer st i)" i]
        by (simp add: pending_def bundle_inv_def Let_def unpack_bundle.simps [of "[]"])
      with 2 Some leaf fl show ?thesis by (auto simp: spindle_send_worker_def Let_def)
    qed
  next
    case 3
    show ?thesis
    proof (cases "find_bundle node (msgbundle_entries st)")
      case None
      let ?st = "st\<lparr>msgbundle_entries := \<lparr>mb_node = node, mb_cache = replicate ?cap NUL, mb_position = 0\<rparr> # msgbundle_entries st\<rparr>"
      note ne = new_entry_laws [OF assms(1) 3(1) None]
      from add_to_buffer [OF ne(1), of 0 node msg secondary d] 3 assms(2,3) ne(2) [of d] obtain mb where
        "cache_message (msgbundle_entries ?st ! 0) msg secondary = Some mb"
        "bundle_inv (?st\<lparr>msgbundle_entries := (msgbundle_entries ?st)[0 := mb]\<rparr>)"
        "sent_stream (?st\<lparr>msgbundle_entries := (msgbundle_entries ?st)[0 := mb]\<rparr>) d =
           sent_stream st d @ (if d = node then [full_msg msg secondary] else [])"
        by auto
      with 3 None leaf show ?thesis by (auto simp: spindle_send_worker_def Let_def)
    next
      case (Some i)
      from find_bundle_Some [OF Some] have i: "i < length (msgbundle_entries st)" "mb_node (msgbundle_entries st ! i) = node" by auto
      define st1 where "st1 = (if 16 + ?len + mb_position (msgbundle_entries st ! i) \<ge> ?cap
         then flush_msgbuffer st i else st)"
      from add_to_buffer [OF assms(1) i assms(2,3) 3(2), of d] obtain mb where
        "cache_message (msgbundle_entries st1 ! i) msg secondary = Some mb"
        "bundle_inv (st1\<lparr>msgbundle_entries := (msgbundle_entries st1)[i := mb]\<rparr>)"
        "sent_stream (st1\<lparr>msgbundle_entries := (msgbundle_entries st1)[i := mb]\<rparr>) d =
           sent_stream st d @ (if d = node then [full_msg msg secondary] else [])"
        unfolding st1_def by blast
      moreover have "spindle_send_worker st msg node secondary = do {
          mb \<leftarrow> cache_message (msgbundle_entries st1 ! i) msg secondary;
          Some (Done, start_cache_timeout (st1\<lparr>msgbundle_entries := (msgbundle_entries st1)[i := mb]\<rparr>)) }"
        using 3 Some leaf by (auto simp: spindle_send_worker_def Let_def st1_def)
      moreover have "md_num_children st1 = md_num_children st"
        using flush_msgbuffer_laws(7) [OF assms(1) i(1)] by (simp add: st1_def)
      ultimately show ?thesis by simp
    qed
  qed
qed

lemma md_send_laws:
  assumes "bundle_inv st" and "pending st node = []" and "msg_ok m"
  shows "bundle_inv (md_send st m node)" and "md_num_children (md_send st m node) = md_num_children st"
    and "sent_stream (md_send st m node) d = sent_stream st d @ (if d = node then [m] else [])"
proof -
  show "bundle_inv (md_send st m node)" "md_num_children (md_send st m node) = md_num_children st"
    using assms(1) by (simp_all add: md_send_def bundle_inv_def)
  have "pending (md_send st m node) d = pending st d" by (rule pending_cong) (simp add: md_send_def)
  then show "sent_stream (md_send st m node) d = sent_stream st d @ (if d = node then [m] else [])"
    using assms(2,3) by (auto simp: sent_stream_def delivered_def md_send_def arrived_def msg_ok_def)
qed

lemma send_noncontig_laws:
  assumes "bundle_inv st" and "msg_ok (full_msg msg secondary)" and "length secondary \<le> msg_len (msg_header msg)"
    and "\<not> (md_num_children st = 0 \<and> node = BROADCAST)"
  shows "\<exists>st'. spindle_send_noncontig st msg node secondary = Some st' \<and> bundle_inv st' \<and>
    md_num_children st' = md_num_children st \<and>
    sent_stream st' = (sent_stream st)(node := sent_stream st node @ [full_msg msg secondary])"
proof -
  from send_worker_laws [OF assms] obtain r st' where
    w: "spindle_send_worker st msg node secondary = Some (r, st')" "bundle_inv st'"
      "md_num_children st' = md_num_children st"
    and pass: "r = PASSTHROUGH \<Longrightarrow> pending st' node = []" by blast
  from w(1) send_worker_laws [OF assms] have
    str: "sent_stream st' d = sent_stream st d @ (if r \<noteq> PASSTHROUGH \<and> d = node then [full_msg msg secondary] else [])" for d
    by fastforce
  show ?thesis
  proof (cases "r = PASSTHROUGH")
    case True
    with md_send_laws [OF w(2) pass assms(2)] w str show ?thesis
      by (simp add: spindle_send_noncontig_def fun_eq_iff flip: full_msg_def)
  next
    case False
    with w str show ?thesis by (simp add: spindle_send_noncontig_def fun_eq_iff)
  qed
qed

lemma full_msg_Nil: "msg_ok m \<Longrightarrow> full_msg m [] = m"
  by (simp add: full_msg_def msg_ok_def)

lemma spindle_send_eq:
  assumes "msg_ok m"
  shows "spindle_send st m node = spindle_send_noncontig st m node []"
  unfolding spindle_send_noncontig_def full_msg_def [symmetric] full_msg_Nil [OF assms] spindle_send_def
  by (rule refl)

lemma flush_all_laws:
  assumes "bundle_inv st" and "is = [0..<n]" and "n \<le> length (msgbundle_entries st)"
  shows "bundle_inv (foldl flush_msgbuffer st is) \<and> sent_stream (foldl flush_msgbuffer st is) = sent_stream st \<and>
    length (msgbundle_entries (foldl flush_msgbuffer st is)) = length (msgbundle_entries st) \<and>
    md_num_children (foldl flush_msgbuffer st is) = md_num_children st \<and>
    (\<forall>j < n. mb_position (msgbundle_entries (foldl flush_msgbuffer st is) ! j) = 0)"
  using assms(2,3)
proof (induction n arbitrary: "is")
  case 0
  then show ?case using assms(1) by simp
next
  case (Suc n)
  let ?s = "foldl flush_msgbuffer st [0..<n]"
  from Suc.IH [of "[0..<n]"] Suc.prems have IH: "bundle_inv ?s" "sent_stream ?s = sent_stream st"
    "length (msgbundle_entries ?s) = length (msgbundle_entries st)" "md_num_children ?s = md_num_children st"
    "\<forall>j < n. mb_position (msgbundle_entries ?s ! j) = 0" by auto
  have n: "n < length (msgbundle_entries ?s)" using Suc.prems IH(3) by simp
  note fl = flush_msgbuffer_laws [OF IH(1) n]
  have "mb_position (msgbundle_entries (flush_msgbuffer ?s n) ! j) = 0" if "j < Suc n" for j
    using that fl(3) IH(5) by (cases "j = n") (auto simp: flush_msgbuffer_def Let_def md_send_def)
  moreover have "length (msgbundle_entries (flush_msgbuffer ?s n)) = length (msgbundle_entries ?s)"
    by (metis fl(4) length_map)
  ultimately show ?case using Suc.prems(1) IH fl by (simp add: fun_eq_iff)
qed

lemma force_flush_laws:
  assumes "bundle_inv st"
  shows "bundle_inv (msgbundle_force_flush st)" and "sent_stream (msgbundle_force_flush st) = sent_stream st"
    and "pending (msgbundle_force_flush st) d = []"
    and "md_num_children (msgbundle_force_flush st) = md_num_children st"
proof -
  note fl = flush_all_laws [OF assms refl order_refl]
  show "bundle_inv (msgbundle_force_flush st)" "sent_stream (msgbundle_force_flush st) = sent_stream st"
    "md_num_children (msgbundle_force_flush st) = md_num_children st"
    using fl assms by (simp_all add: msgbundle_force_flush_def flush_msgbuffer_cb_def)
  show "pending (msgbundle_force_flush st) d = []"
  proof (cases "opt_msgbundle st")
    case True
    then show ?thesis
      using fl find_bundle_Some [of d "msgbundle_entries (flush_msgbuffer_cb st)"]
      by (auto simp: msgbundle_force_flush_def pending_def Let_def flush_msgbuffer_cb_def
          unpack_bundle.simps [of "[]"] split: option.splits)
  next
    case False
    then show ?thesis using assms by (simp add: msgbundle_force_flush_def bundle_inv_def pending_def)
  qed
qed

section \<open>Runs\<close>

datatype bundle_op =
    Op_send ldcs_message_t node_peer_t
  | Op_send_noncontig ldcs_message_t node_peer_t "byte list"
  | Op_flush

fun bundle_step :: "bundle_t \<Rightarrow> bundle_op \<Rightarrow> bundle_t option" where
  "bundle_step st (Op_send m node) = spindle_send st m node"
| "bundle_step st (Op_send_noncontig m node secondary) = spindle_send_noncontig st m node secondary"
| "bundle_step st Op_flush = Some (msgbundle_force_flush st)"

fun bundle_run :: "bundle_t \<Rightarrow> bundle_op list \<Rightarrow> bundle_t option" where
  "bundle_run st [] = Some st"
| "bundle_run st (op # ops) = bundle_step st op \<bind> (\<lambda>st. bundle_run st ops)"

fun op_ok :: "bundle_op \<Rightarrow> bool" where
  "op_ok (Op_send m node) = msg_ok m"
| "op_ok (Op_send_noncontig m node secondary) =
     (msg_ok (full_msg m secondary) \<and> length secondary \<le> msg_len (msg_header m))"
| "op_ok Op_flush = True"

fun op_msgs :: "node_peer_t \<Rightarrow> bundle_op \<Rightarrow> ldcs_message_t list" where
  "op_msgs d (Op_send m node) = (if d = node then [m] else [])"
| "op_msgs d (Op_send_noncontig m node secondary) = (if d = node then [full_msg m secondary] else [])"
| "op_msgs d Op_flush = []"

definition bundle_init :: "bool \<Rightarrow> nat \<Rightarrow> nat \<Rightarrow> bundle_t" where
  "bundle_init opt kb children =
     \<lparr>opt_msgbundle = opt, msgbundle_cache_size_kb = kb, md_num_children = children,
      msgbundle_entries = [], active_timeout = False, wire = []\<rparr>"

lemma bundle_step_laws:
  assumes "bundle_inv st" and "op_ok op" and "0 < md_num_children st"
  shows "\<exists>st'. bundle_step st op = Some st' \<and> bundle_inv st' \<and> md_num_children st' = md_num_children st \<and>
    (\<forall>d. sent_stream st' d = sent_stream st d @ op_msgs d op)"
proof (cases op)
  case (Op_send m node)
  with assms send_noncontig_laws [OF assms(1), of m "[]" node] show ?thesis
    by (auto simp: spindle_send_eq full_msg_Nil)
next
  case (Op_send_noncontig m node secondary)
  with assms send_noncontig_laws [OF assms(1), of m secondary node] show ?thesis by auto
next
  case Op_flush
  with force_flush_laws [OF assms(1)] show ?thesis by simp
qed

lemma bundle_run_laws:
  assumes "bundle_inv st" and "\<forall>op \<in> set ops. op_ok op" and "0 < md_num_children st"
  shows "\<exists>st'. bundle_run st ops = Some st' \<and> bundle_inv st' \<and>
    (\<forall>d. sent_stream st' d = sent_stream st d @ concat (map (op_msgs d) ops))"
  using assms
proof (induction ops arbitrary: st)
  case Nil
  then show ?case by simp
next
  case (Cons op ops)
  from bundle_step_laws [OF Cons.prems(1), of op] Cons.prems obtain st' where
    "bundle_step st op = Some st'" "bundle_inv st'" "md_num_children st' = md_num_children st"
    "\<forall>d. sent_stream st' d = sent_stream st d @ op_msgs d op" by auto
  with Cons.IH [of st'] Cons.prems show ?case by auto
qed



end
