(* ===== verification/Flush_Thread.thy ===== *)
theory Flush_Thread
  imports Main
begin

text \<open>
  The thread that flushes message bundles after a timeout (\<open>thrd_main\<close>, \<open>flush_msgbuffer_cb\<close>
  and \<open>start_cache_timeout\<close> of \<open>src/src/server/auditserver/msgbundle.c\<close>), as a step relation
  over the shared flags, the pipe to the main thread and the positions of the two threads.

  A step is a section of one thread that no step of the other can split: a region under
  the mutex, or one system call. \<open>fs_dirty\<close> says that some buffer holds messages; what is in
  the buffers is the subject of \<open>Msgbundle\<close>.
\<close>

section \<open>The two threads\<close>

datatype thrd_pc =
    Wait_Timeout   \<comment> \<open>in the first \<open>pthread_cond_wait\<close> loop\<close>
  | Sleeping       \<comment> \<open>in \<open>usleep\<close>\<close>
  | Wrote          \<comment> \<open>has written to the pipe, does not hold the mutex yet\<close>
  | Wait_Flush     \<comment> \<open>in the second \<open>pthread_cond_wait\<close> loop\<close>
  | Returned

datatype main_pc = Main_Idle | In_Callback

record flush_state =
  fs_active_timeout :: bool
  fs_active_flush :: bool
  fs_done :: bool
  fs_pipe :: nat
  fs_dirty :: bool
  fs_thrd :: thrd_pc
  fs_main :: main_pc

datatype flush_label = Cache_Message | Callback_Enter | Callback_Leave | Force_Flush | Set_Done | Thread_Step

inductive flush_step :: "flush_label \<Rightarrow> flush_state \<Rightarrow> flush_state \<Rightarrow> bool" where
  send: "fs_main s = Main_Idle \<Longrightarrow>
    flush_step Cache_Message s (s\<lparr>fs_dirty := True, fs_active_timeout := True\<rparr>)"
| enter: "fs_main s = Main_Idle \<Longrightarrow> 0 < fs_pipe s \<Longrightarrow>
    flush_step Callback_Enter s (s\<lparr>fs_pipe := fs_pipe s - 1, fs_dirty := False, fs_main := In_Callback\<rparr>)"
| force: "fs_main s = Main_Idle \<Longrightarrow>
    flush_step Force_Flush s (s\<lparr>fs_dirty := False, fs_main := In_Callback\<rparr>)"
| leave: "fs_main s = In_Callback \<Longrightarrow>
    flush_step Callback_Leave s (s\<lparr>fs_active_flush := False, fs_main := Main_Idle\<rparr>)"
| set_done: "fs_main s = Main_Idle \<Longrightarrow> flush_step Set_Done s (s\<lparr>fs_done := True\<rparr>)"
| wake: "fs_thrd s = Wait_Timeout \<Longrightarrow> fs_active_timeout s \<Longrightarrow> \<not> fs_done s \<Longrightarrow>
    flush_step Thread_Step s (s\<lparr>fs_thrd := Sleeping\<rparr>)"
| trigger: "fs_thrd s = Sleeping \<Longrightarrow>
    flush_step Thread_Step s (s\<lparr>fs_pipe := fs_pipe s + 1, fs_thrd := Wrote\<rparr>)"
| handover: "fs_thrd s = Wrote \<Longrightarrow>
    flush_step Thread_Step s (s\<lparr>fs_active_timeout := False, fs_active_flush := True, fs_thrd := Wait_Flush\<rparr>)"
| resume: "fs_thrd s = Wait_Flush \<Longrightarrow> \<not> fs_active_flush s \<Longrightarrow> \<not> fs_done s \<Longrightarrow>
    flush_step Thread_Step s (s\<lparr>fs_thrd := Wait_Timeout\<rparr>)"
| exit: "fs_thrd s \<in> {Wait_Timeout, Wait_Flush} \<Longrightarrow> fs_done s \<Longrightarrow>
    flush_step Thread_Step s (s\<lparr>fs_thrd := Returned\<rparr>)"

inductive_cases flush_step_cases: "flush_step l s s'"

definition flush_init :: flush_state where
  "flush_init = \<lparr>fs_active_timeout = False, fs_active_flush = False, fs_done = False, fs_pipe = 0,
     fs_dirty = False, fs_thrd = Wait_Timeout, fs_main = Main_Idle\<rparr>"

text \<open>Runs in normal operation: no forced flush and no shutdown.\<close>

definition normal_step :: "flush_state \<Rightarrow> flush_state \<Rightarrow> bool" where
  "normal_step s s' \<longleftrightarrow> (\<exists>l. l \<noteq> Force_Flush \<and> l \<noteq> Set_Done \<and> flush_step l s s')"

text \<open>Runs in which the main loop sees the byte in the pipe only after the thread has
  taken the mutex again.\<close>

definition ordered_step :: "flush_state \<Rightarrow> flush_state \<Rightarrow> bool" where
  "ordered_step s s' \<longleftrightarrow> (\<exists>l. l \<noteq> Force_Flush \<and> flush_step l s s' \<and> (l = Callback_Enter \<longrightarrow> fs_thrd s \<noteq> Wrote))"

section \<open>The race on the hand-over\<close>

definition stalled :: "flush_state \<Rightarrow> bool" where
  "stalled s \<longleftrightarrow> fs_thrd s = Wait_Flush \<and> fs_active_flush s \<and> fs_pipe s = 0 \<and>
     fs_main s = Main_Idle \<and> \<not> fs_done s"

lemma stalled_step: "normal_step s s' \<Longrightarrow> stalled s \<Longrightarrow> stalled s' \<and> (fs_dirty s \<longrightarrow> fs_dirty s')"
  by (auto simp: normal_step_def stalled_def elim!: flush_step_cases)

lemma stalled_steps: "normal_step\<^sup>*\<^sup>* s s' \<Longrightarrow> stalled s \<Longrightarrow> stalled s' \<and> (fs_dirty s \<longrightarrow> fs_dirty s')"
  by (induction rule: rtranclp_induct) (auto dest: stalled_step)

lemma normal_stepI: "flush_step l s s' \<Longrightarrow> l \<noteq> Force_Flush \<Longrightarrow> l \<noteq> Set_Done \<Longrightarrow> normal_step s s'"
  by (auto simp: normal_step_def)

lemma stall_reachable: "\<exists>s. normal_step\<^sup>*\<^sup>* flush_init s \<and> stalled s \<and> fs_dirty s"
proof -
  let ?a = "flush_init\<lparr>fs_dirty := True, fs_active_timeout := True\<rparr>"
  let ?b = "?a\<lparr>fs_thrd := Sleeping\<rparr>"
  let ?c = "?b\<lparr>fs_pipe := fs_pipe ?b + 1, fs_thrd := Wrote\<rparr>"
  let ?d = "?c\<lparr>fs_pipe := fs_pipe ?c - 1, fs_dirty := False, fs_main := In_Callback\<rparr>"
  let ?e = "?d\<lparr>fs_active_flush := False, fs_main := Main_Idle\<rparr>"
  let ?f = "?e\<lparr>fs_active_timeout := False, fs_active_flush := True, fs_thrd := Wait_Flush\<rparr>"
  let ?g = "?f\<lparr>fs_dirty := True, fs_active_timeout := True\<rparr>"
  have "normal_step flush_init ?a" by (rule normal_stepI [OF send]) (simp_all add: flush_init_def)
  moreover have "normal_step ?a ?b" by (rule normal_stepI [OF wake]) (simp_all add: flush_init_def)
  moreover have "normal_step ?b ?c" by (rule normal_stepI [OF trigger]) simp_all
  moreover have "normal_step ?c ?d" by (rule normal_stepI [OF enter]) (simp_all add: flush_init_def)
  moreover have "normal_step ?d ?e" by (rule normal_stepI [OF leave]) simp_all
  moreover have "normal_step ?e ?f" by (rule normal_stepI [OF handover]) simp_all
  moreover have "normal_step ?f ?g" by (rule normal_stepI [OF send]) simp_all
  ultimately have "normal_step\<^sup>*\<^sup>* flush_init ?g"
    by (meson converse_rtranclp_into_rtranclp rtranclp.rtrancl_refl)
  moreover have "stalled ?g" "fs_dirty ?g" by (simp_all add: stalled_def flush_init_def)
  ultimately show ?thesis by blast
qed



section \<open>Without the race\<close>

definition flush_inv :: "flush_state \<Rightarrow> bool" where
  "flush_inv s \<longleftrightarrow>
     (fs_thrd s = Wait_Flush \<and> fs_active_flush s \<longrightarrow> fs_pipe s = 1 \<or> fs_main s = In_Callback) \<and>
     (fs_thrd s = Wrote \<longrightarrow> fs_pipe s = 1 \<and> fs_main s = Main_Idle) \<and>
     (fs_thrd s \<in> {Wait_Timeout, Sleeping} \<longrightarrow> fs_pipe s = 0 \<and> fs_main s = Main_Idle) \<and>
     (fs_thrd s = Wait_Flush \<and> \<not> fs_active_flush s \<longrightarrow> fs_pipe s = 0 \<and> fs_main s = Main_Idle) \<and>
     (fs_thrd s = Wait_Flush \<and> fs_main s = In_Callback \<longrightarrow> fs_pipe s = 0) \<and>
     (fs_main s = In_Callback \<longrightarrow> \<not> fs_dirty s) \<and> (fs_thrd s = Returned \<longrightarrow> fs_done s) \<and>
     (fs_dirty s \<and> \<not> fs_done s \<longrightarrow> fs_active_timeout s \<or> fs_pipe s = 1 \<and> fs_thrd s = Wait_Flush)"

lemma flush_inv_label:
  assumes "flush_step l s s'" and "l \<noteq> Force_Flush" and "l = Callback_Enter \<longrightarrow> fs_thrd s \<noteq> Wrote"
    and "flush_inv s"
  shows "flush_inv s'"
  using assms
  by (cases rule: flush_step.cases) (cases "fs_thrd s"; cases "fs_active_flush s"; auto simp: flush_inv_def)+

lemma flush_inv_step: "ordered_step s s' \<Longrightarrow> flush_inv s \<Longrightarrow> flush_inv s'"
  unfolding ordered_step_def using flush_inv_label by blast



end
