(* ===== verification/Ldcs_Cache.thy ===== *)
theory Ldcs_Cache
  imports Spindle_Types
begin

text \<open>
  The server's cache of directory listings and files
  (\<open>src/src/server/cache/ldcs_cache.cc\<close>), with the packet format that carries a
  directory listing to other servers, and the cache of file metadata
  (\<open>src/src/server/cache/stat_cache.cc\<close>).

  The \<open>unordered_map\<close> is a map from locations to entries; no operation iterates over it.
  The pointers of \<open>direntries\<close> are the keys of the entries they point to: entries are
  never removed. A failed \<open>assert\<close> and a write past the end of a buffer are \<open>None\<close>. The byte
  counters kept for statistics are left out.
\<close>

section \<open>Entries\<close>

type_synonym file_location_t = "string \<times> string"

record cached_contents_t =
  cc_path :: string
  cc_buffer :: "byte list option"
  cc_buffer_size :: nat

definition empty_contents :: cached_contents_t where
  "empty_contents = \<lparr>cc_path = [], cc_buffer = None, cc_buffer_size = 0\<rparr>"

record entry_t =
  entry_path :: file_location_t
  file_contents :: cached_contents_t
  dso_contents :: cached_contents_t
  entry_alias :: string
  entry_errcode :: int
  entry_replication :: bool
  direntries :: "file_location_t list"

definition new_entry :: "file_location_t \<Rightarrow> entry_t" where
  "new_entry key = \<lparr>entry_path = key, file_contents = empty_contents, dso_contents = empty_contents,
     entry_alias = [], entry_errcode = 0, entry_replication = False, direntries = []\<rparr>"

type_synonym cache_t = "file_location_t \<rightharpoonup> entry_t"

abbreviation dir_key :: "string \<Rightarrow> file_location_t" where
  "dir_key d \<equiv> (d, [])"

datatype ldcs_cache_result_t =
    LDCS_CACHE_DIR_PARSED_AND_EXISTS
  | LDCS_CACHE_DIR_PARSED_AND_NOT_EXISTS
  | LDCS_CACHE_DIR_NOT_PARSED
  | LDCS_CACHE_FILE_FOUND
  | LDCS_CACHE_FILE_NOT_FOUND
  | LDCS_CACHE_UNKNOWN

datatype ldcs_hash_fileobj_t =
    LDCS_CACHE_FILEOBJ_DSO
  | LDCS_CACHE_FILEOBJ_FILE
  | LDCS_CACHE_FILEOBJ_EITHER

section \<open>Operations\<close>

definition addDirectory :: "cache_t \<Rightarrow> string \<Rightarrow> bool \<Rightarrow> cache_t" where
  "addDirectory cache dirname exists =
     (case cache (dir_key dirname) of
        Some e \<Rightarrow> cache
      | None \<Rightarrow>
          let newentry = new_entry (dir_key dirname);
              newentry = (if \<not> exists then newentry\<lparr>entry_errcode := -1\<rparr> else newentry)
          in cache(dir_key dirname \<mapsto> newentry))"

definition addFile :: "cache_t \<Rightarrow> string \<Rightarrow> string \<Rightarrow> cache_t option" where
  "addFile cache dirname filename =
     (let key = (dirname, filename) in
      case cache key of
        Some e \<Rightarrow> Some cache
      | None \<Rightarrow>
          let cache = cache(key \<mapsto> new_entry key) in
          case cache (dir_key dirname) of
            None \<Rightarrow> None
          | Some dir \<Rightarrow> Some (cache(dir_key dirname \<mapsto> dir\<lparr>direntries := direntries dir @ [key]\<rparr>)))"

definition ldcs_cache_findDirInCache :: "cache_t \<Rightarrow> string \<Rightarrow> ldcs_cache_result_t" where
  "ldcs_cache_findDirInCache cache dirname =
     (case cache (dir_key dirname) of
        None \<Rightarrow> LDCS_CACHE_DIR_NOT_PARSED
      | Some e \<Rightarrow> if entry_errcode e = -1 then LDCS_CACHE_DIR_PARSED_AND_NOT_EXISTS
                  else LDCS_CACHE_DIR_PARSED_AND_EXISTS)"

definition select_contents :: "entry_t \<Rightarrow> ldcs_hash_fileobj_t \<Rightarrow> cached_contents_t" where
  "select_contents e objt =
     (case objt of
        LDCS_CACHE_FILEOBJ_DSO \<Rightarrow> dso_contents e
      | LDCS_CACHE_FILEOBJ_FILE \<Rightarrow> file_contents e
      | LDCS_CACHE_FILEOBJ_EITHER \<Rightarrow>
          if cc_path (dso_contents e) \<noteq> [] then dso_contents e else file_contents e)"

definition ldcs_cache_findFileDirInCache ::
  "cache_t \<Rightarrow> string \<Rightarrow> string \<Rightarrow> ldcs_hash_fileobj_t \<Rightarrow> ldcs_cache_result_t \<times> string option \<times> int"
where
  "ldcs_cache_findFileDirInCache cache filename dirname objt =
     (case cache (dirname, filename) of
        None \<Rightarrow> (LDCS_CACHE_FILE_NOT_FOUND, None, 0)
      | Some e \<Rightarrow>
          let contents = select_contents e objt in
          (LDCS_CACHE_FILE_FOUND, if cc_path contents \<noteq> [] then Some (cc_path contents) else None, entry_errcode e))"

definition ldcs_cache_getAlias :: "cache_t \<Rightarrow> string \<Rightarrow> string \<Rightarrow> ldcs_cache_result_t \<times> string option" where
  "ldcs_cache_getAlias cache filename dirname =
     (case cache (dirname, filename) of
        None \<Rightarrow> (LDCS_CACHE_FILE_NOT_FOUND, None)
      | Some e \<Rightarrow> (LDCS_CACHE_FILE_FOUND, if entry_alias e = [] then None else Some (entry_alias e)))"

definition ldcs_cache_isReplicated :: "cache_t \<Rightarrow> string \<Rightarrow> string \<Rightarrow> ldcs_cache_result_t \<times> bool" where
  "ldcs_cache_isReplicated cache filename dirname =
     (case cache (dirname, filename) of
        None \<Rightarrow> (LDCS_CACHE_FILE_NOT_FOUND, False)
      | Some e \<Rightarrow> (LDCS_CACHE_FILE_FOUND, entry_replication e))"

text \<open>The disk: the entries \<open>readdir\<close> returns, or \<open>None\<close> where \<open>opendir\<close> fails.\<close>

datatype d_type = DT_LNK | DT_REG | DT_UNKNOWN | DT_DIR | DT_other

type_synonym dirs_t = "string \<Rightarrow> (string \<times> d_type) list option"

fun addFiles :: "cache_t \<Rightarrow> string \<Rightarrow> string list \<Rightarrow> cache_t option" where
  "addFiles cache dirname [] = Some cache"
| "addFiles cache dirname (f # fs) = addFile cache dirname f \<bind> (\<lambda>cache. addFiles cache dirname fs)"

definition lsAndCacheFiles :: "dirs_t \<Rightarrow> cache_t \<Rightarrow> string \<Rightarrow> cache_t option" where
  "lsAndCacheFiles disk cache dirname =
     (case disk dirname of
        None \<Rightarrow> Some (addDirectory cache dirname False)
      | Some dents \<Rightarrow>
          addFiles (addDirectory cache dirname True) dirname
            (map fst (filter (\<lambda>(name, ty). ty \<noteq> DT_other) dents)))"

definition ldcs_cache_processDirectory ::
  "dirs_t \<Rightarrow> cache_t \<Rightarrow> string \<Rightarrow> (ldcs_cache_result_t \<times> cache_t) option"
where
  "ldcs_cache_processDirectory disk cache dirname =
     (case cache (dir_key dirname) of
        Some e \<Rightarrow> Some (LDCS_CACHE_DIR_PARSED_AND_EXISTS, cache)
      | None \<Rightarrow> do {
          cache \<leftarrow> lsAndCacheFiles disk cache dirname;
          Some (ldcs_cache_findDirInCache cache dirname, cache)
        })"

definition update_entry ::
  "cache_t \<Rightarrow> string \<Rightarrow> string \<Rightarrow> (entry_t \<Rightarrow> entry_t) \<Rightarrow> ldcs_cache_result_t \<times> cache_t"
where
  "update_entry cache filename dirname f =
     (case cache (dirname, filename) of
        None \<Rightarrow> (LDCS_CACHE_FILE_NOT_FOUND, cache)
      | Some e \<Rightarrow> (LDCS_CACHE_FILE_FOUND, cache((dirname, filename) \<mapsto> f e)))"

definition ldcs_cache_updateAlias :: "cache_t \<Rightarrow> string \<Rightarrow> string \<Rightarrow> string \<Rightarrow> ldcs_cache_result_t \<times> cache_t" where
  "ldcs_cache_updateAlias cache filename dirname alias_to =
     update_entry cache filename dirname (\<lambda>e. e\<lparr>entry_alias := alias_to\<rparr>)"

definition ldcs_cache_updateReplication :: "cache_t \<Rightarrow> string \<Rightarrow> string \<Rightarrow> bool \<Rightarrow> ldcs_cache_result_t \<times> cache_t" where
  "ldcs_cache_updateReplication cache filename dirname repl =
     update_entry cache filename dirname (\<lambda>e. e\<lparr>entry_replication := repl\<rparr>)"

definition ldcs_cache_updateErrcode :: "cache_t \<Rightarrow> string \<Rightarrow> string \<Rightarrow> int \<Rightarrow> ldcs_cache_result_t \<times> cache_t" where
  "ldcs_cache_updateErrcode cache filename dirname err =
     update_entry cache filename dirname (\<lambda>e.
       let e = e\<lparr>entry_errcode := err\<rparr> in
       if err \<noteq> 0 then e\<lparr>file_contents := (file_contents e)\<lparr>cc_path := []\<rparr>,
                         dso_contents := (dso_contents e)\<lparr>cc_path := []\<rparr>\<rparr>
       else e)"

definition ldcs_cache_updateBuffer ::
  "cache_t \<Rightarrow> string \<Rightarrow> string \<Rightarrow> string option \<Rightarrow> byte list option \<Rightarrow> nat \<Rightarrow> int \<Rightarrow> bool \<Rightarrow> ldcs_cache_result_t \<times> cache_t"
where
  "ldcs_cache_updateBuffer cache filename dirname localname buffer buffer_size err is_stripped =
     update_entry cache filename dirname (\<lambda>e.
       if err \<noteq> 0 then e\<lparr>dso_contents := empty_contents, file_contents := empty_contents, entry_errcode := err\<rparr>
       else let contents = \<lparr>cc_path = (case localname of Some l \<Rightarrow> l | None \<Rightarrow> []), cc_buffer = buffer,
                            cc_buffer_size = buffer_size\<rparr>
            in (if is_stripped then e\<lparr>dso_contents := contents, entry_errcode := 0\<rparr>
                else e\<lparr>file_contents := contents, entry_errcode := 0\<rparr>))"

definition ldcs_cache_get_buffer ::
  "cache_t \<Rightarrow> string \<Rightarrow> string \<Rightarrow> ldcs_hash_fileobj_t \<Rightarrow> (byte list option \<times> nat \<times> string) option"
where
  "ldcs_cache_get_buffer cache dirname filename objt =
     (case cache (dirname, filename) of
        None \<Rightarrow> None
      | Some e \<Rightarrow> let contents = select_contents e objt in
                  Some (cc_buffer contents, cc_buffer_size contents, entry_alias e))"

definition ldcs_cache_addFileDir :: "cache_t \<Rightarrow> string \<Rightarrow> string \<Rightarrow> cache_t option" where
  "ldcs_cache_addFileDir cache dname fname = addFile cache dname fname"

section \<open>Directory packets\<close>

abbreviation (input) INITIAL_BUFFER_SIZE :: nat where "INITIAL_BUFFER_SIZE \<equiv> 8192"

partial_function (option) grow_buffer_size :: "nat \<Rightarrow> nat \<Rightarrow> nat option" where
  "grow_buffer_size needed sz = (if needed \<ge> sz then grow_buffer_size needed (sz * 2) else Some sz)"

declare grow_buffer_size.simps [code]

fun encode_names :: "string list \<Rightarrow> byte list \<Rightarrow> nat \<Rightarrow> (byte list \<times> nat) option" where
  "encode_names [] buffer cur_pos = Some (buffer, cur_pos)"
| "encode_names (fname # fnames) buffer cur_pos = do {
     let length_fn = (if fname \<noteq> [] then length fname + 1 else 0);
     buffer_size \<leftarrow> grow_buffer_size (cur_pos + length_fn + 4) (length buffer);
     let buffer = buffer @ replicate (buffer_size - length buffer) NUL;
     buffer \<leftarrow> buf_put buffer cur_pos (put_u32 length_fn);
     buffer \<leftarrow> (if length_fn \<noteq> 0 then buf_put buffer (cur_pos + 4) (cstr fname) else Some buffer);
     encode_names fnames buffer (cur_pos + 4 + length_fn)
   }"

definition ldcs_cache_encodeDirContents :: "cache_t \<Rightarrow> string \<Rightarrow> byte list option" where
  "ldcs_cache_encodeDirContents cache dir = do {
     de \<leftarrow> cache (dir_key dir);
     let buffer = replicate INITIAL_BUFFER_SIZE NUL;
     buffer \<leftarrow> buf_put buffer 0 (put_u32 (length dir + 1));
     buffer \<leftarrow> buf_put buffer 4 (cstr dir);
     let cur_pos = 4 + (length dir + 1);
     if cur_pos < INITIAL_BUFFER_SIZE then do {
       (buffer, cur_pos) \<leftarrow> encode_names (map snd (direntries de)) buffer cur_pos;
       Some (take cur_pos buffer)
     } else None
   }"

text \<open>
  \<open>str\<close> is the local array of \<open>MAX_PATH_LEN + 1\<close> bytes that every name is copied into;
  its last byte is always reset to NUL.
\<close>

definition copy_name :: "byte list \<Rightarrow> byte list \<Rightarrow> nat \<Rightarrow> int \<Rightarrow> (byte list \<times> string) option" where
  "copy_name str buffer pos len =
     (if len < 0 \<or> length buffer < pos + nat len then None
      else do {
        str \<leftarrow> buf_put str 0 (take (nat len) (drop pos buffer));
        let str = str[MAX_PATH_LEN := NUL];
        Some (str, c_str str)
      })"

function decode_names :: "byte list \<Rightarrow> nat \<Rightarrow> byte list \<Rightarrow> string \<Rightarrow> cache_t \<Rightarrow> cache_t option" where
  "decode_names buffer pos str dirname cache =
     (if pos < length buffer then
        let fn_length = get_i32 (drop pos buffer); pos = pos + 4 in
        if fn_length > int MAX_PATH_LEN + 1 \<or> length buffer < pos then None
        else if fn_length = 0 then decode_names buffer pos str dirname cache
        else (case copy_name str buffer pos fn_length of
                None \<Rightarrow> None
              | Some (str, filename) \<Rightarrow>
                  (case addFile cache dirname filename of
                     None \<Rightarrow> None
                   | Some cache \<Rightarrow> decode_names buffer (pos + nat fn_length) str dirname cache))
      else Some cache)"
  by pat_completeness auto
termination
  by (relation "measure (\<lambda>(buffer, pos, str, dirname, cache). length buffer - pos)") auto

declare decode_names.simps [simp del]

definition ldcs_cache_decodeDirContents :: "cache_t \<Rightarrow> byte list \<Rightarrow> (string \<times> cache_t) option" where
  "ldcs_cache_decodeDirContents cache buffer =
     (let dn_length = get_i32 buffer; pos = 4; str = replicate (MAX_PATH_LEN + 1) NUL in
      if length buffer < pos \<or> dn_length = 0 \<or> dn_length \<ge> int MAX_PATH_LEN + 1 then None
      else do {
        (str, dirname) \<leftarrow> copy_name str buffer pos dn_length;
        let pos = pos + nat dn_length;
        cache \<leftarrow> decode_names buffer pos str dirname (addDirectory cache dirname (pos < length buffer));
        Some (dirname, cache)
      })"

section \<open>Keys of the pick-one rule\<close>

definition ldcs_cache_pickone_get :: "string set \<Rightarrow> string \<Rightarrow> bool" where
  "ldcs_cache_pickone_get pickone_cache key = (key \<in> pickone_cache)"

definition ldcs_cache_pickone_set :: "string set \<Rightarrow> string \<Rightarrow> string set" where
  "ldcs_cache_pickone_set pickone_cache key = insert key pickone_cache"

section \<open>Metadata\<close>

datatype metadata_t = metadata_none | metadata_stat | metadata_lstat | metadata_loader

record stat_cache_t =
  stat_table :: "string \<rightharpoonup> string option"
  lstat_table :: "string \<rightharpoonup> string option"
  ldso_table :: "string \<rightharpoonup> string option"

definition init_stat_cache :: stat_cache_t where
  "init_stat_cache = \<lparr>stat_table = Map.empty, lstat_table = Map.empty, ldso_table = Map.empty\<rparr>"

text \<open>\<open>std::map::insert\<close> leaves an existing element as it is.\<close>

definition map_insert :: "('k \<rightharpoonup> 'v) \<Rightarrow> 'k \<Rightarrow> 'v \<Rightarrow> ('k \<rightharpoonup> 'v)" where
  "map_insert m k v = (case m k of None \<Rightarrow> m(k \<mapsto> v) | Some _ \<Rightarrow> m)"

definition add_stat_cache :: "stat_cache_t \<Rightarrow> string \<Rightarrow> string option \<Rightarrow> metadata_t \<Rightarrow> stat_cache_t option" where
  "add_stat_cache sc pathname v stattype =
     (case stattype of
        metadata_none \<Rightarrow> None
      | metadata_stat \<Rightarrow> Some (sc\<lparr>stat_table := map_insert (stat_table sc) pathname v\<rparr>)
      | metadata_lstat \<Rightarrow> Some (sc\<lparr>lstat_table := map_insert (lstat_table sc) pathname v\<rparr>)
      | metadata_loader \<Rightarrow> Some (sc\<lparr>ldso_table := map_insert (ldso_table sc) pathname v\<rparr>))"

definition lookup_stat_cache :: "stat_cache_t \<Rightarrow> string \<Rightarrow> metadata_t \<Rightarrow> string option option option" where
  "lookup_stat_cache sc pathname stattype =
     (case stattype of
        metadata_none \<Rightarrow> None
      | metadata_stat \<Rightarrow> Some (stat_table sc pathname)
      | metadata_lstat \<Rightarrow> Some (lstat_table sc pathname)
      | metadata_loader \<Rightarrow> Some (ldso_table sc pathname))"

section \<open>Well-formed caches\<close>

definition cache_ok :: "cache_t \<Rightarrow> bool" where
  "cache_ok c \<longleftrightarrow>
     (\<forall>k e. c k = Some e \<longrightarrow> entry_path e = k \<and> distinct (direntries e) \<and>
        (snd k \<noteq> [] \<longrightarrow> direntries e = [] \<and>
           (entry_errcode e \<noteq> 0 \<longrightarrow> cc_path (file_contents e) = [] \<and> cc_path (dso_contents e) = []))) \<and>
     (\<forall>d f. f \<noteq> [] \<longrightarrow> (c (d, f) \<noteq> None \<longleftrightarrow> (\<exists>de. c (dir_key d) = Some de \<and> (d, f) \<in> set (direntries de)))) \<and>
     (\<forall>d de k. c (dir_key d) = Some de \<longrightarrow> k \<in> set (direntries de) \<longrightarrow> fst k = d \<and> snd k \<noteq> [])"

lemma cache_okD:
  assumes "cache_ok c"
  shows "c k = Some e \<Longrightarrow> entry_path e = k" and "c k = Some e \<Longrightarrow> distinct (direntries e)"
    and "c (d, f) = Some e \<Longrightarrow> f \<noteq> [] \<Longrightarrow> direntries e = []"
    and "c (d, f) = Some e \<Longrightarrow> f \<noteq> [] \<Longrightarrow> entry_errcode e \<noteq> 0 \<Longrightarrow>
           cc_path (file_contents e) = [] \<and> cc_path (dso_contents e) = []"
    and "f \<noteq> [] \<Longrightarrow> c (d, f) \<noteq> None \<longleftrightarrow> (\<exists>de. c (dir_key d) = Some de \<and> (d, f) \<in> set (direntries de))"
    and "c (dir_key d) = Some de \<Longrightarrow> k \<in> set (direntries de) \<Longrightarrow> fst k = d \<and> snd k \<noteq> []"
  using assms unfolding cache_ok_def by (blast, blast, force, force, blast, blast)

lemma cache_ok_empty: "cache_ok Map.empty"
  by (simp add: cache_ok_def)

lemma new_entry_sel [simp]:
  "entry_path (new_entry k) = k" "direntries (new_entry k) = []" "entry_errcode (new_entry k) = 0"
  "file_contents (new_entry k) = empty_contents" "dso_contents (new_entry k) = empty_contents"
  "entry_alias (new_entry k) = []" "entry_replication (new_entry k) = False" "cc_path empty_contents = []"
  by (simp_all add: new_entry_def empty_contents_def)

lemma addDirectory_ok:
  assumes "cache_ok c"
  shows "cache_ok (addDirectory c d ex)"
proof (cases "c (dir_key d)")
  case None
  then have "c (d, f) = None" for f using cache_okD(5) [OF assms, of f d] by (cases "f = []") auto
  with assms None show ?thesis
    unfolding cache_ok_def addDirectory_def Let_def by (auto split: if_splits)
next
  case (Some e)
  with assms show ?thesis by (simp add: addDirectory_def)
qed

lemma addFile_ok:
  assumes "cache_ok c" and "addFile c d f = Some c'" and "f \<noteq> []"
  shows "cache_ok c'"
proof (cases "c (d, f)")
  case (Some e)
  with assms show ?thesis by (simp add: addFile_def)
next
  case None
  with assms(2,3) obtain de where de: "c (dir_key d) = Some de"
    and c': "c' = c((d, f) \<mapsto> new_entry (d, f), dir_key d \<mapsto> de\<lparr>direntries := direntries de @ [(d, f)]\<rparr>)"
    by (auto simp: addFile_def Let_def split: option.splits)
  have "(d, f) \<notin> set (direntries de)" using None de cache_okD(5) [OF assms(1,3), of d] by auto
  with assms(1,3) de show ?thesis
    unfolding c' cache_ok_def by (auto split: if_splits)
qed

lemma addFiles_ok:
  "cache_ok c \<Longrightarrow> \<forall>f \<in> set fs. f \<noteq> [] \<Longrightarrow> addFiles c d fs = Some c' \<Longrightarrow> cache_ok c'"
  by (induction fs arbitrary: c) (auto simp: bind_eq_Some_conv dest: addFile_ok)

lemma update_entry_ok:
  assumes "cache_ok c" and "f \<noteq> []"
    and "\<And>e. entry_path (g e) = entry_path e" and "\<And>e. direntries (g e) = direntries e"
    and "\<And>e. (entry_errcode e \<noteq> 0 \<longrightarrow> cc_path (file_contents e) = [] \<and> cc_path (dso_contents e) = []) \<Longrightarrow>
          entry_errcode (g e) \<noteq> 0 \<Longrightarrow> cc_path (file_contents (g e)) = [] \<and> cc_path (dso_contents (g e)) = []"
  shows "cache_ok (snd (update_entry c f d g))"
proof (cases "c (d, f)")
  case None
  with assms(1) show ?thesis by (simp add: update_entry_def)
next
  case (Some e)
  have e: "entry_path (g e) = (d, f)" "direntries (g e) = []"
    "entry_errcode (g e) \<noteq> 0 \<longrightarrow> cc_path (file_contents (g e)) = [] \<and> cc_path (dso_contents (g e)) = []"
    using cache_okD(1,3) [OF assms(1) Some] assms(2,3,4) cache_okD(4) [OF assms(1) Some assms(2)]
      assms(5) [of e] by auto
  have eq: "snd (update_entry c f d g) = c((d, f) \<mapsto> g e)" using Some by (simp add: update_entry_def)
  have "\<exists>de. c (dir_key d) = Some de \<and> (d, f) \<in> set (direntries de)"
    using Some cache_okD(5) [OF assms(1,2), of d] by simp
  then show ?thesis
    unfolding eq using assms(1,2) Some e unfolding cache_ok_def by (auto split: if_splits)
qed

lemma cache_updates_ok:
  assumes "cache_ok c" and "f \<noteq> []"
  shows "cache_ok (snd (ldcs_cache_updateAlias c f d a))"
    and "cache_ok (snd (ldcs_cache_updateReplication c f d r))"
    and "cache_ok (snd (ldcs_cache_updateErrcode c f d err))"
    and "cache_ok (snd (ldcs_cache_updateBuffer c f d l b n err str))"
  unfolding ldcs_cache_updateAlias_def ldcs_cache_updateReplication_def ldcs_cache_updateErrcode_def
    ldcs_cache_updateBuffer_def
  by (rule update_entry_ok [OF assms]; simp add: Let_def empty_contents_def split: if_splits)+

lemma processDirectory_ok:
  assumes "cache_ok c" and "ldcs_cache_processDirectory disk c d = Some (r, c')"
    and "\<forall>dents. disk d = Some dents \<longrightarrow> (\<forall>n \<in> set dents. fst n \<noteq> [])"
  shows "cache_ok c'"
proof (cases "c (dir_key d)")
  case None
  with assms(2) have "lsAndCacheFiles disk c d = Some c'"
    by (auto simp: ldcs_cache_processDirectory_def bind_eq_Some_conv)
  then show ?thesis
  proof (cases "disk d")
    case None
    with \<open>lsAndCacheFiles disk c d = Some c'\<close> assms(1) show ?thesis
      by (auto simp: lsAndCacheFiles_def addDirectory_ok)
  next
    case (Some dents)
    let ?fs = "map fst (filter (\<lambda>(name, ty). ty \<noteq> DT_other) dents)"
    have "\<forall>f \<in> set ?fs. f \<noteq> []" using Some assms(3) by force
    moreover have "addFiles (addDirectory c d True) d ?fs = Some c'"
      using Some \<open>lsAndCacheFiles disk c d = Some c'\<close> by (simp add: lsAndCacheFiles_def)
    ultimately show ?thesis using addFiles_ok [OF addDirectory_ok [OF assms(1)]] by blast
  qed
next
  case (Some e)
  with assms show ?thesis by (simp add: ldcs_cache_processDirectory_def)
qed

section \<open>Adding the files of a directory\<close>

definition with_files :: "cache_t \<Rightarrow> string \<Rightarrow> entry_t \<Rightarrow> string list \<Rightarrow> cache_t" where
  "with_files c d de fs = (\<lambda>k.
     if k = dir_key d then Some (de\<lparr>direntries := direntries de @ map (Pair d) fs\<rparr>)
     else if fst k = d \<and> snd k \<in> set fs then Some (new_entry k) else c k)"

lemma addFiles_fresh:
  assumes "c (dir_key d) = Some de" and "distinct fs" and "\<forall>f \<in> set fs. f \<noteq> [] \<and> c (d, f) = None"
  shows "addFiles c d fs = Some (with_files c d de fs)"
  using assms
proof (induction fs arbitrary: c de)
  case Nil
  then show ?case by (auto simp: with_files_def fun_eq_iff)
next
  case (Cons f fs)
  let ?c = "c((d, f) \<mapsto> new_entry (d, f), dir_key d \<mapsto> de\<lparr>direntries := direntries de @ [(d, f)]\<rparr>)"
  have "addFile c d f = Some ?c"
    using Cons.prems by (auto simp: addFile_def Let_def)
  moreover have "addFiles ?c d fs = Some (with_files ?c d (de\<lparr>direntries := direntries de @ [(d, f)]\<rparr>) fs)"
    using Cons.prems by (intro Cons.IH) auto
  moreover have "with_files ?c d (de\<lparr>direntries := direntries de @ [(d, f)]\<rparr>) fs = with_files c d de (f # fs)"
    using Cons.prems by (auto simp: with_files_def fun_eq_iff)
  ultimately show ?case by simp
qed

section \<open>Packets\<close>

lemma grow_buffer_size_returns:
  "0 < sz \<Longrightarrow> \<exists>sz'. grow_buffer_size needed sz = Some sz' \<and> needed < sz' \<and> sz \<le> sz'"
proof (induction "Suc needed - sz" arbitrary: sz rule: less_induct)
  case less
  show ?case
  proof (cases "needed \<ge> sz")
    case True
    with less.prems have "Suc needed - sz * 2 < Suc needed - sz" by linarith
    with less.hyps [of "sz * 2"] less.prems True show ?thesis
      by (subst grow_buffer_size.simps) force
  next
    case False
    then show ?thesis by (subst grow_buffer_size.simps) simp
  qed
qed

definition name_bytes :: "string \<Rightarrow> byte list" where
  "name_bytes f = put_u32 (length f + 1) @ cstr f"

lemma encode_names_eq:
  assumes "0 < length buf" and "pos \<le> length buf" and "\<forall>f \<in> set fs. f \<noteq> []"
  shows "\<exists>buf' pos'. encode_names fs buf pos = Some (buf', pos') \<and>
    take pos' buf' = take pos buf @ concat (map name_bytes fs)"
  using assms
proof (induction fs arbitrary: buf pos)
  case Nil
  then show ?case by simp
next
  case (Cons f fs)
  obtain sz where sz: "grow_buffer_size (pos + (length f + 1) + 4) (length buf) = Some sz"
    "pos + (length f + 1) + 4 < sz" "length buf \<le> sz"
    using grow_buffer_size_returns [OF Cons.prems(1)] by blast
  define big where "big = buf @ replicate (sz - length buf) NUL"
  have big: "length big = sz" "take pos big = take pos buf"
    using sz(3) Cons.prems(2) by (simp_all add: big_def)
  define b1 where "b1 = take pos big @ put_u32 (length f + 1) @ drop (pos + 4) big"
  define b2 where "b2 = take pos big @ name_bytes f @ drop (pos + 4 + (length f + 1)) big"
  have p1: "buf_put big pos (put_u32 (length f + 1)) = Some b1"
    using big sz(2) by (simp add: buf_put_def b1_def)
  have p2: "buf_put b1 (pos + 4) (cstr f) = Some b2"
    using big sz Cons.prems(2) by (simp add: buf_put_def b1_def b2_def name_bytes_def add.left_commute)
  have l2: "length b2 = sz" "take (pos + 4 + (length f + 1)) b2 = take pos buf @ name_bytes f"
    using big sz(2) Cons.prems(2) by (simp_all add: b2_def name_bytes_def)
  from Cons.IH [of b2 "pos + 4 + (length f + 1)"] obtain buf' pos' where
    "encode_names fs b2 (pos + 4 + (length f + 1)) = Some (buf', pos')"
    "take pos' buf' = take (pos + 4 + (length f + 1)) b2 @ concat (map name_bytes fs)"
    using l2 sz Cons.prems by auto
  with Cons.prems(3) sz(1) p1 p2 l2(2) show ?case by (simp add: big_def)
qed

lemma copy_name_eq:
  assumes "length str = MAX_PATH_LEN + 1" and "length f \<le> MAX_PATH_LEN" and "nul_free f"
    and "drop pos buffer = cstr f @ rest"
  shows "\<exists>str'. copy_name str buffer pos (int (length f) + 1) = Some (str', f) \<and> length str' = MAX_PATH_LEN + 1"
proof -
  have len: "length buffer \<ge> pos + (length f + 1)"
  proof -
    have "length (drop pos buffer) = length f + 1 + length rest" by (simp add: assms(4))
    then show ?thesis by simp
  qed
  define str1 where "str1 = cstr f @ drop (length f + 1) str"
  have "nat (int (length f) + 1) = length f + 1" by simp
  then have "buf_put str 0 (take (nat (int (length f) + 1)) (drop pos buffer)) = Some str1"
    using assms by (simp add: buf_put_def str1_def)
  moreover have "c_str (str1[MAX_PATH_LEN := NUL]) = f"
  proof (cases "length f = MAX_PATH_LEN")
    case True
    then have "str1[MAX_PATH_LEN := NUL] = cstr f @ drop (length f + 1) str"
      by (simp add: str1_def cstr_def list_update_append)
    with assms(3) show ?thesis by (simp add: c_str_cstr)
  next
    case False
    with assms(2) have "str1[MAX_PATH_LEN := NUL] = cstr f @ (drop (length f + 1) str)[MAX_PATH_LEN - (length f + 1) := NUL]"
      by (simp add: str1_def list_update_append)
    with assms(3) show ?thesis by (simp add: c_str_cstr)
  qed
  ultimately show ?thesis
    using len assms(1,2) by (simp add: copy_name_def str1_def)
qed

definition name_ok :: "string \<Rightarrow> bool" where
  "name_ok f \<longleftrightarrow> f \<noteq> [] \<and> nul_free f \<and> length f \<le> MAX_PATH_LEN"

lemma put_u32_i32: "n < 2 ^ 31 \<Longrightarrow> put_u32 n = put_i32 (int n)"
  by (simp add: put_u32_def put_i32_def)

lemma name_bytes_i32:
  assumes "length f \<le> MAX_PATH_LEN"
  shows "name_bytes f = put_i32 (int (length f) + 1) @ cstr f"
proof -
  have "int (length f + 1) = int (length f) + 1" by simp
  with put_u32_i32 [of "length f + 1"] assms show ?thesis by (simp only: name_bytes_def) simp
qed

lemma decode_names_eq:
  assumes "\<forall>f \<in> set fs. name_ok f" and "length str = MAX_PATH_LEN + 1"
    and "drop pos buffer = concat (map name_bytes fs)" and "pos \<le> length buffer"
  shows "decode_names buffer pos str d c = addFiles c d fs"
  using assms
proof (induction fs arbitrary: pos str c)
  case Nil
  then show ?case by (subst decode_names.simps) simp
next
  case (Cons f fs)
  let ?rest = "concat (map name_bytes fs)"
  have f: "f \<noteq> []" "nul_free f" "length f \<le> MAX_PATH_LEN" using Cons.prems(1) by (simp_all add: name_ok_def)
  have dr: "drop pos buffer = put_i32 (int (length f) + 1) @ cstr f @ ?rest"
    using Cons.prems(3) name_bytes_i32 [OF f(3)] by simp
  have dr4: "drop (pos + 4) buffer = cstr f @ ?rest"
  proof -
    have "drop (pos + 4) buffer = drop 4 (drop pos buffer)" by (simp add: add.commute)
    then show ?thesis unfolding dr by simp
  qed
  have len: "length buffer = pos + 4 + (length f + 1) + length ?rest"
  proof -
    have "length (drop pos buffer) = 4 + (length f + 1) + length ?rest" unfolding dr by simp
    then show ?thesis using Cons.prems(4) by simp
  qed
  have fl: "get_i32 (drop pos buffer) = int (length f) + 1"
    unfolding dr using f(3) by (intro get_put_i32) simp_all
  obtain str' where str': "copy_name str buffer (pos + 4) (int (length f) + 1) = Some (str', f)"
    "length str' = MAX_PATH_LEN + 1"
    using copy_name_eq [OF Cons.prems(2) f(3,2) dr4] by blast
  have "drop (pos + 4 + (length f + 1)) buffer = drop (length f + 1) (drop (pos + 4) buffer)"
    by (simp add: add.commute add.left_commute)
  then have "drop (pos + 4 + (length f + 1)) buffer = ?rest" unfolding dr4 by simp
  then have "decode_names buffer (pos + 4 + (length f + 1)) str' d c' = addFiles c' d fs" for c'
    using Cons.prems(1) str'(2) len by (intro Cons.IH) simp_all
  moreover have "nat (int (length f) + 1) = length f + 1" by simp
  ultimately show ?case
    using fl str'(1) len f(3)
    by (subst decode_names.simps) (simp add: Let_def del: add_Suc_right split: option.split)
qed

lemma encodeDirContents_eq:
  assumes "c (dir_key d) = Some de" and "length d + 5 < INITIAL_BUFFER_SIZE"
    and "\<forall>k \<in> set (direntries de). snd k \<noteq> []"
  shows "ldcs_cache_encodeDirContents c d = Some (name_bytes d @ concat (map (name_bytes \<circ> snd) (direntries de)))"
proof -
  let ?b0 = "replicate INITIAL_BUFFER_SIZE NUL"
  let ?b1 = "put_u32 (length d + 1) @ drop 4 ?b0"
  let ?b2 = "name_bytes d @ drop (length d + 5) ?b0"
  have p1: "buf_put ?b0 0 (put_u32 (length d + 1)) = Some ?b1" by (simp add: buf_put_def)
  have p2: "buf_put ?b1 4 (cstr d) = Some ?b2"
    using assms(2) by (simp add: buf_put_def name_bytes_def)
  obtain buf pos where e: "encode_names (map snd (direntries de)) ?b2 (4 + (length d + 1)) = Some (buf, pos)"
    "take pos buf = take (4 + (length d + 1)) ?b2 @ concat (map name_bytes (map snd (direntries de)))"
    using encode_names_eq [of ?b2 "4 + (length d + 1)" "map snd (direntries de)"] assms(2,3)
    by (auto simp: name_bytes_def)
  have "take (4 + (length d + 1)) ?b2 = name_bytes d" by (simp add: name_bytes_def)
  with e assms(1,2) p1 p2 show ?thesis
    by (simp add: ldcs_cache_encodeDirContents_def)
qed

lemma decodeDirContents_eq:
  assumes "nul_free d" and "length d < MAX_PATH_LEN" and "\<forall>f \<in> set fs. name_ok f"
  shows "ldcs_cache_decodeDirContents r (name_bytes d @ concat (map name_bytes fs)) =
    map_option (Pair d) (addFiles (addDirectory r d (fs \<noteq> [])) d fs)"
proof -
  let ?rest = "concat (map name_bytes fs)"
  let ?pkt = "name_bytes d @ ?rest"
  have g: "get_i32 ?pkt = int (length d) + 1"
    using assms(2) get_put_i32 [of "int (length d) + 1" "cstr d @ ?rest"] name_bytes_i32 [of d] by simp
  have d4: "drop 4 ?pkt = cstr d @ ?rest" by (simp add: name_bytes_def)
  from copy_name_eq [of "replicate (MAX_PATH_LEN + 1) NUL" d, OF _ _ assms(1) d4] assms(2) obtain str where
    str: "copy_name (replicate (MAX_PATH_LEN + 1) NUL) ?pkt 4 (int (length d) + 1) = Some (str, d)"
    "length str = MAX_PATH_LEN + 1" by auto
  have ne: "(4 + (length d + 1) < length ?pkt) = (fs \<noteq> [])"
    by (cases fs) (simp_all add: name_bytes_def)
  have "decode_names ?pkt (4 + (length d + 1)) str d c = addFiles c d fs" for c
    using assms(3) str(2) by (intro decode_names_eq) (simp_all add: name_bytes_def)
  moreover have "nat (int (length d) + 1) = length d + 1" by simp
  ultimately show ?thesis
    using g str(1) ne assms(2)
    by (cases "addFiles (addDirectory r d (fs \<noteq> [])) d fs")
      (simp_all add: ldcs_cache_decodeDirContents_def Let_def name_bytes_def [of d]
        del: One_nat_def add_Suc_right)
qed



section \<open>Histories of the cache\<close>

datatype cache_op =
    Op_process string
  | Op_decode "byte list"
  | Op_addFileDir string string
  | Op_updateAlias string string string
  | Op_updateReplication string string bool
  | Op_updateErrcode string string int
  | Op_updateBuffer string string "string option" "byte list option" nat int bool

fun cache_step :: "dirs_t \<Rightarrow> cache_t \<Rightarrow> cache_op \<Rightarrow> cache_t option" where
  "cache_step disk c (Op_process d) = map_option snd (ldcs_cache_processDirectory disk c d)"
| "cache_step disk c (Op_decode pkt) = map_option snd (ldcs_cache_decodeDirContents c pkt)"
| "cache_step disk c (Op_addFileDir d f) = ldcs_cache_addFileDir c d f"
| "cache_step disk c (Op_updateAlias f d a) = Some (snd (ldcs_cache_updateAlias c f d a))"
| "cache_step disk c (Op_updateReplication f d b) = Some (snd (ldcs_cache_updateReplication c f d b))"
| "cache_step disk c (Op_updateErrcode f d err) = Some (snd (ldcs_cache_updateErrcode c f d err))"
| "cache_step disk c (Op_updateBuffer f d l b n err str) = Some (snd (ldcs_cache_updateBuffer c f d l b n err str))"

text \<open>Operations as the server issues them: file names are not empty.\<close>

fun cache_op_ok :: "dirs_t \<Rightarrow> cache_op \<Rightarrow> bool" where
  "cache_op_ok disk (Op_process d) = (\<forall>dents. disk d = Some dents \<longrightarrow> (\<forall>n \<in> set dents. fst n \<noteq> []))"
| "cache_op_ok disk (Op_decode pkt) = (\<exists>d fs. nul_free d \<and> length d < MAX_PATH_LEN \<and> (\<forall>f \<in> set fs. name_ok f) \<and>
      pkt = name_bytes d @ concat (map name_bytes fs))"
| "cache_op_ok disk (Op_addFileDir d f) = (f \<noteq> [])"
| "cache_op_ok disk (Op_updateAlias f d a) = (f \<noteq> [])"
| "cache_op_ok disk (Op_updateReplication f d b) = (f \<noteq> [])"
| "cache_op_ok disk (Op_updateErrcode f d err) = (f \<noteq> [])"
| "cache_op_ok disk (Op_updateBuffer f d l b n err str) = (f \<noteq> [])"

inductive cache_reach :: "dirs_t \<Rightarrow> cache_t \<Rightarrow> bool" for disk where
  init: "cache_reach disk Map.empty"
| step: "cache_reach disk c \<Longrightarrow> cache_op_ok disk op \<Longrightarrow> cache_step disk c op = Some c' \<Longrightarrow> cache_reach disk c'"

lemma cache_step_ok:
  assumes "cache_ok c" and "cache_op_ok disk op" and "cache_step disk c op = Some c'"
  shows "cache_ok c'"
proof (cases op)
  case (Op_decode pkt)
  with assms(2) obtain d fs where p: "nul_free d" "length d < MAX_PATH_LEN" "\<forall>f \<in> set fs. name_ok f"
    "pkt = name_bytes d @ concat (map name_bytes fs)" by auto
  with Op_decode assms(3) have "addFiles (addDirectory c d (fs \<noteq> [])) d fs = Some c'"
    by (auto simp: decodeDirContents_eq)
  moreover have "\<forall>f \<in> set fs. f \<noteq> []" using p(3) by (simp add: name_ok_def)
  ultimately show ?thesis using addFiles_ok [OF addDirectory_ok [OF assms(1)]] by blast
qed (use assms cache_updates_ok [OF assms(1)] in
  \<open>auto simp: ldcs_cache_addFileDir_def dest: addFile_ok processDirectory_ok\<close>)

text \<open>C13. In every cache the server can build, a file is known exactly if its directory
  lists it, no listing names a file twice, and a file with a cached error has no local
  copy: a lookup never returns a path together with an error.\<close>

theorem cache_consistent:
  assumes "cache_reach disk c" and "f \<noteq> []"
  shows "(c (d, f) \<noteq> None \<longleftrightarrow> (\<exists>de. c (dir_key d) = Some de \<and> (d, f) \<in> set (direntries de))) \<and>
    (\<forall>de. c (dir_key d) = Some de \<longrightarrow> distinct (direntries de)) \<and>
    (\<forall>path err. ldcs_cache_findFileDirInCache c f d objt = (LDCS_CACHE_FILE_FOUND, Some path, err) \<longrightarrow> err = 0)"
proof -
  have ok: "cache_ok c" using assms(1) by induction (auto simp: cache_ok_empty intro: cache_step_ok)
  have "err = 0" if "ldcs_cache_findFileDirInCache c f d objt = (LDCS_CACHE_FILE_FOUND, Some path, err)" for path err
    using that cache_okD(4) [OF ok, of d f] assms(2)
    by (cases objt) (auto simp: ldcs_cache_findFileDirInCache_def select_contents_def Let_def split: option.splits if_splits)
  then show ?thesis using cache_okD(2,5) [OF ok] assms(2) by blast
qed

theorem cache_consistent_witness:
  "\<exists>c. cache_step (\<lambda>_. Some [(''a'', DT_REG)]) Map.empty (Op_process ''/lib'') = Some c \<and>
     c (''/lib'', ''a'') \<noteq> None \<and> (\<exists>de. c (dir_key ''/lib'') = Some de \<and> (''/lib'', ''a'') \<in> set (direntries de))"
proof -
  obtain c where c: "cache_step (\<lambda>_. Some [(''a'', DT_REG)]) Map.empty (Op_process ''/lib'') = Some c"
    "c (''/lib'', ''a'') \<noteq> None"
    by (simp add: ldcs_cache_processDirectory_def lsAndCacheFiles_def addDirectory_def addFile_def Let_def)
  have "cache_reach (\<lambda>_. Some [(''a'', DT_REG)]) c"
    by (rule cache_reach.step [OF cache_reach.init _ c(1)]) simp
  from cache_consistent [OF this, of "''a''" "''/lib''"] c show ?thesis by auto
qed

end
