(* ===== verification/Pathfn.thy ===== *)
theory Pathfn
  imports Spindle_Prelude
begin

text \<open>
  Splitting and normalising path names (\<open>utils/pathfn.c\<close>). Every query the server
  gets goes through one of these functions before it is looked up in the cache.

  Strings are the characters before the NUL. The C functions work in buffers of
  \<open>MAX_PATH_LEN\<close> bytes; where a function does not check the size, \<^const>\<open>None\<close> is the
  write beyond the buffer (or the read of an uninitialised one).
\<close>

abbreviation SLASH :: char where
  "SLASH \<equiv> CHR 0x2F"

section \<open>The operations\<close>

text \<open>\<open>strrchr(name, '/')\<close>: what precedes and what follows the last slash.\<close>

definition after_last_slash :: "string \<Rightarrow> string" where
  "after_last_slash name = rev (takeWhile (\<lambda>c. c \<noteq> SLASH) (rev name))"

definition before_last_slash :: "string \<Rightarrow> string" where
  "before_last_slash name = rev (tl (dropWhile (\<lambda>c. c \<noteq> SLASH) (rev name)))"

definition parseFilenameNoAlloc :: "string \<Rightarrow> nat \<Rightarrow> string \<times> string" where
  "parseFilenameNoAlloc name result_size =
     (if SLASH \<in> set name then
        (let file = take (result_size - 1) (after_last_slash name);
             sz = length (before_last_slash name);
             sz = (if sz \<ge> result_size then result_size - 1 else sz);
             dir = take sz name
         in (file, if sz = 0 \<and> before_last_slash name = [] then [SLASH] else dir))
      else (take (result_size - 1) name, []))"

text \<open>The working directory of a process comes from \<open>readlink("/proc/<pid>/cwd")\<close>;
  \<^const>\<open>None\<close> is its failure.\<close>

definition addCWDToDir :: "string option \<Rightarrow> string \<Rightarrow> nat \<Rightarrow> string option" where
  "addCWDToDir proc_cwd dir result_size =
     (if dir \<noteq> [] \<and> hd dir = SLASH then Some dir
      else
        let cwd = (case proc_cwd of None \<Rightarrow> [] | Some c \<Rightarrow> take MAX_PATH_LEN c)
        in if cwd = [] then Some dir
           else
             let cwd_len = (if last cwd = SLASH then length cwd - 1 else length cwd)
             in if length dir + cwd_len + 1 \<ge> result_size then None
                else if dir = [] then Some (take cwd_len cwd)
                else Some (take (result_size - 1) (cwd @ [SLASH] @ dir)))"

text \<open>One round of \<open>reducePath\<close> per path component. The first character of the
  remaining string is taken to be the slash, whatever it is. \<open>tmpdir\<close> is the text
  copied so far, \<^const>\<open>None\<close> as long as nothing has been written to the buffer.\<close>

function reducePath_loop :: "string \<Rightarrow> string option \<Rightarrow> string option option" where
  "reducePath_loop [] tmpdir = Some tmpdir"
| "reducePath_loop (c # dir) tmpdir =
     (let comp = takeWhile (\<lambda>x. x \<noteq> SLASH) dir;
          rest = dropWhile (\<lambda>x. x \<noteq> SLASH) dir
      in if comp = [] then reducePath_loop rest tmpdir
         else if comp = ''.'' then reducePath_loop rest tmpdir
         else if comp = ''..'' then
           (case tmpdir of
              None \<Rightarrow> None
            | Some [] \<Rightarrow> None
            | Some t \<Rightarrow> reducePath_loop rest
                (Some (if SLASH \<in> set t then before_last_slash t else [])))
         else reducePath_loop rest (Some (case_option [] id tmpdir @ c # comp)))"
  by pat_completeness auto
termination
  by (relation "measure (length \<circ> fst)") (auto simp: le_imp_less_Suc length_dropWhile_le)

datatype reduce_result = Reduced string | Reduce_Error | Uninitialised

definition reducePath :: "string \<Rightarrow> reduce_result" where
  "reducePath dir =
     (if dir = [SLASH] then Reduced dir
      else case reducePath_loop dir None of
        None \<Rightarrow> Reduce_Error
      | Some None \<Rightarrow> (if dir = [] then Reduced [] else Uninitialised)
      | Some (Some tmpdir) \<Rightarrow> Reduced (take (length dir) tmpdir))"

definition concatStrings :: "string \<Rightarrow> nat \<Rightarrow> string option \<Rightarrow> nat \<Rightarrow> string" where
  "concatStrings str1 str1_len str2 str2_len =
     take str1_len str1 @ (case str2 of None \<Rightarrow> [] | Some s \<Rightarrow> take str2_len s)"

definition addCWD :: "string option \<Rightarrow> string \<Rightarrow> nat \<Rightarrow> string option" where
  "addCWD proc_cwd dir result_size =
     (if dir \<noteq> [] \<and> hd dir = SLASH then Some []
      else map_option (take (result_size - 1)) proc_cwd)"

text \<open>The loop of \<open>parseFilenameNoAlloc2\<close>: each component of the name other than
  \<open>.\<close> is appended to \<open>dir\<close>, with a slash. The component is also copied to a local
  buffer of \<open>MAX_PATH_LEN\<close> bytes.\<close>

lemma component_shorter:
  assumes "x \<in> set name" and "x \<noteq> SLASH"
  shows "length (dropWhile (\<lambda>c. c \<noteq> SLASH) (dropWhile (\<lambda>c. c = SLASH) name)) < length name"
  using assms
proof (induction name)
  case (Cons c name)
  then show ?case by (auto simp: le_imp_less_Suc length_dropWhile_le less_SucI)
qed simp

function parse2_loop :: "string \<Rightarrow> string \<Rightarrow> nat \<Rightarrow> string option" where
  "parse2_loop name dir result_size =
     (let name' = dropWhile (\<lambda>c. c = SLASH) name
      in if name' = [] then Some dir
         else
           let path_component = takeWhile (\<lambda>c. c \<noteq> SLASH) name';
               rest = dropWhile (\<lambda>c. c \<noteq> SLASH) name'
           in if length path_component \<ge> MAX_PATH_LEN then None
              else if path_component = ''.'' then parse2_loop rest dir result_size
              else if length dir + length path_component + 1 \<ge> result_size then None
              else parse2_loop rest (dir @ path_component @ [SLASH]) result_size)"
  by pat_completeness auto
termination
  by (relation "measure (\<lambda>(name, _, _). length name)") (auto simp: component_shorter)

declare parse2_loop.simps [simp del]

datatype parse_result = Parsed string string | No_CWD | Overflow

definition parseFilenameNoAlloc2 :: "string \<Rightarrow> nat \<Rightarrow> string option \<Rightarrow> parse_result" where
  "parseFilenameNoAlloc2 name result_size proc_cwd =
     (let is_absolute = (name \<noteq> [] \<and> hd name = SLASH);
          dir0 = (if is_absolute then Some [SLASH]
                  else map_option (\<lambda>d. if length d > 1 \<and> last d \<noteq> SLASH then d @ [SLASH] else d)
                         (addCWD proc_cwd name result_size))
      in case dir0 of
           None \<Rightarrow> No_CWD
         | Some d0 \<Rightarrow>
             (case parse2_loop name d0 result_size of
                None \<Rightarrow> Overflow
              | Some d1 \<Rightarrow>
                  (let d = (if length d1 > 1 \<and> last d1 = SLASH then butlast d1 else d1)
                   in if SLASH \<in> set (tl d)
                      then Parsed (after_last_slash d) (before_last_slash d)
                      else Parsed (tl d) (take 1 d))))"

section \<open>Paths as lists of components\<close>

text \<open>The absolute path with the given components, and the components of a path.\<close>

definition abs_path :: "string list \<Rightarrow> string" where
  "abs_path comps = concat (map (\<lambda>s. SLASH # s) comps)"

definition comps_ok :: "string list \<Rightarrow> bool" where
  "comps_ok comps \<longleftrightarrow> (\<forall>s \<in> set comps. SLASH \<notin> set s)"

function components :: "string \<Rightarrow> string list" where
  "components name =
     (let name' = dropWhile (\<lambda>c. c = SLASH) name
      in if name' = [] then []
         else takeWhile (\<lambda>c. c \<noteq> SLASH) name' # components (dropWhile (\<lambda>c. c \<noteq> SLASH) name'))"
  by pat_completeness auto
termination
  by (relation "measure length") (auto simp: component_shorter)

declare components.simps [simp del]

text \<open>The normal form: \<open>.\<close> and empty components vanish, \<open>..\<close> removes the component
  before it and is an error at the root.\<close>

fun resolve :: "string list \<Rightarrow> string list \<Rightarrow> string list option" where
  "resolve [] stk = Some (rev stk)"
| "resolve (c # cs) stk =
     (if c = [] \<or> c = ''.'' then resolve cs stk
      else if c = ''..'' then (case stk of [] \<Rightarrow> None | _ # stk' \<Rightarrow> resolve cs stk')
      else resolve cs (c # stk))"

lemma abs_path_simps [simp]:
  "abs_path [] = []"
  "abs_path (c # cs) = SLASH # c @ abs_path cs"
  "abs_path (cs @ ds) = abs_path cs @ abs_path ds"
  by (simp_all add: abs_path_def)

lemma comps_ok_simps [simp]:
  "comps_ok []"
  "comps_ok (c # cs) \<longleftrightarrow> SLASH \<notin> set c \<and> comps_ok cs"
  "comps_ok (cs @ ds) \<longleftrightarrow> comps_ok cs \<and> comps_ok ds"
  by (auto simp: comps_ok_def)

lemma abs_path_start: "abs_path cs = [] \<or> hd (abs_path cs) = SLASH"
  by (cases cs) auto

lemma split_component:
  assumes "SLASH \<notin> set c" and "rest = [] \<or> hd rest = SLASH"
  shows "takeWhile (\<lambda>x. x \<noteq> SLASH) (c @ rest) = c"
    and "dropWhile (\<lambda>x. x \<noteq> SLASH) (c @ rest) = rest"
  using assms by (induction c; cases rest; auto)+

lemma last_slash_append:
  assumes "SLASH \<notin> set c"
  shows "after_last_slash (d @ SLASH # c) = c" and "before_last_slash (d @ SLASH # c) = d"
proof -
  have "takeWhile (\<lambda>x. x \<noteq> SLASH) (rev c @ SLASH # rev d) = rev c"
    and "dropWhile (\<lambda>x. x \<noteq> SLASH) (rev c @ SLASH # rev d) = SLASH # rev d"
    using assms split_component [of "rev c" "SLASH # rev d"] by simp_all
  then show "after_last_slash (d @ SLASH # c) = c" and "before_last_slash (d @ SLASH # c) = d"
    by (simp_all add: after_last_slash_def before_last_slash_def)
qed

lemma last_slash_decomp:
  assumes "SLASH \<in> set name"
  shows "name = before_last_slash name @ SLASH # after_last_slash name"
    and "SLASH \<notin> set (after_last_slash name)"
proof -
  obtain d c where "name = d @ SLASH # c" and "SLASH \<notin> set c"
    using assms split_list_last by metis
  then show "name = before_last_slash name @ SLASH # after_last_slash name"
    and "SLASH \<notin> set (after_last_slash name)"
    by (simp_all add: last_slash_append)
qed

section \<open>Splitting a path\<close>

lemma parseFilenameNoAlloc_fits:
  assumes "length name < n" and "1 < n"
  shows "parseFilenameNoAlloc name n =
    (if SLASH \<in> set name
     then (after_last_slash name, if before_last_slash name = [] then [SLASH] else before_last_slash name)
     else (name, []))"
proof (cases "SLASH \<in> set name")
  case True
  note d = last_slash_decomp(1) [OF True]
  have "length name = length (before_last_slash name) + 1 + length (after_last_slash name)"
    by (subst d) simp
  moreover have "take (length (before_last_slash name)) name = before_last_slash name"
    by (subst (2) d) simp
  ultimately show ?thesis using True assms
    by (simp add: parseFilenameNoAlloc_def Let_def)
next
  case False
  then show ?thesis using assms by (simp add: parseFilenameNoAlloc_def)
qed

lemma parseFilenameNoAlloc_bounds:
  assumes "parseFilenameNoAlloc name n = (file, dir)" and "1 < n"
  shows "length file < n" and "length dir < n"
  using assms by (auto simp: parseFilenameNoAlloc_def Let_def min_def split: if_splits)

section \<open>Removing dots\<close>

lemma reducePath_loop_step:
  assumes "SLASH \<notin> set c"
  shows "reducePath_loop (SLASH # c @ abs_path cs) t =
    (if c = [] \<or> c = ''.'' then reducePath_loop (abs_path cs) t
     else if c = ''..'' then
       (case t of None \<Rightarrow> None | Some [] \<Rightarrow> None
        | Some u \<Rightarrow> reducePath_loop (abs_path cs) (Some (if SLASH \<in> set u then before_last_slash u else [])))
     else reducePath_loop (abs_path cs) (Some (case_option [] id t @ SLASH # c)))"
  using split_component [OF assms abs_path_start] by (simp add: Let_def)

declare reducePath_loop.simps(2) [simp del]

lemma reducePath_loop_up:
  assumes "SLASH \<notin> set s"
  shows "reducePath_loop (abs_path (''..'' # cs)) (Some (d @ SLASH # s)) = reducePath_loop (abs_path cs) (Some d)"
proof -
  obtain a b where ab: "d @ SLASH # s = a # b" by (cases "d @ SLASH # s") simp_all
  have "SLASH \<in> set (d @ SLASH # s)" by simp
  then show ?thesis
    using reducePath_loop_step [of "''..''" cs "Some (a # b)"] last_slash_append(2) [OF assms, of d]
    by (simp add: ab)
qed

lemma reducePath_loop_resolve:
  assumes "comps_ok cs" and "comps_ok stk" and "case_option [] id t = abs_path (rev stk)"
  shows "map_option (case_option [] id) (reducePath_loop (abs_path cs) t) = map_option abs_path (resolve cs stk)"
  using assms
proof (induction cs arbitrary: stk t)
  case (Cons c cs)
  show ?case
  proof (cases "c = ''..''")
    case True
    show ?thesis
    proof (cases stk)
      case Nil
      then show ?thesis using True Cons.prems reducePath_loop_step [of "''..''" cs t]
        by (auto split: option.splits list.splits)
    next
      case (Cons s stk')
      then have t: "t = Some (abs_path (rev stk') @ SLASH # s)" and s: "SLASH \<notin> set s"
        using Cons.prems by (auto split: option.splits)
      have "reducePath_loop (abs_path (c # cs)) t = reducePath_loop (abs_path cs) (Some (abs_path (rev stk')))"
        using True reducePath_loop_up [OF s] by (simp add: t)
      then show ?thesis using True Cons Cons.prems Cons.IH [of stk' "Some (abs_path (rev stk'))"] by simp
    qed
  next
    case False
    then show ?thesis using Cons.prems Cons.IH [of stk t] Cons.IH [of "c # stk" "Some (case_option [] id t @ SLASH # c)"]
      by (simp add: reducePath_loop_step)
  qed
qed simp

lemma resolve_length:
  "resolve cs stk = Some r \<Longrightarrow> length (abs_path r) \<le> length (abs_path (rev stk)) + length (abs_path cs)"
proof (induction cs arbitrary: stk)
  case (Cons c cs)
  then show ?case by (force split: if_splits list.splits)
qed simp

lemma reducePath_loop_untouched:
  assumes "comps_ok cs"
  shows "reducePath_loop (abs_path cs) None = Some None \<longleftrightarrow> (\<forall>c \<in> set cs. c = [] \<or> c = ''.'')"
proof -
  have written: "reducePath_loop p (Some t) \<noteq> Some None" for p t
  proof (induction p "Some t" arbitrary: t rule: reducePath_loop.induct)
    case (2 c dir)
    then show ?case by (subst reducePath_loop.simps) (simp add: Let_def split: list.splits)
  qed simp
  show ?thesis using assms
    by (induction cs) (auto simp: reducePath_loop_step written)
qed



section \<open>Names as the clients send them\<close>

abbreviation slashed :: "string list \<Rightarrow> string" where
  "slashed cs \<equiv> concat (map (\<lambda>c. c @ [SLASH]) cs)"

definition named_components :: "string \<Rightarrow> string list" where
  "named_components name = filter (\<lambda>c. c \<noteq> ''.'') (components name)"

lemma slashed_abs_path: "SLASH # slashed cs = abs_path cs @ [SLASH]"
  by (induction cs) simp_all

lemma components_no_slash: "comps_ok (components name)"
proof (induction name rule: components.induct)
  case (1 name)
  then show ?case by (subst components.simps) (auto simp: Let_def comps_ok_def dest: set_takeWhileD)
qed

lemma parse2_loop_components:
  assumes "n \<le> MAX_PATH_LEN"
  shows "parse2_loop name dir n =
    (if named_components name = [] \<or> length (dir @ slashed (named_components name)) < n
     then Some (dir @ slashed (named_components name)) else None)"
  using assms
proof (induction name dir n rule: parse2_loop.induct)
  case (1 name dir n)
  define name' where "name' = dropWhile (\<lambda>c. c = SLASH) name"
  define comp where "comp = takeWhile (\<lambda>c. c \<noteq> SLASH) name'"
  define rest where "rest = dropWhile (\<lambda>c. c \<noteq> SLASH) name'"
  note defs = name'_def comp_def rest_def
  have unf: "components name = (if name' = [] then [] else comp # components rest)"
    by (subst components.simps) (simp add: defs Let_def)
  have loop: "parse2_loop name dir n =
    (if name' = [] then Some dir
     else if length comp \<ge> MAX_PATH_LEN then None
     else if comp = ''.'' then parse2_loop rest dir n
     else if length dir + length comp + 1 \<ge> n then None
     else parse2_loop rest (dir @ comp @ [SLASH]) n)"
    by (subst parse2_loop.simps) (simp add: defs Let_def)
  have dot: "comp = ''.'' \<Longrightarrow> length comp < MAX_PATH_LEN" by simp
  show ?case
    using 1(1) [OF name'_def _ comp_def rest_def] 1(2) [OF name'_def _ comp_def rest_def] 1(3) dot
    by (auto simp: loop unf named_components_def not_less)
qed


lemma parse2_split:
  assumes "comps_ok cs"
  shows "(let d1 = abs_path cs @ [SLASH];
              d = (if length d1 > 1 \<and> last d1 = SLASH then butlast d1 else d1)
          in if SLASH \<in> set (tl d) then Parsed (after_last_slash d) (before_last_slash d)
             else Parsed (tl d) (take 1 d)) =
    (if cs = [] then Parsed [] [SLASH]
     else Parsed (last cs) (if butlast cs = [] then [SLASH] else abs_path (butlast cs)))"
proof (cases cs rule: rev_cases)
  case (snoc bs c)
  then have but: "butlast (abs_path cs @ [SLASH]) = abs_path bs @ SLASH # c" and c: "SLASH \<notin> set c"
    and one: "1 < length (abs_path cs @ [SLASH])" "last (abs_path cs @ [SLASH]) = SLASH"
    using assms butlast_snoc [of "abs_path cs" SLASH] by (simp_all del: butlast_append)
  show ?thesis
  proof (cases "bs = []")
    case True
    then show ?thesis using snoc c unfolding Let_def but by simp
  next
    case False
    then have "SLASH \<in> set (tl (abs_path bs @ SLASH # c))" by (cases bs) simp_all
    then show ?thesis using snoc False one unfolding Let_def but by (simp add: last_slash_append [OF c])
  qed
qed simp

text \<open>C28. The name a client sends is split exactly: with the components of the working
  directory in front of a relative name, the file is the last component and the
  directory is the path of the ones before it, with \<open>.\<close> and repeated slashes gone and
  \<open>..\<close> kept. When the absolute name does not fit in \<open>result_size\<close> bytes the function
  writes beyond its buffers instead of failing.\<close>

theorem parseFilenameNoAlloc2_splits:
  assumes "comps_ok ws" and "[] \<notin> set ws" and "length (abs_path ws) + 1 < n" and "n \<le> MAX_PATH_LEN"
    and base: "base = (if name \<noteq> [] \<and> hd name = SLASH then [] else ws)"
  shows "parseFilenameNoAlloc2 name n (Some (if ws = [] then [SLASH] else abs_path ws)) =
    (let cs = base @ named_components name
     in if named_components name \<noteq> [] \<and> length (abs_path cs) + 1 \<ge> n then Overflow
        else if cs = [] then Parsed [] [SLASH]
        else Parsed (last cs) (if butlast cs = [] then [SLASH] else abs_path (butlast cs)))"
proof -
  let ?cwd = "if ws = [] then [SLASH] else abs_path ws"
  let ?cs = "base @ named_components name"
  have ok: "comps_ok ?cs"
    using assms(1) base components_no_slash [of name]
    by (auto simp: named_components_def comps_ok_def)
  have cwd: "(if length ?cwd > 1 \<and> last ?cwd \<noteq> SLASH then ?cwd @ [SLASH] else ?cwd) = abs_path ws @ [SLASH]"
    using assms(1,2) by (cases ws rule: rev_cases) (auto simp: comps_ok_def, (metis last_in_set)+)
  have start: "(if name \<noteq> [] \<and> hd name = SLASH then Some [SLASH]
    else map_option (\<lambda>d. if length d > 1 \<and> last d \<noteq> SLASH then d @ [SLASH] else d) (addCWD (Some ?cwd) name n))
    = Some (SLASH # slashed base)"
  proof (cases "name \<noteq> [] \<and> hd name = SLASH")
    case False
    then have "addCWD (Some ?cwd) name n = Some ?cwd"
      using assms(3) by (auto simp: addCWD_def)
    with False show ?thesis using cwd base by (simp only: option.map slashed_abs_path if_False)
  qed (simp add: base)
  have loop: "parse2_loop name (SLASH # slashed base) n =
    (if named_components name = [] \<or> length (abs_path ?cs) + 1 < n then Some (abs_path ?cs @ [SLASH]) else None)"
    using parse2_loop_components [OF assms(4), of name "SLASH # slashed base"] slashed_abs_path [of ?cs]
    by (simp only: map_append concat_append append_Cons length_append_singleton) simp
  show ?thesis
    unfolding parseFilenameNoAlloc2_def Let_def start option.case loop
    using parse2_split [OF ok, unfolded Let_def] by auto
qed

theorem parseFilenameNoAlloc2_splits_witness:
  "parseFilenameNoAlloc2 ''lib//./libm.so'' 64 (Some ''/home/u'') = Parsed ''libm.so'' ''/home/u/lib''"
  using parseFilenameNoAlloc2_splits [of "[''home'', ''u'']" 64 "[''home'', ''u'']" "''lib//./libm.so''"]
  by (simp add: named_components_def components.simps)

end
