(* ===== verification/Global_Name.thy ===== *)
theory Global_Name
  imports Pathfn
begin

text \<open>
  Names of the local copies (\<open>filemngt_calc_localname\<close> and \<open>ldcs_is_a_cachedfile\<close> in
  \<open>ldcs_audit_server_filemngt.c\<close>) and the way back from a local copy to the file it
  stands for (\<open>cache/global_name.c\<close>).

  A local copy is named \<open><cachepath>/<dir>/<n>-spindlens-<kind>-<file>\<close>; the number \<open>n\<close>
  indexes an array of the original names. \<^const>\<open>None\<close> is a failed assertion, a signed
  overflow, an access outside the array, or a read beyond the end of a string.
\<close>

section \<open>Local names\<close>

record filemngt_t =
  cachepath :: string
  normalized_tmpdir :: string
  unique_str_num :: "32 word"

text \<open>The offset of the part after the cache directory.\<close>

definition ldcs_is_a_cachedfile :: "filemngt_t \<Rightarrow> string \<Rightarrow> nat option" where
  "ldcs_is_a_cachedfile fm filename =
     (if take (length (cachepath fm)) filename = cachepath fm
      then Some (length (cachepath fm) + 1)
      else if take (length (normalized_tmpdir fm)) filename = normalized_tmpdir fm
      then Some (length (normalized_tmpdir fm) + 1)
      else None)"

datatype calc_local_t =
  clt_unknown | clt_stat | clt_lstat | clt_ldso | clt_file | clt_numafile | clt_dso | clt_numadso

fun local_prefix :: "calc_local_t \<Rightarrow> string" where
  "local_prefix clt_unknown = ''spindlens-unknown''"
| "local_prefix clt_stat = ''spindlens-stat''"
| "local_prefix clt_lstat = ''spindlens-lstat''"
| "local_prefix clt_ldso = ''spindlens-ldso''"
| "local_prefix clt_file = ''spindlens-file''"
| "local_prefix clt_dso = ''spindlens-dso''"
| "local_prefix clt_numafile = ''spindlens-numafile-XXXXXX''"
| "local_prefix clt_numadso = ''spindlens-numadso-XXXXXX''"

text \<open>\<open>%x\<close>\<close>

definition hex_char :: "nat \<Rightarrow> char" where
  "hex_char d = ''0123456789abcdef'' ! (d mod 16)"

fun hex_digits :: "nat \<Rightarrow> string" where
  "hex_digits n = (if n < 16 then [hex_char n] else hex_digits (n div 16) @ [hex_char n])"

declare hex_digits.simps [simp del]

definition dash_str :: string where
  "dash_str = ''-''"

text \<open>The directory and file parts; \<open>sizeof(dirpart)\<close> and \<open>sizeof(filepart)\<close> are
  \<open>MAX_PATH_LEN+1\<close>.\<close>

definition split_global :: "string \<Rightarrow> (string \<times> string) option" where
  "split_global global_name =
     (if SLASH \<notin> set global_name then Some (''unknown_path'', take MAX_PATH_LEN global_name)
      else if length (after_last_slash global_name) < MAX_PATH_LEN + 1
            \<and> length (before_last_slash global_name) < MAX_PATH_LEN + 1
      then Some (before_last_slash global_name, after_last_slash global_name)
      else None)"

definition filemngt_calc_localname :: "filemngt_t \<Rightarrow> string \<Rightarrow> calc_local_t \<Rightarrow> (string \<times> filemngt_t) option" where
  "filemngt_calc_localname fm global_name reqtype = do {
     let endslash = (if cachepath fm \<noteq> [] \<and> last (cachepath fm) = SLASH then [] else [SLASH]);
     (dirpart, filepart) \<leftarrow> split_global global_name;
     let filepart = take MAX_PATH_LEN
           (hex_digits (unat (unique_str_num fm)) @ dash_str @ local_prefix reqtype @ dash_str @ filepart);
     let dirpart = (if dirpart \<noteq> [] \<and> hd dirpart = SLASH then tl dirpart else dirpart);
     Some (take MAX_PATH_LEN (cachepath fm @ endslash @ dirpart @ [SLASH] @ filepart),
           fm\<lparr>unique_str_num := unique_str_num fm + 1\<rparr>)
   }"

section \<open>The table of original names\<close>

definition INITIAL_GLOBAL_NAME_ARRAY_SIZE :: nat where
  "INITIAL_GLOBAL_NAME_ARRAY_SIZE = 10 * 1024"

record global_names_t =
  global_name_array :: "string option list"
  hiwat :: nat
  max_index :: nat

definition init_global_name_list :: global_names_t where
  "init_global_name_list =
     \<lparr>global_name_array = replicate INITIAL_GLOBAL_NAME_ARRAY_SIZE None,
      hiwat = (INITIAL_GLOBAL_NAME_ARRAY_SIZE * 8) div 10, max_index = 0\<rparr>"

definition grow_global_name_list :: "global_names_t \<Rightarrow> global_names_t option" where
  "grow_global_name_list g =
     (let newsize = length (global_name_array g) * 2
      in if newsize * 8 \<ge> 2 ^ 31 then None
         else Some (g\<lparr>hiwat := (newsize * 8) div 10,
                      global_name_array := global_name_array g @ replicate (newsize - length (global_name_array g)) None\<rparr>))"

definition isxdigit :: "char \<Rightarrow> bool" where
  "isxdigit c \<longleftrightarrow> c \<in> set ''0123456789abcdefABCDEF''"

definition hex_val :: "char \<Rightarrow> nat" where
  "hex_val c = (let n = of_char c :: nat in
     if n < 58 then n - 48 else if n < 71 then n - 55 else n - 87)"

text \<open>\<open>sscanf(buf, "%x", &val)\<close> on a string of hexadecimal digits: the number, clipped to
  an \<open>unsigned long\<close>, whose low 32 bits are stored.\<close>

definition sscanf_x :: "string \<Rightarrow> int" where
  "sscanf_x buf = signed_take_bit 31 (int (min (2 ^ 64 - 1) (foldl (\<lambda>n c. 16 * n + hex_val c) 0 buf)))"

text \<open>The characters up to the first dash, which must all be digits; a dash at the very
  start is not the end of the number but no digit either.\<close>

fun scan_index :: "nat \<Rightarrow> string \<Rightarrow> string option" where
  "scan_index cnt [] = Some []"
| "scan_index cnt (c # cs) =
     (if c = CHR ''-'' \<and> cnt > 0 then Some []
      else if \<not> isxdigit c then None
      else map_option (Cons c) (scan_index (Suc cnt) cs))"

definition get_global_file_index :: "string \<Rightarrow> int" where
  "get_global_file_index file =
     (if length file \<ge> MAX_PATH_LEN + 1 then -1
      else case scan_index 0 file of
        None \<Rightarrow> -1
      | Some buf \<Rightarrow> if buf = [] then -1 else sscanf_x buf)"

text \<open>\<open>parse_name\<close> yields the directory part (\<^const>\<open>None\<close> when the path is not in the
  cache) and the index (\<open>-1\<close> when it has none). A path that ends where the cache
  directory ends has no character at the offset, not even the NUL.\<close>

definition parse_name :: "filemngt_t \<Rightarrow> global_names_t \<Rightarrow> string \<Rightarrow> (string option \<times> int) option" where
  "parse_name fm g localpath =
     (case ldcs_is_a_cachedfile fm localpath of
        None \<Rightarrow> Some (None, -1)
      | Some off \<Rightarrow>
          if off > length localpath then None
          else
            let off = (if off < length localpath \<and> localpath ! off = SLASH then off else off - 1);
                dname = drop off localpath;
                fname = (if SLASH \<in> set dname then after_last_slash dname else dname);
                dash = dropWhile (\<lambda>c. c \<noteq> CHR ''-'') fname
            in if dash = [] then Some (Some dname, -1)
               else if take 11 dash \<noteq> ''-spindlens-'' then Some (Some dname, -1)
               else
                 let index = get_global_file_index fname
                 in if index < 0 then Some (Some dname, -1)
                    else if index > 10 * int (length (global_name_array g)) then Some (Some dname, -1)
                    else Some (Some dname, index))"

partial_function (option) grow_loop :: "nat \<Rightarrow> global_names_t \<Rightarrow> global_names_t option" where
  "grow_loop index g =
     (if index > hiwat g
      then Option.bind (grow_global_name_list g) (grow_loop index)
      else Some g)"

definition add_global_name :: "filemngt_t \<Rightarrow> global_names_t \<Rightarrow> string \<Rightarrow> string \<Rightarrow> global_names_t option" where
  "add_global_name fm g pathname localpath = do {
     (dname, index) \<leftarrow> parse_name fm g localpath;
     if index = -1 then Some g
     else do {
       let i = nat index;
       g \<leftarrow> grow_loop i g;
       let g = g\<lparr>max_index := max (max_index g) i\<rparr>;
       if i \<ge> length (global_name_array g) then None
       else if global_name_array g ! i \<noteq> None then Some g
       else Some (g\<lparr>global_name_array := (global_name_array g)[i := Some pathname]\<rparr>)
     }
   }"

definition lookup_global_name :: "filemngt_t \<Rightarrow> global_names_t \<Rightarrow> string \<Rightarrow> string option option" where
  "lookup_global_name fm g localpath = do {
     (dname, index) \<leftarrow> parse_name fm g localpath;
     case dname of
       None \<Rightarrow> Some None
     | Some d \<Rightarrow>
         if index \<ge> 0 \<and> nat index \<le> max_index g then
           (if nat index \<ge> length (global_name_array g) then None
            else case global_name_array g ! nat index of
                   Some result \<Rightarrow> Some (Some result)
                 | None \<Rightarrow> Some (Some (take MAX_PATH_LEN d)))
         else Some (Some (take MAX_PATH_LEN d))
   }"

section \<open>Hexadecimal numbers\<close>

lemma hex_char_digit:
  "isxdigit (hex_char d)" "hex_char d \<noteq> CHR ''-''" "hex_char d \<noteq> SLASH" "hex_val (hex_char d) = d mod 16"
proof -
  have "d mod 16 \<in> {0..<16}" by simp
  also have "{0..<16} = set [0..<16]" by simp
  finally have "d mod 16 \<in> set [0..<16]" .
  then have "isxdigit (hex_char d) \<and> hex_char d \<noteq> CHR ''-'' \<and> hex_char d \<noteq> SLASH \<and> hex_val (hex_char d) = d mod 16"
    by (auto simp: hex_char_def upt_rec isxdigit_def hex_val_def)
  then show "isxdigit (hex_char d)" "hex_char d \<noteq> CHR ''-''" "hex_char d \<noteq> SLASH" "hex_val (hex_char d) = d mod 16"
    by blast+
qed

lemma hex_digits_props:
  "hex_digits n \<noteq> [] \<and> (\<forall>c \<in> set (hex_digits n). isxdigit c \<and> c \<noteq> CHR ''-'' \<and> c \<noteq> SLASH)"
proof (induction n rule: hex_digits.induct)
  case (1 n)
  then show ?case by (subst (1 2) hex_digits.simps) (auto simp: hex_char_digit)
qed

lemma hex_digits_value: "foldl (\<lambda>n c. 16 * n + hex_val c) 0 (hex_digits n) = n"
proof (induction n rule: hex_digits.induct)
  case (1 n)
  then show ?case by (subst hex_digits.simps) (auto simp: hex_char_digit)
qed

lemma length_hex_digits: "n < 16 ^ k \<Longrightarrow> 0 < k \<Longrightarrow> length (hex_digits n) \<le> k"
proof (induction n arbitrary: k rule: hex_digits.induct)
  case (1 n)
  show ?case
  proof (cases "n < 16")
    case True
    then show ?thesis using 1(3) by (subst hex_digits.simps) simp
  next
    case False
    with 1(2,3) obtain j where j: "k = Suc j" "0 < j" by (cases k; cases "k - 1") auto
    then have "n div 16 < 16 ^ j" using 1(2) by (simp add: less_mult_imp_div_less mult.commute)
    from 1(1) [OF False this j(2)] False j show ?thesis by (subst hex_digits.simps) simp
  qed
qed

lemma scan_index_digits:
  "\<forall>c \<in> set ds. isxdigit c \<and> c \<noteq> CHR ''-'' \<Longrightarrow> 0 < cnt \<or> ds \<noteq> [] \<Longrightarrow>
   scan_index cnt (ds @ CHR ''-'' # rest) = Some ds"
  by (induction ds arbitrary: cnt) auto

lemma scan_index_hex: "scan_index 0 (hex_digits n @ CHR ''-'' # rest) = Some (hex_digits n)"
  by (rule scan_index_digits) (use hex_digits_props in auto)

lemma sscanf_x_hex: "n < 2 ^ 31 \<Longrightarrow> sscanf_x (hex_digits n) = int n"
  by (simp add: sscanf_x_def hex_digits_value signed_take_bit_int_eq_self)

lemma dash_after_hex: "dropWhile (\<lambda>c. c \<noteq> CHR ''-'') (hex_digits n @ CHR ''-'' # rest) = CHR ''-'' # rest"
  using hex_digits_props [of n] by (simp add: dropWhile_append)

lemma local_prefix_start:
  "take 10 (local_prefix t @ rest) = ''spindlens-''" "SLASH \<notin> set (local_prefix t)" "length (local_prefix t) \<le> 25"
  by (cases t; simp)+

section \<open>Reading a local name back\<close>

text \<open>The path is the local copy with number \<open>i\<close>, for a table large enough for it.\<close>

definition has_index :: "filemngt_t \<Rightarrow> string \<Rightarrow> nat \<Rightarrow> bool" where
  "has_index fm l i \<longleftrightarrow>
     (\<forall>g. i \<le> 10 * length (global_name_array g) \<longrightarrow> (\<exists>d. parse_name fm g l = Some (Some d, int i)))"

lemma last_part_of_suffix:
  assumes "SLASH \<notin> set fp" and "fp \<noteq> []"
    and "l = cp @ es @ dp @ SLASH # fp" and "es = (if cp \<noteq> [] \<and> last cp = SLASH then [] else [SLASH])"
    and "off = (if length cp + 1 < length l \<and> l ! (length cp + 1) = SLASH then length cp + 1 else length cp)"
  shows "after_last_slash (drop off l) = fp \<and> SLASH \<in> set (drop off l)"
proof -
  have "\<exists>pre. drop off l = pre @ SLASH # fp"
  proof (cases "off = length cp + 1 \<and> es = [] \<and> dp = []")
    case True
    then have "l ! (length cp + 1) = SLASH" using assms(5) by (auto split: if_splits)
    moreover have "l ! (length cp + 1) = hd fp" using True assms(2,3) by (simp add: nth_append hd_conv_nth)
    ultimately show ?thesis using assms(1,2) by (cases fp) auto
  next
    case False
    then have "drop off (cp @ es @ dp @ SLASH # fp) = drop (off - length cp) (es @ dp) @ SLASH # fp"
      using assms(5) by (cases es; cases dp) (auto split: if_splits)
    then show ?thesis using assms(3) by auto
  qed
  then show ?thesis using last_slash_append [OF assms(1)] by auto
qed

lemma local_name_has_index:
  assumes "l = cachepath fm @ es @ dp @ SLASH # fp"
    and "es = (if cachepath fm \<noteq> [] \<and> last (cachepath fm) = SLASH then [] else [SLASH])"
    and fp: "fp = hex_digits n @ CHR ''-'' # local_prefix t @ CHR ''-'' # f"
    and "SLASH \<notin> set f" and "n < 2 ^ 31" and "length l \<le> MAX_PATH_LEN"
  shows "has_index fm l n"
  unfolding has_index_def
proof (intro allI impI)
  fix g :: global_names_t
  assume n: "n \<le> 10 * length (global_name_array g)"
  have slash: "SLASH \<notin> set fp" and ne: "fp \<noteq> []"
    using assms(4) hex_digits_props [of n] local_prefix_start [of t] by (auto simp: fp)
  have "0 < length fp" using ne by simp
  have cached: "ldcs_is_a_cachedfile fm l = Some (length (cachepath fm) + 1)"
    by (simp add: ldcs_is_a_cachedfile_def assms(1))
  define off where "off = (if length (cachepath fm) + 1 < length l \<and> l ! (length (cachepath fm) + 1) = SLASH
    then length (cachepath fm) + 1 else length (cachepath fm))"
  note f = last_part_of_suffix [OF slash ne assms(1,2) off_def]
  have inside: "\<not> length (cachepath fm) + 1 > length l" using \<open>0 < length fp\<close> by (simp add: assms(1))
  have idx: "get_global_file_index fp = int n"
    using assms(1,6) hex_digits_props [of n] scan_index_hex [of n] sscanf_x_hex [OF assms(5)]
    by (simp add: get_global_file_index_def fp)
  have off': "(if length (cachepath fm) + 1 < length l \<and> l ! (length (cachepath fm) + 1) = SLASH
    then length (cachepath fm) + 1 else length (cachepath fm) + 1 - 1) = off"
    by (simp add: off_def)
  have "take 11 (CHR ''-'' # local_prefix t @ CHR ''-'' # f) = ''-spindlens-''"
    using local_prefix_start(1) [of t] by (simp add: numeral_eq_Suc)
  then have "take 11 (dropWhile (\<lambda>c. c \<noteq> CHR ''-'') fp) = ''-spindlens-''"
    and "dropWhile (\<lambda>c. c \<noteq> CHR ''-'') fp \<noteq> []"
    by (simp_all add: fp dash_after_hex del: take_Suc_Cons)
  then show "\<exists>d. parse_name fm g l = Some (Some d, int n)"
    using n f inside idx unfolding parse_name_def cached option.case Let_def off' by simp
qed

lemma parse_name_cong:
  assumes "cachepath fm' = cachepath fm" and "normalized_tmpdir fm' = normalized_tmpdir fm"
  shows "parse_name fm' = parse_name fm"
proof -
  have same: "ldcs_is_a_cachedfile fm' = ldcs_is_a_cachedfile fm"
    using assms by (simp add: fun_eq_iff ldcs_is_a_cachedfile_def)
  show ?thesis by (intro ext) (simp only: parse_name_def same)
qed

section \<open>Handing out local names\<close>

text \<open>The server always computes a local name and records it at once
  (\<open>handle_setup_file_buffer\<close>, \<open>handle_cache_metadata\<close>, \<open>handle_cache_ldso\<close>).\<close>

definition new_localname ::
  "filemngt_t \<Rightarrow> global_names_t \<Rightarrow> string \<Rightarrow> calc_local_t \<Rightarrow> (string \<times> filemngt_t \<times> global_names_t) option" where
  "new_localname fm g pathname reqtype = do {
     (l, fm) \<leftarrow> filemngt_calc_localname fm pathname reqtype;
     g \<leftarrow> add_global_name fm g pathname l;
     Some (l, fm, g)
   }"

fun new_localnames ::
  "filemngt_t \<Rightarrow> global_names_t \<Rightarrow> (string \<times> calc_local_t) list \<Rightarrow> (string list \<times> filemngt_t \<times> global_names_t) option" where
  "new_localnames fm g [] = Some ([], fm, g)"
| "new_localnames fm g ((p, t) # ps) = do {
     (l, fm, g) \<leftarrow> new_localname fm g p t;
     (ls, fm, g) \<leftarrow> new_localnames fm g ps;
     Some (l # ls, fm, g)
   }"

definition name_fits :: "filemngt_t \<Rightarrow> string \<Rightarrow> bool" where
  "name_fits fm p \<longleftrightarrow> length (cachepath fm) + length p + 60 \<le> MAX_PATH_LEN"

text \<open>The table holds exactly the names handed out so far, and has room for the next.\<close>

definition names_inv :: "string list \<Rightarrow> filemngt_t \<Rightarrow> global_names_t \<Rightarrow> bool" where
  "names_inv hist fm g \<longleftrightarrow>
     unat (unique_str_num fm) = length hist
     \<and> (\<exists>k \<le> 14. length (global_name_array g) = 10240 * 2 ^ k \<and> hiwat g = 8192 * 2 ^ k)
     \<and> length hist \<le> hiwat g + 1
     \<and> take (length hist) (global_name_array g) = map Some hist
     \<and> (\<forall>i \<ge> length hist. i < length (global_name_array g) \<longrightarrow> global_name_array g ! i = None)
     \<and> max_index g = length hist - 1"

lemma names_inv_init:
  "unique_str_num fm = 0 \<Longrightarrow> names_inv [] fm init_global_name_list"
  by (auto simp: names_inv_def init_global_name_list_def INITIAL_GLOBAL_NAME_ARRAY_SIZE_def intro: exI [of _ 0])

lemma calc_localname_step:
  assumes "name_fits fm p" and "unat (unique_str_num fm) = n" and "n < 2 ^ 27"
  shows "\<exists>l. filemngt_calc_localname fm p t = Some (l, fm\<lparr>unique_str_num := unique_str_num fm + 1\<rparr>)
    \<and> has_index fm l n"
proof -
  have parts: "\<exists>dp f. split_global p = Some (dp, f) \<and> SLASH \<notin> set f \<and> length dp + length f \<le> length p + 12"
  proof (cases "SLASH \<in> set p")
    case True
    have "length p = length (before_last_slash p) + 1 + length (after_last_slash p)"
      by (subst last_slash_decomp(1) [OF True]) simp
    then show ?thesis using True assms(1) last_slash_decomp(2) [OF True]
      by (auto simp: split_global_def name_fits_def)
  next
    case False
    then show ?thesis by (auto simp: split_global_def dest: in_set_takeD)
  qed
  then obtain dp f where p: "split_global p = Some (dp, f)" "SLASH \<notin> set f" "length dp + length f \<le> length p + 12"
    by blast
  define dq where "dq = (if dp \<noteq> [] \<and> hd dp = SLASH then tl dp else dp)"
  define es where "es = (if cachepath fm \<noteq> [] \<and> last (cachepath fm) = SLASH then [] else [SLASH])"
  define fp where "fp = hex_digits n @ CHR ''-'' # local_prefix t @ CHR ''-'' # f"
  define l where "l = cachepath fm @ es @ dq @ SLASH # fp"
  have "length (hex_digits n) \<le> 7"
    using length_hex_digits [of n 7] assms(3) by simp
  then have len: "length l \<le> MAX_PATH_LEN"
    using assms(1) p(3) local_prefix_start(3) [of t]
    by (auto simp: l_def es_def dq_def fp_def name_fits_def)
  moreover have "length fp \<le> length l" by (simp add: l_def)
  ultimately have "take MAX_PATH_LEN fp = fp" and "take MAX_PATH_LEN l = l" by simp_all
  then have "filemngt_calc_localname fm p t = Some (l, fm\<lparr>unique_str_num := unique_str_num fm + 1\<rparr>)"
    by (simp del: take_append add: filemngt_calc_localname_def p(1) assms(2) dash_str_def fp_def [symmetric]
        dq_def [symmetric] es_def [symmetric] l_def [symmetric] Let_def)
  moreover have "has_index fm l n"
    by (rule local_name_has_index [OF l_def es_def fp_def p(2) _ len]) (use assms(3) in simp)
  ultimately show ?thesis by blast
qed

lemma hiwat_in_range:
  assumes "names_inv hist fm g"
  shows "hiwat g < length (global_name_array g)"
proof -
  obtain k where "length (global_name_array g) = 10240 * 2 ^ k" "hiwat g = 8192 * 2 ^ k"
    using assms by (auto simp: names_inv_def)
  moreover have "(0::nat) < 2 ^ k" by simp
  ultimately show ?thesis by linarith
qed

lemma grow_loop_next:
  assumes "names_inv hist fm g" and "length hist < 2 ^ 27"
  shows "\<exists>g'. grow_loop (length hist) g = Some g' \<and> names_inv hist fm g' \<and> length hist \<le> hiwat g'"
proof (cases "length hist \<le> hiwat g")
  case True
  then show ?thesis using assms(1) by (subst grow_loop.simps) simp
next
  case False
  obtain k where k: "k \<le> 14" "length (global_name_array g) = 10240 * 2 ^ k" "hiwat g = 8192 * 2 ^ k"
    using assms(1) by (auto simp: names_inv_def)
  have "k \<noteq> 14" using False assms(2) k(3) by auto
  then have k': "Suc k \<le> 14" using k(1) by simp
  then have "(2::nat) ^ k \<le> 2 ^ 13" by (intro power_increasing) simp_all
  then have size: "length (global_name_array g) * 2 * 8 < 2 ^ 31" by (simp add: k(2))
  define g' where "g' = g\<lparr>hiwat := 8192 * 2 ^ Suc k,
    global_name_array := global_name_array g @ replicate (10240 * 2 ^ k) None\<rparr>"
  have grow: "grow_global_name_list g = Some g'"
    using size by (simp add: grow_global_name_list_def Let_def k g'_def)
  have hist: "length hist = hiwat g + 1" using False assms(1) by (simp add: names_inv_def)
  then have room: "length hist \<le> hiwat g'" by (simp add: g'_def k)
  then have "grow_loop (length hist) g = Some g'"
    using False grow by (subst grow_loop.simps) (simp add: grow_loop.simps)
  moreover have "length hist \<le> length (global_name_array g)"
    using hist k by simp
  moreover have "names_inv hist fm g'"
    using assms(1) k' room \<open>length hist \<le> length (global_name_array g)\<close>
    by (auto simp: names_inv_def g'_def k nth_append intro!: exI [of _ "Suc k"])
  ultimately show ?thesis using room by blast
qed

lemma new_localname_step:
  assumes inv: "names_inv hist fm g" and fits: "name_fits fm p" and small: "length hist < 2 ^ 27"
  shows "\<exists>l g'. new_localname fm g p t = Some (l, fm\<lparr>unique_str_num := unique_str_num fm + 1\<rparr>, g')
    \<and> names_inv (hist @ [p]) (fm\<lparr>unique_str_num := unique_str_num fm + 1\<rparr>) g' \<and> has_index fm l (length hist)"
proof -
  let ?n = "length hist" and ?fm = "fm\<lparr>unique_str_num := unique_str_num fm + 1\<rparr>"
  have n: "unat (unique_str_num fm) = ?n" using inv by (simp add: names_inv_def)
  obtain l where l: "filemngt_calc_localname fm p t = Some (l, ?fm)" "has_index fm l ?n"
    using calc_localname_step [OF fits n small] by blast
  obtain g1 where g1: "grow_loop ?n g = Some g1" "names_inv hist fm g1" "?n \<le> hiwat g1"
    using grow_loop_next [OF inv small] by blast
  have in_range: "?n < length (global_name_array g1)" "global_name_array g1 ! ?n = None"
    using g1(2,3) hiwat_in_range [OF g1(2)] by (auto simp: names_inv_def)
  have "?n \<le> 10 * length (global_name_array g)" using inv hiwat_in_range [OF inv] by (auto simp: names_inv_def)
  then obtain d where "parse_name fm g l = Some (Some d, int ?n)"
    using l(2) by (auto simp: has_index_def)
  then have d: "parse_name ?fm g l = Some (Some d, int ?n)"
    using parse_name_cong [of ?fm fm] by simp
  define g2 where "g2 = g1\<lparr>max_index := max (max_index g1) ?n,
    global_name_array := (global_name_array g1)[?n := Some p]\<rparr>"
  have "add_global_name ?fm g p l = Some g2"
    using in_range by (simp add: add_global_name_def d g1(1) g2_def Let_def)
  then have "new_localname fm g p t = Some (l, ?fm, g2)"
    by (simp add: new_localname_def l(1))
  moreover have "names_inv (hist @ [p]) ?fm g2"
    using g1(2,3) in_range small
    by (auto simp: names_inv_def g2_def take_Suc_conv_app_nth nth_list_update unat_word_ariths)
  ultimately show ?thesis using l(2) by blast
qed

lemma names_inv_lookup:
  assumes "names_inv hist fm g" and "has_index fm l i" and "i < length hist"
  shows "lookup_global_name fm g l = Some (Some (hist ! i))"
proof -
  have arr: "global_name_array g ! i = Some (hist ! i)" and i: "i \<le> max_index g" "i < length (global_name_array g)"
  proof -
    have t: "take (length hist) (global_name_array g) = map Some hist" using assms(1) by (simp add: names_inv_def)
    then have "length (global_name_array g) \<ge> length hist"
      by (metis length_map length_take min.cobounded1)
    then show "i < length (global_name_array g)" using assms(3) by simp
    show "global_name_array g ! i = Some (hist ! i)" using arg_cong [OF t, of "\<lambda>x. x ! i"] assms(3) by simp
    show "i \<le> max_index g" using assms(1,3) by (auto simp: names_inv_def)
  qed
  then obtain d where "parse_name fm g l = Some (Some d, int i)"
    using assms(2) by (fastforce simp: has_index_def)
  then show ?thesis using arr i by (simp add: lookup_global_name_def)
qed

lemma has_index_cong: "cachepath fm' = cachepath fm \<Longrightarrow> normalized_tmpdir fm' = normalized_tmpdir fm \<Longrightarrow>
  has_index fm' l i = has_index fm l i"
  by (simp add: has_index_def parse_name_cong [of fm' fm])

lemma has_index_unique: "has_index fm l i \<Longrightarrow> has_index fm l j \<Longrightarrow> i = j"
  unfolding has_index_def
  by (drule spec [of _ "init_global_name_list\<lparr>global_name_array := replicate (i + j) None\<rparr>"])+ auto

lemma new_localnames_run:
  assumes "names_inv hist fm g" and "\<forall>(p, t) \<in> set ps. name_fits fm p" and "length hist + length ps \<le> 2 ^ 27"
  shows "\<exists>ls fm' g'. new_localnames fm g ps = Some (ls, fm', g') \<and> names_inv (hist @ map fst ps) fm' g'
    \<and> cachepath fm' = cachepath fm \<and> normalized_tmpdir fm' = normalized_tmpdir fm
    \<and> length ls = length ps \<and> (\<forall>i < length ps. has_index fm (ls ! i) (length hist + i))"
  using assms
proof (induction ps arbitrary: hist fm g)
  case (Cons a ps)
  obtain p t where a: "a = (p, t)" by fastforce
  let ?fm = "fm\<lparr>unique_str_num := unique_str_num fm + 1\<rparr>"
  obtain l g1 where s: "new_localname fm g p t = Some (l, ?fm, g1)" "names_inv (hist @ [p]) ?fm g1"
    "has_index fm l (length hist)"
    using new_localname_step [OF Cons.prems(1), of p t] Cons.prems(2,3) a by auto
  have "\<forall>(p, t) \<in> set ps. name_fits ?fm p" using Cons.prems(2) by (auto simp: name_fits_def)
  then obtain ls fm' g' where r: "new_localnames ?fm g1 ps = Some (ls, fm', g')"
    "names_inv ((hist @ [p]) @ map fst ps) fm' g'" "cachepath fm' = cachepath fm"
    "normalized_tmpdir fm' = normalized_tmpdir fm" "length ls = length ps"
    "\<forall>i < length ps. has_index ?fm (ls ! i) (length hist + 1 + i)"
    using Cons.IH [OF s(2)] Cons.prems(3) by auto
  have "\<forall>i < length (a # ps). has_index fm ((l # ls) ! i) (length hist + i)"
  proof (intro allI impI)
    fix i assume "i < length (a # ps)"
    then show "has_index fm ((l # ls) ! i) (length hist + i)"
      using s(3) r(6) has_index_cong [of ?fm fm] by (cases i) auto
  qed
  then show ?case using r s(1) a by auto
qed simp

text \<open>C10. Up to \<open>2^27\<close> files can be given local names, in any order and of any kind:
  every request for a name succeeds, no two local names are equal, and the name of
  every local copy is translated back to the file it is a copy of.\<close>

theorem local_names_round_trip:
  assumes "unique_str_num fm = 0" and "\<forall>(p, t) \<in> set ps. name_fits fm p" and "length ps \<le> 2 ^ 27"
  shows "\<exists>ls fm' g'. new_localnames fm init_global_name_list ps = Some (ls, fm', g')
    \<and> length ls = length ps \<and> distinct ls
    \<and> (\<forall>i < length ps. lookup_global_name fm' g' (ls ! i) = Some (Some (fst (ps ! i))))"
proof -
  obtain ls fm' g' where r: "new_localnames fm init_global_name_list ps = Some (ls, fm', g')"
    "names_inv (map fst ps) fm' g'" "cachepath fm' = cachepath fm" "normalized_tmpdir fm' = normalized_tmpdir fm"
    "length ls = length ps" "\<forall>i < length ps. has_index fm (ls ! i) i"
    using new_localnames_run [OF names_inv_init [OF assms(1)] assms(2)] assms(3) by auto
  have "distinct ls"
    using r(5,6) has_index_unique by (metis distinct_conv_nth)
  moreover have "lookup_global_name fm' g' (ls ! i) = Some (Some (fst (ps ! i)))" if "i < length ps" for i
    using names_inv_lookup [OF r(2), of "ls ! i" i] r(6) has_index_cong [OF r(3,4)] that by simp
  ultimately show ?thesis using r(1,5) by blast
qed

theorem local_names_round_trip_witness:
  "\<exists>ls fm' g'. new_localnames \<lparr>cachepath = ''/tmp/spindle.7'', normalized_tmpdir = ''/tmp/spindle.7'', unique_str_num = 0\<rparr>
      init_global_name_list [(''/usr/lib/libm.so'', clt_dso), (''/usr/lib/libm.so'', clt_stat)] = Some (ls, fm', g')
    \<and> length ls = 2 \<and> distinct ls
    \<and> (\<forall>i < 2. lookup_global_name fm' g' (ls ! i) = Some (Some ''/usr/lib/libm.so''))"
proof -
  have "\<forall>i < 2. fst ([(''/usr/lib/libm.so'', clt_dso), (''/usr/lib/libm.so'', clt_stat)] ! i) = ''/usr/lib/libm.so''"
    by (auto simp: less_2_cases_iff)
  then show ?thesis
    using local_names_round_trip [of "\<lparr>cachepath = ''/tmp/spindle.7'', normalized_tmpdir = ''/tmp/spindle.7'', unique_str_num = 0\<rparr>"
        "[(''/usr/lib/libm.so'', clt_dso), (''/usr/lib/libm.so'', clt_stat)]"]
    by (auto simp: name_fits_def)
qed

section \<open>Paths below the cache directory\<close>

lemma lookup_reconstructs:
  assumes "ldcs_is_a_cachedfile fm l = Some off" and "off \<le> length l"
    and "d = drop (if off < length l \<and> l ! off = SLASH then off else off - 1) l"
    and "SLASH \<in> set d" and "CHR ''-'' \<notin> set (after_last_slash d)"
  shows "lookup_global_name fm g l = Some (Some (take MAX_PATH_LEN d))"
proof -
  have "dropWhile (\<lambda>c. c \<noteq> CHR ''-'') (after_last_slash d) = []"
    using assms(5) by (auto simp: dropWhile_eq_Nil_conv)
  then have "parse_name fm g l = Some (Some d, -1)"
    using assms(1,2,4) unfolding parse_name_def assms(1) option.case Let_def assms(3) [symmetric] by simp
  then show ?thesis by (simp add: lookup_global_name_def)
qed

text \<open>A directory below the cache directory stands for the directory it mirrors.\<close>

theorem cached_directory_lookup:
  assumes "d \<noteq> []" and "hd d \<noteq> SLASH" and "CHR ''-'' \<notin> set (after_last_slash (SLASH # d))"
    and "length d < MAX_PATH_LEN"
  shows "lookup_global_name fm g (cachepath fm @ SLASH # d) = Some (Some (SLASH # d))"
proof -
  have "lookup_global_name fm g (cachepath fm @ SLASH # d) = Some (Some (take MAX_PATH_LEN (SLASH # d)))"
    by (rule lookup_reconstructs [where off = "length (cachepath fm) + 1"])
      (use assms in \<open>auto simp: ldcs_is_a_cachedfile_def nth_append hd_conv_nth\<close>)
  then show ?thesis using assms(4) by simp
qed

theorem cached_directory_lookup_witness:
  "lookup_global_name \<lparr>cachepath = ''/tmp/spindle.7'', normalized_tmpdir = ''/tmp/spindle.7'', unique_str_num = 0\<rparr>
     init_global_name_list ''/tmp/spindle.7/usr/lib'' = Some (Some ''/usr/lib'')"
  using cached_directory_lookup [of "''usr/lib''"
      "\<lparr>cachepath = ''/tmp/spindle.7'', normalized_tmpdir = ''/tmp/spindle.7'', unique_str_num = 0\<rparr>" init_global_name_list]
  by (simp add: after_last_slash_def)

text \<open>C39. The test for the cache directory compares a prefix of the path and does not look at
  the character after it. A path in a sibling directory whose name is longer by one
  character (the directory of another session) is translated as if it were a local copy, and
  the name of the cache directory itself makes the server read beyond the end of the
  string.\<close>

theorem cached_prefix_not_a_component:
  assumes "d \<noteq> []" and "CHR ''-'' \<notin> set (after_last_slash (SLASH # d))" and "length d < MAX_PATH_LEN"
  shows "lookup_global_name fm g (cachepath fm @ c # SLASH # d) = Some (Some (SLASH # d))
    \<and> lookup_global_name fm g (cachepath fm) = None"
proof -
  have "lookup_global_name fm g (cachepath fm @ c # SLASH # d) = Some (Some (take MAX_PATH_LEN (SLASH # d)))"
    by (rule lookup_reconstructs [where off = "length (cachepath fm) + 1"])
      (use assms in \<open>auto simp: ldcs_is_a_cachedfile_def nth_append\<close>)
  moreover have "lookup_global_name fm g (cachepath fm) = None"
    by (simp add: lookup_global_name_def parse_name_def ldcs_is_a_cachedfile_def)
  ultimately show ?thesis using assms(3) by simp
qed

theorem cached_prefix_not_a_component_witness:
  "lookup_global_name \<lparr>cachepath = ''/tmp/spindle.1'', normalized_tmpdir = ''/tmp/spindle.1'', unique_str_num = 0\<rparr>
     init_global_name_list ''/tmp/spindle.12/usr/lib'' = Some (Some ''/usr/lib'')"
  using cached_prefix_not_a_component [of "''usr/lib''"
      "\<lparr>cachepath = ''/tmp/spindle.1'', normalized_tmpdir = ''/tmp/spindle.1'', unique_str_num = 0\<rparr>" init_global_name_list "CHR ''2''"]
  by (simp add: after_last_slash_def)

end
