(* ===== verification/Packets.thy ===== *)
theory Packets
  imports Spindle_Types
begin

text \<open>
  The packets the servers send each other: file contents
  (\<open>filemngt_encode_packet\<close> and \<open>filemngt_decode_packet\<close> of \<open>ldcs_audit_server_filemngt.c\<close>),
  error codes, aliases, requests and metadata (\<open>ldcs_audit_server_handlers.c\<close>). A failed
  assertion of a decoder is \<^const>\<open>None\<close>, as is a packet too short for what it announces.
\<close>

section \<open>File contents\<close>

definition filemngt_is_elf_file :: "byte list \<Rightarrow> nat \<Rightarrow> bool" where
  "filemngt_is_elf_file buffer buffer_size =
     (if buffer_size < 4 then False
      else take 4 buffer = [CHR 0x7F, CHR ''E'', CHR ''L'', CHR ''F''])"

definition bool_int :: "bool \<Rightarrow> int" where
  "bool_int b = (if b then 1 else 0)"

text \<open>The packet is allocated with room for the contents, which are not copied into it: they
  follow in a second write.\<close>

definition filemngt_encode_packet :: "string \<Rightarrow> byte list \<Rightarrow> nat \<Rightarrow> bool \<Rightarrow> byte list" where
  "filemngt_encode_packet filename filecontents filesize stripped =
     put_i32 (bool_int (filemngt_is_elf_file filecontents filesize)) @ put_i32 (bool_int stripped)
     @ put_i32 (int (length filename + 1)) @ put_u64 filesize @ cstr filename @ replicate filesize NUL"

record file_packet =
  fp_is_elf :: bool
  fp_stripped :: bool
  fp_filesize :: nat
  fp_filename :: string
  fp_bytes_read :: nat

definition filemngt_decode_packet :: "byte list \<Rightarrow> file_packet option" where
  "filemngt_decode_packet bs =
     (let is_elf = get_i32 bs;
          stripped = get_i32 (drop 4 bs);
          filename_len = get_i32 (drop 8 bs);
          filesize = get_u64 (drop 12 bs)
      in if length bs < 20 \<or> filename_len \<le> 0 \<or> filename_len > int MAX_PATH_LEN + 1
            \<or> length bs < 20 + nat filename_len then None
         else Some \<lparr>fp_is_elf = (is_elf \<noteq> 0), fp_stripped = (stripped \<noteq> 0), fp_filesize = filesize,
                    fp_filename = c_str (take (nat filename_len) (drop 20 bs)),
                    fp_bytes_read = 20 + nat filename_len\<rparr>)"

section \<open>Error codes, aliases, requests\<close>

definition encode_errcode :: "string \<Rightarrow> int \<Rightarrow> byte list" where
  "encode_errcode pathname errcode = put_i32 errcode @ put_i32 (int (length pathname + 1)) @ cstr pathname"

definition decode_errcode :: "byte list \<Rightarrow> (int \<times> string) option" where
  "decode_errcode bs =
     (let errcode = get_i32 bs; pathname_len = get_i32 (drop 4 bs)
      in if length bs < 8 \<or> pathname_len < 0 \<or> 8 + nat pathname_len \<noteq> length bs then None
         else Some (errcode, c_str (drop 8 bs)))"

definition encode_alias :: "string \<Rightarrow> string \<Rightarrow> byte list" where
  "encode_alias alias_from alias_to = cstr alias_from @ cstr alias_to"

definition decode_alias :: "byte list \<Rightarrow> string \<times> string" where
  "decode_alias bs = (let alias_from = c_str bs in (alias_from, c_str (drop (length alias_from + 1) bs)))"

text \<open>\<open>snprintf\<close> cuts the request off at the size of its buffer but returns the length it
  would have written; the announced length is that one.\<close>

definition encode_request :: "char \<Rightarrow> string \<Rightarrow> ldcs_message_t" where
  "encode_request kind path =
     \<lparr>msg_header = \<lparr>msg_type = LDCS_MSG_FILE_REQUEST, msg_len = length path + 2\<rparr>,
      msg_data = cstr (take MAX_PATH_LEN (kind # path))\<rparr>"

section \<open>Metadata\<close>

record extended_stat_t =
  st_dev :: nat
  st_rest :: "byte list"
  readlink_errcode :: int
  readlink_path :: "string option"

text \<open>On the platforms Spindle runs on, \<open>struct stat\<close> has 144 bytes and starts with the
  device; \<open>readlink_path\<close> starts at offset 160, and the whole structure has 4264 bytes. The
  8 bytes that are sent after the path lie in the unused rest of the array.\<close>

definition sizeof_extended_stat :: nat where
  "sizeof_extended_stat = 4264"

definition readlink_path_size :: "extended_stat_t \<Rightarrow> nat" where
  "readlink_path_size st = (case readlink_path st of None \<Rightarrow> 0 | Some p \<Rightarrow> length p + 1)"

definition extended_stat_size :: "extended_stat_t \<Rightarrow> nat" where
  "extended_stat_size st = sizeof_extended_stat - ((MAX_PATH_LEN + 1) - readlink_path_size st) + 1"

definition ext_stat_image :: "extended_stat_t \<Rightarrow> byte list" where
  "ext_stat_image st = put_u64 (st_dev st) @ st_rest st @ put_i32 (readlink_errcode st) @ replicate 4 NUL
     @ put_u64 (readlink_path_size st) @ (case readlink_path st of None \<Rightarrow> [] | Some p \<Rightarrow> cstr p) @ replicate 8 NUL"

definition ext_stat_of :: "byte list \<Rightarrow> extended_stat_t" where
  "ext_stat_of bs =
     \<lparr>st_dev = get_u64 bs, st_rest = take 136 (drop 8 bs), readlink_errcode = get_i32 (drop 144 bs),
      readlink_path = (if get_u64 (drop 152 bs) = 0 then None else Some (c_str (drop 160 bs)))\<rparr>"

definition encode_metadata :: "string \<Rightarrow> bool \<Rightarrow> string option \<Rightarrow> byte list \<Rightarrow> byte list" where
  "encode_metadata pathname file_exists mount buf =
     put_i32 (bool_int file_exists) @ put_i32 (int (length pathname + 1))
     @ put_i32 (int (case mount of None \<Rightarrow> 0 | Some m \<Rightarrow> length m + 1))
     @ cstr pathname @ (case mount of None \<Rightarrow> [] | Some m \<Rightarrow> cstr m) @ (if file_exists then buf else [])"

text \<open>Decoding, with the payload left as bytes. \<open>is_stat\<close> distinguishes the \<open>stat\<close> and
  \<open>lstat\<close> packets from those with loader data (four 64-bit offsets).\<close>

definition decode_metadata :: "bool \<Rightarrow> byte list \<Rightarrow> (bool \<times> string \<times> string option \<times> byte list) option" where
  "decode_metadata is_stat bs =
     (let file_exists = (get_i32 bs \<noteq> 0);
          pathlen = get_i32 (drop 4 bs);
          mount_len = get_i32 (drop 8 bs);
          pos = 12 + nat pathlen + nat mount_len;
          payload = (if file_exists then drop pos bs else [])
      in if length bs < 12 \<or> pathlen < 0 \<or> pathlen > int MAX_PATH_LEN \<or> mount_len < 0
            \<or> mount_len > int MAX_PATH_LEN \<or> length bs < pos then None
         else if file_exists \<and> is_stat \<and> \<not> (144 < length payload \<and> length payload < sizeof_extended_stat) then None
         else if file_exists \<and> \<not> is_stat \<and> length payload \<noteq> 32 then None
         else if \<not> file_exists \<and> length bs \<noteq> pos then None
         else if mount_len \<noteq> 0 \<and> \<not> (is_stat \<and> file_exists) then None
         else Some (file_exists, c_str (take (nat pathlen) (drop 12 bs)),
                    if mount_len = 0 then None else Some (c_str (drop (12 + nat pathlen) bs)), payload))"

section \<open>Round trips\<close>

lemma get_put_i32_nat [codec_simps]: "n < 2 ^ 31 \<Longrightarrow> get_i32 (put_i32 (int n) @ rest) = int n"
  by (rule get_put_i32) simp_all

lemma get_put_i32_bool [codec_simps]: "get_i32 (put_i32 (bool_int b) @ rest) = bool_int b"
  by (rule get_put_i32) (simp_all add: bool_int_def)

lemma bool_int_neq_0 [simp]: "bool_int b \<noteq> 0 \<longleftrightarrow> b"
  by (simp add: bool_int_def)

text \<open>C12. What a server receives as a file packet, the packet of the sender with the
  contents written in place of its unused tail, decodes to the name, size and kind of the
  file, and the rest of the packet is the contents.\<close>

theorem file_packet_round_trip:
  assumes "nul_free p" and "length p \<le> MAX_PATH_LEN" and "length contents < 2 ^ 64"
    and pkt: "pkt = filemngt_encode_packet p contents (length contents) stripped"
    and rcv: "rcv = take (length pkt - length contents) pkt @ contents"
  shows "filemngt_decode_packet rcv =
      Some \<lparr>fp_is_elf = filemngt_is_elf_file contents (length contents), fp_stripped = stripped,
            fp_filesize = length contents, fp_filename = p, fp_bytes_read = 20 + (length p + 1)\<rparr>
    \<and> drop (20 + (length p + 1)) rcv = contents \<and> length rcv = length pkt"
proof -
  let ?e = "bool_int (filemngt_is_elf_file contents (length contents))"
  have r: "rcv = put_i32 ?e @ put_i32 (bool_int stripped) @ put_i32 (int (length p + 1))
      @ put_u64 (length contents) @ cstr p @ contents"
    by (simp add: rcv pkt filemngt_encode_packet_def)
  have d4: "drop 4 rcv = put_i32 (bool_int stripped) @ put_i32 (int (length p + 1)) @ put_u64 (length contents) @ cstr p @ contents"
    and d8: "drop 8 rcv = put_i32 (int (length p + 1)) @ put_u64 (length contents) @ cstr p @ contents"
    and d12: "drop 12 rcv = put_u64 (length contents) @ cstr p @ contents"
    and d20: "drop 20 rcv = cstr p @ contents"
    by (simp_all add: r)
  have g: "get_i32 rcv = ?e" "get_i32 (drop 4 rcv) = bool_int stripped"
    "get_i32 (drop 8 rcv) = int (length p + 1)" "get_u64 (drop 12 rcv) = length contents"
    using assms(2,3) by (simp_all only: r [THEN arg_cong [of _ _ get_i32]] d4 d8 d12 get_put_i32_bool get_put_u64)
      (rule get_put_i32_nat, simp)
  have len: "length rcv = 20 + (length p + 1) + length contents" by (simp add: r)
  have "c_str (take (length p + 1) (drop 20 rcv)) = p"
    using assms(1) by (simp add: d20 c_str_cstr')
  moreover have "drop (20 + (length p + 1)) rcv = contents"
    using d20 by (metis append_eq_conv_conj drop_drop add.commute length_cstr Suc_eq_plus1)
  moreover have "length rcv = length pkt" by (simp add: r pkt filemngt_encode_packet_def)
  moreover have n: "nat (int (length p + 1)) = length p + 1" by simp
  ultimately show ?thesis
    using assms(2) by (simp only: filemngt_decode_packet_def Let_def g len n) simp
qed

theorem file_packet_round_trip_witness:
  "filemngt_decode_packet (take 26 (filemngt_encode_packet ''/a.so'' [CHR ''x''] 1 True) @ [CHR ''x'']) =
     Some \<lparr>fp_is_elf = False, fp_stripped = True, fp_filesize = 1, fp_filename = ''/a.so'', fp_bytes_read = 26\<rparr>"
  using file_packet_round_trip [of "''/a.so''" "[CHR ''x'']" _ True, OF _ _ _ refl refl]
  by (simp add: nul_free_def NUL_def filemngt_is_elf_file_def filemngt_encode_packet_def)

text \<open>Error codes and aliases reach the receiver as they were sent.\<close>

theorem small_packets_round_trip:
  assumes "nul_free p" and "nul_free q" and "length p < MAX_PATH_LEN" and "- (2 ^ 31) \<le> e" and "e < 2 ^ 31"
  shows "decode_errcode (encode_errcode p e) = Some (e, p) \<and> decode_alias (encode_alias p q) = (p, q)"
proof -
  let ?b = "encode_errcode p e"
  have "get_i32 ?b = e" and d4: "drop 4 ?b = put_i32 (int (length p + 1)) @ cstr p" and d8: "drop 8 ?b = cstr p"
    using assms(4,5) by (simp_all add: encode_errcode_def get_put_i32)
  moreover have "get_i32 (drop 4 ?b) = int (length p + 1)"
    unfolding d4 by (rule get_put_i32_nat) (use assms(3) in simp)
  moreover have "length ?b = 8 + (length p + 1)" by (simp add: encode_errcode_def)
  moreover have "nat (int (length p + 1)) = length p + 1" by simp
  ultimately have "decode_errcode ?b = Some (e, p)"
    using assms(1) by (simp only: decode_errcode_def Let_def) (simp add: c_str_cstr')
  moreover have "drop (length p + 1) (encode_alias p q) = cstr q"
    by (simp add: encode_alias_def)
  ultimately show ?thesis
    using assms(1,2) c_str_cstr [of p "cstr q"] by (simp add: decode_alias_def encode_alias_def c_str_cstr' Let_def)
qed

theorem small_packets_round_trip_witness:
  "decode_errcode (encode_errcode ''/x'' (-13)) = Some (-13, ''/x'')
   \<and> decode_alias (encode_alias ''/x'' ''/y'') = (''/x'', ''/y'')"
  by (rule small_packets_round_trip) (simp_all add: nul_free_def NUL_def)

section \<open>Metadata round trip\<close>

definition stat_ok :: "extended_stat_t \<Rightarrow> bool" where
  "stat_ok st \<longleftrightarrow> st_dev st < 2 ^ 64 \<and> length (st_rest st) = 136
     \<and> - (2 ^ 31) \<le> readlink_errcode st \<and> readlink_errcode st < 2 ^ 31
     \<and> (case readlink_path st of None \<Rightarrow> True | Some p \<Rightarrow> nul_free p \<and> length p \<le> MAX_PATH_LEN)"

lemma length_ext_stat_image: "stat_ok st \<Longrightarrow> length (ext_stat_image st) = 168 + readlink_path_size st"
  by (auto simp: ext_stat_image_def stat_ok_def readlink_path_size_def split: option.splits)

lemma ext_stat_image_size: "stat_ok st \<Longrightarrow> length (ext_stat_image st) = extended_stat_size st"
  by (simp add: length_ext_stat_image extended_stat_size_def sizeof_extended_stat_def)
    (auto simp: stat_ok_def readlink_path_size_def split: option.splits)

lemma ext_stat_of_image:
  assumes "stat_ok st"
  shows "ext_stat_of (ext_stat_image st @ rest) = st"
proof -
  let ?tail = "(case readlink_path st of None \<Rightarrow> [] | Some p \<Rightarrow> cstr p) @ replicate 8 NUL @ rest"
  let ?b = "ext_stat_image st @ rest"
  have ok: "st_dev st < 2 ^ 64" "length (st_rest st) = 136" "- (2 ^ 31) \<le> readlink_errcode st"
    "readlink_errcode st < 2 ^ 31"
    using assms by (simp_all add: stat_ok_def)
  have size: "readlink_path_size st < 2 ^ 64"
    using assms by (auto simp: stat_ok_def readlink_path_size_def split: option.splits)
  have b: "?b = put_u64 (st_dev st) @ st_rest st @ put_i32 (readlink_errcode st) @ replicate 4 NUL
      @ put_u64 (readlink_path_size st) @ ?tail"
    by (simp add: ext_stat_image_def)
  have d8: "drop 8 ?b = st_rest st @ put_i32 (readlink_errcode st) @ replicate 4 NUL @ put_u64 (readlink_path_size st) @ ?tail"
    and d144: "drop 144 ?b = put_i32 (readlink_errcode st) @ replicate 4 NUL @ put_u64 (readlink_path_size st) @ ?tail"
    and d152: "drop 152 ?b = put_u64 (readlink_path_size st) @ ?tail"
    and d160: "drop 160 ?b = ?tail"
    unfolding b using ok(2) by simp_all
  have "get_u64 ?b = st_dev st" unfolding b by (rule get_put_u64 [OF ok(1)])
  moreover have "take 136 (drop 8 ?b) = st_rest st" unfolding d8 using ok(2) by simp
  moreover have "get_i32 (drop 144 ?b) = readlink_errcode st" unfolding d144 by (rule get_put_i32 [OF ok(3,4)])
  moreover have "get_u64 (drop 152 ?b) = readlink_path_size st" unfolding d152 by (rule get_put_u64 [OF size])
  ultimately have "ext_stat_of ?b = \<lparr>st_dev = st_dev st, st_rest = st_rest st, readlink_errcode = readlink_errcode st,
      readlink_path = (if readlink_path_size st = 0 then None else Some (c_str ?tail))\<rparr>"
    by (simp only: ext_stat_of_def d160)
  then show ?thesis
    using assms by (auto simp: stat_ok_def readlink_path_size_def c_str_cstr split: option.splits)
qed

lemma decode_encode_metadata:
  assumes "nul_free p" and "length p < MAX_PATH_LEN" and "case mount of None \<Rightarrow> True | Some m \<Rightarrow> nul_free m \<and> length m < MAX_PATH_LEN"
    and "mount \<noteq> None \<longrightarrow> is_stat \<and> ex"
  shows "decode_metadata is_stat (encode_metadata p ex mount buf) =
    (if ex \<and> is_stat \<and> \<not> (144 < length buf \<and> length buf < sizeof_extended_stat) then None
     else if ex \<and> \<not> is_stat \<and> length buf \<noteq> 32 then None
     else Some (ex, p, mount, if ex then buf else []))"
proof -
  define ml where "ml = (case mount of None \<Rightarrow> 0 | Some m \<Rightarrow> length m + 1)"
  define mb where "mb = (case mount of None \<Rightarrow> [] | Some m \<Rightarrow> cstr m)"
  define pl where "pl = (if ex then buf else [])"
  define b where "b = encode_metadata p ex mount buf"
  have b: "b = put_i32 (bool_int ex) @ put_i32 (int (length p + 1)) @ put_i32 (int ml) @ cstr p @ mb @ pl"
    by (simp add: encode_metadata_def b_def ml_def mb_def pl_def)
  have d4: "drop 4 b = put_i32 (int (length p + 1)) @ put_i32 (int ml) @ cstr p @ mb @ pl"
    and d8: "drop 8 b = put_i32 (int ml) @ cstr p @ mb @ pl" and d12: "drop 12 b = cstr p @ mb @ pl"
    unfolding b by simp_all
  have ml: "ml \<le> MAX_PATH_LEN" "length mb = ml" using assms(3) by (auto simp: ml_def mb_def split: option.splits)
  have g0: "get_i32 b = bool_int ex" unfolding b by (rule get_put_i32_bool)
  have g4: "get_i32 (drop 4 b) = int (length p + 1)" unfolding d4 by (rule get_put_i32_nat) (use assms(2) in simp)
  have g8: "get_i32 (drop 8 b) = int ml" unfolding d8 by (rule get_put_i32_nat) (use ml(1) in simp)
  have len: "length b = 12 + (length p + 1) + ml + length pl" unfolding b using ml(2) by simp
  have n: "nat (int (length p + 1)) = length p + 1" "nat (int ml) = ml" by (simp_all only: nat_int)
  have path: "c_str (take (length p + 1) (drop 12 b)) = p" unfolding d12 using assms(1) by (simp add: c_str_cstr')
  have dm: "drop (12 + (length p + 1)) b = mb @ pl"
    using d12 drop_drop [of "length p + 1" 12 b] by (simp add: add.commute)
  have pay: "drop (12 + (length p + 1) + ml) b = pl"
    using dm ml(2) drop_drop [of ml "12 + (length p + 1)" b] by (simp add: add.commute)
  have mount: "(if int ml = 0 then None else Some (c_str (mb @ pl))) = mount"
    using assms(3) by (auto simp: ml_def mb_def c_str_cstr split: option.splits)
  have no_mount: "int ml \<noteq> 0 \<longrightarrow> is_stat \<and> ex" using assms(4) by (auto simp: ml_def split: option.splits)
  show ?thesis
    unfolding b_def [symmetric] decode_metadata_def Let_def g0 g4 g8 n pay len path dm mount bool_int_neq_0
    using assms(2) ml(1) no_mount by (cases ex; cases is_stat) (simp_all add: pl_def)
qed

text \<open>C14. A metadata packet brings the receiver the attributes the sender read, with the mount
  point of the device, or the fact that the file does not exist. The exception is a symbolic
  link to a name of 4095 or more characters: the receiver's assertion on the size of
  the packet fails.\<close>

theorem metadata_packet_round_trip:
  assumes "nul_free p" and "length p < MAX_PATH_LEN" and "case mount of None \<Rightarrow> True | Some m \<Rightarrow> nul_free m \<and> length m < MAX_PATH_LEN"
    and "stat_ok st"
  shows "decode_metadata True (encode_metadata p True mount (ext_stat_image st)) =
      (if readlink_path_size st < MAX_PATH_LEN then Some (True, p, mount, ext_stat_image st) else None)
    \<and> ext_stat_of (ext_stat_image st) = st
    \<and> decode_metadata True (encode_metadata p False None []) = Some (False, p, None, [])"
  using assms decode_encode_metadata [of p mount True True] decode_encode_metadata [of p None True False]
    length_ext_stat_image [OF assms(4)] ext_stat_of_image [OF assms(4), of "[]"]
  by (simp add: sizeof_extended_stat_def)

theorem metadata_packet_round_trip_witness:
  "\<exists>st. readlink_path st = Some ''libm.so.6''
    \<and> decode_metadata True (encode_metadata ''/lib/libm.so'' True (Some ''/'') (ext_stat_image st)) =
        Some (True, ''/lib/libm.so'', Some ''/'', ext_stat_image st)
    \<and> ext_stat_of (ext_stat_image st) = st"
  using metadata_packet_round_trip [of "''/lib/libm.so''" "Some ''/''"
      "\<lparr>st_dev = 5, st_rest = replicate 136 NUL, readlink_errcode = 0, readlink_path = Some ''libm.so.6''\<rparr>"]
  by (intro exI [of _ "\<lparr>st_dev = 5, st_rest = replicate 136 NUL, readlink_errcode = 0, readlink_path = Some ''libm.so.6''\<rparr>"])
    (simp add: stat_ok_def nul_free_def NUL_def readlink_path_size_def)

end
