(* ===== verification/Numa.thy ===== *)
theory Numa
  imports Spindle_Prelude "HOL-Library.Sublist"
begin

text \<open>
  Which files are replicated on NUMA domains and how the replicas are named
  (\<open>ldcs_audit_server_numa.c\<close>, built with libnuma). Whether \<open>numa_available\<close> succeeds is a
  parameter. \<^const>\<open>None\<close> is a read or write outside a string.
\<close>

section \<open>Matching\<close>

text \<open>The offset of the first occurrence.\<close>

fun strstr :: "string \<Rightarrow> string \<Rightarrow> nat option" where
  "strstr [] needle = (if needle = [] then Some 0 else None)"
| "strstr (c # cs) needle =
     (if prefix needle (c # cs) then Some 0 else map_option Suc (strstr cs needle))"

definition pattern_match :: "string \<Rightarrow> string \<Rightarrow> bool" where
  "pattern_match pattern filename =
     (let should_match_at_start = (pattern \<noteq> [] \<and> hd pattern = CHR ''^'');
          pattern = (if should_match_at_start then tl pattern else pattern);
          should_match_at_end = (pattern \<noteq> [] \<and> last pattern = CHR ''$'');
          pattern = (if should_match_at_end then butlast pattern else pattern)
      in if length pattern > length filename then False
         else
           let off = (if should_match_at_end then length filename - length pattern else 0)
           in case strstr (drop off filename) pattern of
                None \<Rightarrow> False
              | Some i \<Rightarrow> \<not> (should_match_at_start \<and> off + i \<noteq> 0))"

text \<open>The loop of the macro \<open>FOREACH_ENTRY\<close> with the test both its users have: is there an
  entry of the colon-separated list that matches? The buffer for an entry has 4097 bytes.\<close>

function foreach_match :: "string \<Rightarrow> string \<Rightarrow> bool option" where
  "foreach_match start filename =
     (if start = [] then Some False
      else
        let s = dropWhile (\<lambda>c. c = CHR '':'') start
        in if s = [] then None
           else
             let entry = takeWhile (\<lambda>c. c \<noteq> CHR '':'') s
             in if length entry > MAX_PATH_LEN + 1 then Some False
                else if length entry = MAX_PATH_LEN + 1 then None
                else if pattern_match entry filename then Some True
                else foreach_match (dropWhile (\<lambda>c. c \<noteq> CHR '':'') s) filename)"
  by pat_completeness auto

lemma entry_shorter:
  assumes "x \<in> set start" and "x \<noteq> CHR '':''"
  shows "length (dropWhile (\<lambda>c. c \<noteq> CHR '':'') (dropWhile (\<lambda>c. c = CHR '':'') start)) < length start"
  using assms
proof (induction start)
  case (Cons c start)
  then show ?case by (auto simp: le_imp_less_Suc length_dropWhile_le less_SucI)
qed simp

termination foreach_match
  by (relation "measure (length \<circ> fst)") (auto simp: entry_shorter)

declare foreach_match.simps [simp del]

definition check_numa_excludes :: "string \<Rightarrow> string \<Rightarrow> bool option" where
  "check_numa_excludes numa_excludes filename =
     (if numa_excludes = [] then Some True
      else map_option Not (foreach_match numa_excludes filename))"

definition numa_should_replicate :: "bool \<Rightarrow> bool \<Rightarrow> string \<Rightarrow> string \<Rightarrow> string \<Rightarrow> bool option" where
  "numa_should_replicate opt_numa lib_available numa_substrs numa_excludes filename =
     (if \<not> opt_numa then Some False
      else if \<not> lib_available then Some False
      else if numa_substrs = [] then check_numa_excludes numa_excludes filename
      else case foreach_match numa_substrs filename of
             None \<Rightarrow> None
           | Some m \<Rightarrow> if m then check_numa_excludes numa_excludes filename else Some False)"

section \<open>Names of replicas\<close>

text \<open>\<open>snprintf(node_str, 8, "%06d", node)\<close>\<close>

definition node_str :: "nat \<Rightarrow> string" where
  "node_str node = take 7 (let ds = dec_digits node in replicate (6 - length ds) (CHR ''0'') @ ds)"

definition numa_update_local_filename :: "string \<Rightarrow> nat \<Rightarrow> string" where
  "numa_update_local_filename localfilename node =
     (let numa_part = (case strstr localfilename ''spindlens-numafile-XXXXXX'' of
                         Some i \<Rightarrow> Some i
                       | None \<Rightarrow> strstr localfilename ''spindlens-numadso-XXXXXX'')
      in case numa_part of
           None \<Rightarrow> localfilename
         | Some i \<Rightarrow>
             (let j = i + length (takeWhile (\<lambda>c. c \<noteq> CHR ''X'') (drop i localfilename))
              in take j localfilename @ take 6 (node_str node) @ drop (j + 6) localfilename))"

section \<open>Properties\<close>

lemma strstr_Some: "strstr h n = Some i \<Longrightarrow> prefix n (drop i h) \<and> (i = 0 \<longleftrightarrow> prefix n h)"
proof (induction h arbitrary: i)
  case (Cons c h)
  show ?case
  proof (cases "prefix n (c # h)")
    case False
    then obtain j where "i = Suc j" "strstr h n = Some j" using Cons.prems by auto
    then show ?thesis using Cons.IH False by simp
  qed (use Cons.prems in simp)
qed (simp split: if_splits)

lemma strstr_None: "strstr h n = None \<longleftrightarrow> \<not> sublist n h"
proof (induction h)
  case (Cons c h)
  then show ?case by (simp add: sublist_Cons_right del: prefix_Cons)
qed simp

lemma strstr_whole:
  assumes "length n = length h"
  shows "strstr h n = (if n = h then Some 0 else None)"
proof -
  have "sublist n h \<Longrightarrow> n = h" using assms by (auto simp: sublist_def)
  moreover have "n = h \<Longrightarrow> strstr h n = Some 0" by (cases h) simp_all
  ultimately show ?thesis using strstr_None [of h n] by auto
qed

lemma strstr_start:
  "(case strstr h n of None \<Rightarrow> False | Some i \<Rightarrow> i = 0) \<longleftrightarrow> prefix n h"
  using strstr_Some [of h n] strstr_None [of h n] by (auto split: option.splits dest: prefix_imp_sublist)

lemma match_at_end:
  assumes "length p \<le> length f"
  shows "strstr (drop (length f - length p) f) p = (if suffix p f then Some 0 else None)"
proof -
  have "p = drop (length f - length p) f \<longleftrightarrow> suffix p f"
    using assms by (auto simp: suffix_def) (metis append_take_drop_id)
  then show ?thesis using strstr_whole [of p "drop (length f - length p) f"] assms by simp
qed

text \<open>A pattern matches exactly the file names that contain it, that start with it after
  a \<open>^\<close>, that end with it before a \<open>$\<close>, or that are equal to it with both marks.\<close>

theorem pattern_match_spec:
  assumes "p \<noteq> []" and "hd p \<noteq> CHR ''^''" and "last p \<noteq> CHR ''$''"
  shows "(pattern_match p f \<longleftrightarrow> sublist p f)
    \<and> (pattern_match (CHR ''^'' # p) f \<longleftrightarrow> prefix p f)
    \<and> (pattern_match (p @ ''$'') f \<longleftrightarrow> suffix p f)
    \<and> (pattern_match (CHR ''^'' # p @ ''$'') f \<longleftrightarrow> f = p)"
proof -
  have nl: "sublist p f \<Longrightarrow> length p \<le> length f" "prefix p f \<Longrightarrow> length p \<le> length f" "suffix p f \<Longrightarrow> length p \<le> length f"
    by (simp_all add: sublist_length_le prefix_length_le suffix_length_le)
  have "pattern_match p f \<longleftrightarrow> sublist p f"
    using assms nl(1) strstr_None [of f p] by (auto simp: pattern_match_def Let_def split: option.splits)
  moreover have "pattern_match (CHR ''^'' # p) f \<longleftrightarrow> prefix p f"
    using assms nl(2) strstr_start [of f p] by (auto simp: pattern_match_def Let_def split: option.splits)
  moreover have "pattern_match (p @ ''$'') f \<longleftrightarrow> suffix p f"
    using assms nl(3) match_at_end [of p f] by (auto simp: pattern_match_def Let_def)
  moreover have "pattern_match (CHR ''^'' # p @ ''$'') f \<longleftrightarrow> f = p"
    using assms nl(3) match_at_end [of p f] by (auto simp: pattern_match_def Let_def suffix_def)
  ultimately show ?thesis by blast
qed

theorem pattern_match_spec_witness:
  "pattern_match ''libm'' ''/usr/lib/libm.so'' \<and> \<not> pattern_match (CHR ''^'' # ''libm'') ''/usr/lib/libm.so''"
  using pattern_match_spec [of "''libm''" "''/usr/lib/libm.so''"] by (simp add: sublist_Cons_right)

text \<open>A list of patterns that ends with a colon makes the server read beyond the end of the
  list when no earlier pattern matches.\<close>

theorem trailing_colon_overread:
  assumes "entry \<noteq> []" and "CHR '':'' \<notin> set entry" and "length entry \<le> MAX_PATH_LEN" and "\<not> pattern_match entry f"
  shows "numa_should_replicate True True (entry @ '':'') excludes f = None"
proof -
  obtain c cs where e: "entry = c # cs" and c: "c \<noteq> CHR '':''" using assms(1,2) by (cases entry) auto
  have "takeWhile (\<lambda>c. c \<noteq> CHR '':'') (entry @ '':'') = entry"
    and "dropWhile (\<lambda>c. c \<noteq> CHR '':'') (entry @ '':'') = '':''"
    using assms(2) by (induction entry) auto
  moreover have "dropWhile (\<lambda>c. c = CHR '':'') (entry @ '':'') = entry @ '':''" using c by (simp add: e)
  moreover have "foreach_match '':'' f = None" by (subst foreach_match.simps) simp
  ultimately have "foreach_match (entry @ '':'') f = None"
    using assms(3,4) by (subst foreach_match.simps) (simp add: Let_def)
  then show ?thesis by (simp add: numa_should_replicate_def)
qed

theorem trailing_colon_overread_witness:
  "numa_should_replicate True True ''libm:'' [] ''/lib/libc.so'' = None"
  using trailing_colon_overread [of "''libm''" "''/lib/libc.so''" "[]"]
  by (simp add: pattern_match_def)

end
