(* ===== verification/Elf_Tls.thy ===== *)
theory Elf_Tls
  imports Spindle_Prelude
begin

text \<open>
  What the calculation of the static TLS size reads from outside
  (\<open>src/src/server/auditserver/filemngt_calc_static_tls.c\<close>): the ELF headers of an executable or
  library, the first line of a script, and the libraries that \<open>ld.so --list\<close> prints.

  A file is its bytes, with the offset of the first byte that cannot be read, if any. The
  headers are those of 64-bit little-endian ELF. \<^const>\<open>None\<close> is undefined behaviour: the use of a
  byte that was not read, an access outside a buffer, or a call that never returns.
\<close>

section \<open>Files\<close>

record dso_file_t =
  f_bytes :: "byte list"
  f_bad :: "nat option"

definition bad_before :: "dso_file_t \<Rightarrow> nat \<Rightarrow> bool" where
  "bad_before f k \<longleftrightarrow> (case f_bad f of None \<Rightarrow> False | Some b \<Rightarrow> b < min k (length (f_bytes f)))"

definition reliable_read :: "dso_file_t \<Rightarrow> nat \<Rightarrow> nat \<Rightarrow> byte list option" where
  "reliable_read f off n =
     (if off < length (f_bytes f) \<and> bad_before f (off + n) then None else Some (take n (drop off (f_bytes f))))"

text \<open>\<open>lseek\<close> refuses an offset that is negative as an \<open>off_t\<close>.\<close>

definition seekable :: "nat \<Rightarrow> bool" where
  "seekable off \<longleftrightarrow> int off < 2 ^ 63"

definition ssize_of :: "nat \<Rightarrow> int" where
  "ssize_of n = (if int n < 2 ^ 63 then int n else int n - 2 ^ 64)"

definition get_u16 :: "byte list \<Rightarrow> nat" where
  "get_u16 bs = le_val (take 2 bs)"

section \<open>Program headers\<close>

record elf_phdr_t =
  p_type :: nat
  p_offset :: nat
  p_filesz :: nat
  p_memsz :: nat
  p_align :: nat

definition PT_DYNAMIC :: nat where "PT_DYNAMIC = 2"
definition PT_INTERP :: nat where "PT_INTERP = 3"
definition PT_TLS :: nat where "PT_TLS = 7"

definition phdr_of :: "byte list \<Rightarrow> elf_phdr_t" where
  "phdr_of bs = \<lparr>p_type = get_u32 bs, p_offset = get_u64 (drop 8 bs), p_filesz = get_u64 (drop 32 bs),
     p_memsz = get_u64 (drop 40 bs), p_align = get_u64 (drop 48 bs)\<rparr>"

record elf_scan_t =
  sc_tls_size :: int
  sc_tls_align :: int
  sc_dynamic_off :: nat
  sc_dynamic_size :: nat
  sc_interp_off :: nat
  sc_interp_size :: nat

definition scan_start :: elf_scan_t where
  "scan_start = \<lparr>sc_tls_size = 0, sc_tls_align = 0, sc_dynamic_off = 0, sc_dynamic_size = 0, sc_interp_off = 0, sc_interp_size = 0\<rparr>"

definition scan_phdr :: "elf_phdr_t \<Rightarrow> elf_scan_t \<Rightarrow> elf_scan_t" where
  "scan_phdr p s =
     (let s = (if p_type p = PT_TLS then s\<lparr>sc_tls_size := ssize_of (p_memsz p), sc_tls_align := ssize_of (p_align p)\<rparr> else s);
          s = (if p_type p = PT_DYNAMIC then s\<lparr>sc_dynamic_off := p_offset p, sc_dynamic_size := p_filesz p\<rparr> else s)
      in if p_type p = PT_INTERP then s\<lparr>sc_interp_off := p_offset p, sc_interp_size := p_filesz p\<rparr> else s)"

text \<open>The headers are indexed by the size of the C structure, whatever size the file gives.\<close>

primrec scan_phdrs :: "nat \<Rightarrow> byte list \<Rightarrow> elf_scan_t \<Rightarrow> elf_scan_t option" where
  "scan_phdrs 0 buf s = Some s"
| "scan_phdrs (Suc n) buf s = (if length buf < 56 then None else scan_phdrs n (drop 56 buf) (scan_phdr (phdr_of buf) s))"

text \<open>The loop over the dynamic section looks at a tag before it compares with the end of the
  section; the flags that it looks for are not used.\<close>

function dyn_scan :: "byte list \<Rightarrow> bool" where
  "dyn_scan buf =
     (if length buf < 8 then False
      else if get_u64 buf = 0 then True
      else if length buf < 16 then False
      else get_u64 buf = 30 \<or> dyn_scan (drop 16 buf))"
  by auto
termination by (relation "measure length") auto

declare dyn_scan.simps [simp del]

section \<open>Reading a file\<close>

datatype dso_contents =
    Dso_Script "string option"
  | Dso_Short
  | Dso_Failed string
  | Dso_Dynamic string int int

text \<open>\<open>getline\<close> after the two characters \<open>#!\<close>.\<close>

definition first_line :: "byte list \<Rightarrow> byte list" where
  "first_line bs = takeWhile (\<lambda>c. c \<noteq> CHR 0x0A) bs @ (if CHR 0x0A \<in> set bs then [CHR 0x0A] else [])"

definition script_line :: "dso_file_t \<Rightarrow> string option" where
  "script_line f =
     (let line = first_line (drop 2 (f_bytes f))
      in if line = [] \<or> bad_before f (2 + length line) then None else Some line)"

text \<open>The exit with an error copies \<open>interp_size\<close> bytes to the caller's buffer of
  \<open>MAX_PATH_LEN + 1\<close> bytes, where the size is as the file gives it until the interpreter is read.\<close>

definition dso_failed :: "bool \<Rightarrow> nat \<Rightarrow> string \<Rightarrow> dso_contents option" where
  "dso_failed want interp_size ldso =
     (if want \<and> interp_size > MAX_PATH_LEN + 1 then None else Some (Dso_Failed ldso))"

definition read_dynamic :: "dso_file_t \<Rightarrow> elf_scan_t \<Rightarrow> string \<Rightarrow> dso_contents option" where
  "read_dynamic f s ldso =
     (if \<not> seekable (sc_dynamic_off s) then Some (Dso_Failed ldso)
      else case reliable_read f (sc_dynamic_off s) (sc_dynamic_size s) of
             None \<Rightarrow> Some (Dso_Failed ldso)
           | Some buf \<Rightarrow> if dyn_scan buf then Some (Dso_Dynamic ldso (sc_tls_size s) (sc_tls_align s)) else None)"

definition read_interp :: "bool \<Rightarrow> dso_file_t \<Rightarrow> elf_scan_t \<Rightarrow> dso_contents option" where
  "read_interp want f s =
     (if sc_interp_off s = 0 \<or> sc_interp_size s = 0 then
        (if want \<and> sc_interp_size s > MAX_PATH_LEN + 1 then None else read_dynamic f s [])
      else if \<not> seekable (sc_interp_off s) then dso_failed want (sc_interp_size s) []
      else let interp_size = min (sc_interp_size s) MAX_PATH_LEN
           in case reliable_read f (sc_interp_off s) interp_size of
                None \<Rightarrow> if bad_before f (Suc (sc_interp_off s)) then Some (Dso_Failed []) else None
              | Some ldso \<Rightarrow>
                  if NUL \<in> set ldso then read_dynamic f s (c_str ldso)
                  else if length ldso = interp_size \<and> \<not> want then read_dynamic f s ldso
                  else None)"

definition read_segments :: "bool \<Rightarrow> dso_file_t \<Rightarrow> byte list \<Rightarrow> dso_contents option" where
  "read_segments want f ehdr = do {
     let phnum = get_u16 (drop 56 ehdr);
     let phentsize = get_u16 (drop 54 ehdr);
     let phoff = get_u64 (drop 32 ehdr);
     if int phentsize * int phnum \<ge> 2 ^ 31 then None
     else case reliable_read f (if seekable phoff then phoff else 64) (phentsize * phnum) of
            None \<Rightarrow> Some (Dso_Failed [])
          | Some buf \<Rightarrow> do {
              s \<leftarrow> scan_phdrs phnum buf scan_start;
              if sc_dynamic_off s = 0 \<and> sc_dynamic_size s = 0 then dso_failed want (sc_interp_size s) []
              else read_interp want f s
            }
   }"

definition ELFMAG :: "byte list" where
  "ELFMAG = [CHR 0x7F, CHR ''E'', CHR ''L'', CHR ''F'']"

definition parse_dso :: "bool \<Rightarrow> dso_file_t option \<Rightarrow> dso_contents option" where
  "parse_dso want file =
     (case file of
        None \<Rightarrow> Some (Dso_Failed [])
      | Some f \<Rightarrow>
          (case reliable_read f 0 2 of
             None \<Rightarrow> Some (Dso_Failed [])
           | Some cbuffer \<Rightarrow>
               if length cbuffer < 2 then Some (Dso_Failed [])
               else if cbuffer = ''#!'' then Some (Dso_Script (script_line f))
               else if cbuffer \<noteq> take 2 ELFMAG then Some (Dso_Failed [])
               else (case reliable_read f 2 62 of
                       None \<Rightarrow> Some (Dso_Failed [])
                     | Some rest \<Rightarrow>
                         if length rest \<noteq> 62 then Some Dso_Short
                         else if take 4 (cbuffer @ rest) \<noteq> ELFMAG then Some (Dso_Failed [])
                         else read_segments want f (cbuffer @ rest))))"

section \<open>The libraries of an executable\<close>

definition is_blank :: "char \<Rightarrow> bool" where
  "is_blank c \<longleftrightarrow> c = CHR '' '' \<or> c = CHR 0x09"

function lines_of :: "string \<Rightarrow> string list" where
  "lines_of bs = (if bs = [] then [] else first_line bs # lines_of (drop (length (first_line bs)) bs))"
  by auto
termination
proof (relation "measure length")
  fix bs :: string
  assume "bs \<noteq> []"
  then have "first_line bs \<noteq> []" by (cases bs) (auto simp: first_line_def)
  with \<open>bs \<noteq> []\<close> show "(drop (length (first_line bs)) bs, bs) \<in> measure length" by simp
qed simp

declare lines_of.simps [simp del]

fun strstr_at :: "string \<Rightarrow> string \<Rightarrow> nat option" where
  "strstr_at pat [] = (if pat = [] then Some 0 else None)"
| "strstr_at pat (c # s) = (if take (length pat) (c # s) = pat then Some 0 else map_option Suc (strstr_at pat s))"

fun strrchr_at :: "char \<Rightarrow> string \<Rightarrow> nat option" where
  "strrchr_at c [] = None"
| "strrchr_at c (d # s) = (case strrchr_at c s of Some i \<Rightarrow> Some (Suc i) | None \<Rightarrow> if c = d then Some 0 else None)"

text \<open>\<open>while (blank(*end) && end != start) end--;\<close>, from the index of the last character of the
  name. Running off the front of the line is \<^const>\<open>None\<close>.\<close>

fun trim_back :: "string \<Rightarrow> nat \<Rightarrow> nat \<Rightarrow> nat option" where
  "trim_back line start 0 = (if is_blank (line ! 0) \<and> 0 \<noteq> start then None else Some 0)"
| "trim_back line start (Suc e) =
     (if is_blank (line ! Suc e) \<and> Suc e \<noteq> start then trim_back line start e else Some (Suc e))"

text \<open>The path in one line, \<open>Some None\<close> when the line is skipped.\<close>

definition parse_list_line :: "string \<Rightarrow> string option option" where
  "parse_list_line bytes =
     (let line = c_str bytes;
          blanks = length (takeWhile is_blank line);
          start = (case strstr_at '' => '' line of Some arrow \<Rightarrow> arrow + 4 | None \<Rightarrow> blanks)
      in if blanks = length line \<or> start = length line then Some None
         else do {
           e \<leftarrow> (case strrchr_at CHR ''('' (drop start line) of
                   Some paren \<Rightarrow> if start + paren = 0 then None else Some (start + paren - 1)
                 | None \<Rightarrow> Some (length line - 1));
           e \<leftarrow> trim_back line start e;
           Some (Some (if Suc e < start then drop start line else drop start (take (Suc e) line)))
         })"

text \<open>New entries go to the front of the list.\<close>

primrec parse_list :: "string list \<Rightarrow> string list \<Rightarrow> string list option" where
  "parse_list [] filelist = Some filelist"
| "parse_list (l # ls) filelist = do {
     p \<leftarrow> parse_list_line l;
     parse_list ls (case p of None \<Rightarrow> filelist | Some file \<Rightarrow> file # filelist)
   }"

text \<open>The output of \<open>ld.so --list\<close>, if it exits with status 0, and the list that \<open>get_libraries\<close>
  makes of it. The server waits for the process before it reads the pipe: with more output than
  the pipe holds, both wait forever.\<close>

definition pipe_capacity :: int where
  "pipe_capacity = 65536"

definition list_of_output :: "string option \<Rightarrow> string list option" where
  "list_of_output out =
     (case out of
        None \<Rightarrow> Some []
      | Some output \<Rightarrow> if int (length output) > pipe_capacity then None else parse_list (lines_of output) [])"

section \<open>What is read from a well-formed file\<close>

text \<open>The last program header of a type.\<close>

definition segment :: "nat \<Rightarrow> elf_phdr_t list \<Rightarrow> elf_phdr_t option" where
  "segment ty ps = find (\<lambda>p. p_type p = ty) (rev ps)"

definition segment_bytes :: "byte list \<Rightarrow> elf_phdr_t \<Rightarrow> byte list" where
  "segment_bytes bs p = take (p_filesz p) (drop (p_offset p) bs)"

lemma segment_snoc: "segment ty (ps @ [p]) = (if p_type p = ty then Some p else segment ty ps)"
  by (simp add: segment_def)

lemma PT_distinct: "PT_DYNAMIC \<noteq> PT_INTERP" "PT_DYNAMIC \<noteq> PT_TLS" "PT_INTERP \<noteq> PT_TLS"
  by (simp_all add: PT_DYNAMIC_def PT_INTERP_def PT_TLS_def)

lemma scan_phdr_simps:
  "sc_tls_size (scan_phdr p s) = (if p_type p = PT_TLS then ssize_of (p_memsz p) else sc_tls_size s)"
  "sc_tls_align (scan_phdr p s) = (if p_type p = PT_TLS then ssize_of (p_align p) else sc_tls_align s)"
  "sc_dynamic_off (scan_phdr p s) = (if p_type p = PT_DYNAMIC then p_offset p else sc_dynamic_off s)"
  "sc_dynamic_size (scan_phdr p s) = (if p_type p = PT_DYNAMIC then p_filesz p else sc_dynamic_size s)"
  "sc_interp_off (scan_phdr p s) = (if p_type p = PT_INTERP then p_offset p else sc_interp_off s)"
  "sc_interp_size (scan_phdr p s) = (if p_type p = PT_INTERP then p_filesz p else sc_interp_size s)"
  by (auto simp: scan_phdr_def Let_def PT_distinct)

lemma scan_fold:
  fixes ps :: "elf_phdr_t list"
  shows
  "sc_tls_size (fold scan_phdr ps s) = (case segment PT_TLS ps of None \<Rightarrow> sc_tls_size s | Some p \<Rightarrow> ssize_of (p_memsz p))"
  "sc_tls_align (fold scan_phdr ps s) = (case segment PT_TLS ps of None \<Rightarrow> sc_tls_align s | Some p \<Rightarrow> ssize_of (p_align p))"
  "sc_dynamic_off (fold scan_phdr ps s) = (case segment PT_DYNAMIC ps of None \<Rightarrow> sc_dynamic_off s | Some p \<Rightarrow> p_offset p)"
  "sc_dynamic_size (fold scan_phdr ps s) = (case segment PT_DYNAMIC ps of None \<Rightarrow> sc_dynamic_size s | Some p \<Rightarrow> p_filesz p)"
  "sc_interp_off (fold scan_phdr ps s) = (case segment PT_INTERP ps of None \<Rightarrow> sc_interp_off s | Some p \<Rightarrow> p_offset p)"
  "sc_interp_size (fold scan_phdr ps s) = (case segment PT_INTERP ps of None \<Rightarrow> sc_interp_size s | Some p \<Rightarrow> p_filesz p)"
  by (induction ps rule: rev_induct) (simp_all add: segment_snoc scan_phdr_simps, simp_all add: segment_def)

text \<open>A readable 64-bit ELF file with program headers \<open>ps\<close> right behind its header, and segments for
  the dynamic section and the interpreter \<open>ldso\<close> that lie inside the file.\<close>

definition elf_file :: "dso_file_t \<Rightarrow> elf_phdr_t list \<Rightarrow> bool" where
  "elf_file f ps \<longleftrightarrow>
     (let ehdr = take 64 (f_bytes f); hs = take (56 * length ps) (drop 64 (f_bytes f))
      in f_bad f = None \<and> length ehdr = 64 \<and> take 4 ehdr = ELFMAG \<and> get_u64 (drop 32 ehdr) = 64 \<and>
         get_u16 (drop 54 ehdr) = 56 \<and> get_u16 (drop 56 ehdr) = length ps \<and> int (length ps) < 2 ^ 16 \<and>
         length hs = 56 * length ps \<and> map (\<lambda>i. phdr_of (drop (56 * i) hs)) [0..<length ps] = ps)"

definition segment_inside :: "byte list \<Rightarrow> elf_phdr_t \<Rightarrow> bool" where
  "segment_inside bs p \<longleftrightarrow> 0 < p_offset p \<and> p_offset p + p_filesz p \<le> length bs \<and> int (length bs) < 2 ^ 63"

definition linked_with :: "byte list \<Rightarrow> elf_phdr_t list \<Rightarrow> string \<Rightarrow> bool" where
  "linked_with bs ps ldso \<longleftrightarrow>
     (case segment PT_DYNAMIC ps of None \<Rightarrow> False | Some d \<Rightarrow> segment_inside bs d \<and> dyn_scan (segment_bytes bs d)) \<and>
     (case segment PT_INTERP ps of None \<Rightarrow> ldso = [] | Some i \<Rightarrow> segment_inside bs i \<and>
        segment_bytes bs i = cstr ldso \<and> nul_free ldso \<and> length ldso < MAX_PATH_LEN)"

lemma reliable_read_ok: "f_bad f = None \<Longrightarrow> reliable_read f off n = Some (take n (drop off (f_bytes f)))"
  by (simp add: reliable_read_def bad_before_def)

lemma scan_phdrs_all:
  "length buf = 56 * n \<Longrightarrow> scan_phdrs n buf s = Some (fold scan_phdr (map (\<lambda>i. phdr_of (drop (56 * i) buf)) [0..<n]) s)"
proof (induction n arbitrary: buf s)
  case (Suc n)
  have "map (\<lambda>i. phdr_of (drop (56 * i) buf)) [0..<Suc n] = phdr_of buf # map (\<lambda>i. phdr_of (drop (56 * i) (drop 56 buf))) [0..<n]"
    by (simp add: upt_conv_Cons map_Suc_upt [symmetric] add.commute del: upt_Suc)
  with Suc.IH [of "drop 56 buf"] Suc.prems show ?case by (simp del: upt_Suc)
qed simp

lemma parse_dso_scan:
  assumes "elf_file f ps" and "linked_with (f_bytes f) ps ldso"
  shows "parse_dso want (Some f) = read_interp want f (fold scan_phdr ps scan_start)"
proof -
  define ehdr where "ehdr = take 64 (f_bytes f)"
  define hs where "hs = take (56 * length ps) (drop 64 (f_bytes f))"
  have e: "f_bad f = None" "length ehdr = 64" "take 4 ehdr = ELFMAG" "get_u64 (drop 32 ehdr) = 64" "get_u16 (drop 54 ehdr) = 56"
    "get_u16 (drop 56 ehdr) = length ps" "int (length ps) < 2 ^ 16" "length hs = 56 * length ps"
    "map (\<lambda>i. phdr_of (drop (56 * i) hs)) [0..<length ps] = ps"
    using assms(1) by (simp_all add: elf_file_def ehdr_def hs_def Let_def)
  have two: "(take 2 ehdr = take 2 ELFMAG) = True" "(take 2 ehdr = ''#!'') = False"
    using arg_cong [OF e(3), of "take 2"] by (simp_all add: ELFMAG_def)
  have "take 2 (f_bytes f) = take 2 ehdr" "take 62 (drop 2 (f_bytes f)) = drop 2 ehdr"
    by (simp_all add: ehdr_def drop_take)
  then have "parse_dso want (Some f) = read_segments want f ehdr"
    using e by (simp add: parse_dso_def reliable_read_ok two)
  also have "\<dots> = read_interp want f (fold scan_phdr ps scan_start)"
    using e scan_phdrs_all [OF e(8), of scan_start] assms(2)
    by (simp add: read_segments_def reliable_read_ok seekable_def hs_def [symmetric])
      (auto simp: linked_with_def segment_inside_def scan_fold split: option.splits)
  finally show ?thesis .
qed

lemma read_interp_scan:
  assumes "f_bad f = None" and "linked_with (f_bytes f) ps ldso"
  shows "read_interp want f (fold scan_phdr ps scan_start) = read_dynamic f (fold scan_phdr ps scan_start) ldso"
proof (cases "segment PT_INTERP ps")
  case None
  then show ?thesis using assms(2) by (simp add: linked_with_def read_interp_def scan_fold scan_start_def)
next
  case (Some i)
  with assms(2) have i: "segment_inside (f_bytes f) i" "segment_bytes (f_bytes f) i = cstr ldso" "nul_free ldso" "length ldso < MAX_PATH_LEN"
    by (simp_all add: linked_with_def)
  from i(1) have "length (segment_bytes (f_bytes f) i) = p_filesz i" by (auto simp: segment_bytes_def segment_inside_def)
  with i(2) have size: "p_filesz i = Suc (length ldso)" by simp
  with i(2) have "take (Suc (length ldso)) (drop (p_offset i) (f_bytes f)) = cstr ldso"
    by (simp add: segment_bytes_def)
  moreover have "min (Suc (length ldso)) MAX_PATH_LEN = Suc (length ldso)" using i(4) by simp
  moreover have "seekable (p_offset i)" "0 < p_offset i" using i(1) by (auto simp: segment_inside_def seekable_def)
  moreover have "NUL \<in> set (cstr ldso)" by (simp add: cstr_def)
  ultimately show ?thesis
    using i(3) Some size assms(1) by (simp add: read_interp_def scan_fold reliable_read_ok codec_simps)
qed

lemma read_dynamic_scan:
  assumes "f_bad f = None" and "linked_with (f_bytes f) ps ldso"
  shows "read_dynamic f (fold scan_phdr ps scan_start) ldso = Some (case segment PT_TLS ps of
      None \<Rightarrow> Dso_Dynamic ldso 0 0
    | Some t \<Rightarrow> Dso_Dynamic ldso (ssize_of (p_memsz t)) (ssize_of (p_align t)))"
  using assms by (auto simp: read_dynamic_def scan_fold scan_start_def linked_with_def segment_inside_def segment_bytes_def
      seekable_def reliable_read_ok split: option.splits)

text \<open>C30. For an ELF file with a dynamic section, the size and the alignment are those of the last TLS
  segment, or 0, and the interpreter is the string in the interpreter segment, or empty.\<close>

theorem elf_tls_read:
  assumes "elf_file f ps" and "linked_with (f_bytes f) ps ldso"
  shows "parse_dso want (Some f) = Some (case segment PT_TLS ps of
      None \<Rightarrow> Dso_Dynamic ldso 0 0
    | Some t \<Rightarrow> Dso_Dynamic ldso (ssize_of (p_memsz t)) (ssize_of (p_align t)))"
proof -
  have "f_bad f = None" using assms(1) by (simp add: elf_file_def Let_def)
  then show ?thesis using assms by (simp add: parse_dso_scan read_interp_scan read_dynamic_scan)
qed

text \<open>A line of \<open>ld.so --list\<close>: a tab, the name of a library, an arrow, its path and the address it
  is mapped at.\<close>

definition list_line :: "string \<times> string \<times> string \<Rightarrow> string" where
  "list_line l = (case l of (name, file, addr) \<Rightarrow>
     [CHR 0x09] @ name @ '' => '' @ file @ '' ('' @ addr @ '')'' @ [CHR 0x0A])"

definition plain_word :: "string \<Rightarrow> bool" where
  "plain_word s \<longleftrightarrow> (\<forall>c \<in> set s. \<not> is_blank c \<and> c \<noteq> CHR 0x0A \<and> c \<noteq> NUL \<and> c \<noteq> CHR ''('')"

definition line_ok :: "string \<times> string \<times> string \<Rightarrow> bool" where
  "line_ok l \<longleftrightarrow> (case l of (name, file, addr) \<Rightarrow> plain_word name \<and> plain_word file \<and> plain_word addr \<and> file \<noteq> [])"

lemma strstr_at_append:
  "pat \<noteq> [] \<Longrightarrow> hd pat \<notin> set xs \<Longrightarrow> strstr_at pat (xs @ pat @ ys) = Some (length xs)"
proof (induction xs)
  case Nil
  then show ?case by (cases pat) simp_all
next
  case (Cons x xs)
  then show ?case by (cases pat) auto
qed

lemma strrchr_at_none: "c \<notin> set b \<Longrightarrow> strrchr_at c b = None"
  by (induction b) auto

lemma strrchr_at_append: "c \<notin> set b \<Longrightarrow> strrchr_at c (a @ c # b) = Some (length a)"
  by (induction a) (simp_all add: strrchr_at_none)

lemma trim_back_skip:
  "is_blank (line ! Suc e) \<Longrightarrow> Suc e \<noteq> start \<Longrightarrow> \<not> is_blank (line ! e) \<Longrightarrow> trim_back line start (Suc e) = Some e"
  by (cases e) simp_all

lemma parse_list_line_ok:
  assumes "line_ok l"
  shows "parse_list_line (list_line l) = Some (Some (fst (snd l)))"
proof -
  obtain name lib addr where l: "l = (name, lib, addr)" by (metis prod_cases3)
  define line where "line = list_line l"
  have ok: "plain_word name" "plain_word lib" "plain_word addr" "lib \<noteq> []" using assms by (simp_all add: l line_ok_def)
  define start where "start = length name + 5"
  have line: "line = (CHR 0x09 # name) @ '' => '' @ (lib @ '' ('' @ addr @ '')'' @ [CHR 0x0A])"
    by (simp add: line_def l list_line_def)
  define pre where "pre = CHR 0x09 # name @ '' => ''"
  have pre: "length pre = start" "line = pre @ (lib @ '' '') @ CHR ''('' # addr @ '')'' @ [CHR 0x0A]"
    by (simp_all add: pre_def line start_def)
  have "c_str line = line"
    using ok by (fastforce simp: c_str_def takeWhile_eq_all_conv line plain_word_def NUL_def)
  moreover have "strstr_at '' => '' line = Some (length name + 1)"
    unfolding line using ok(1) by (subst strstr_at_append) (auto simp: plain_word_def is_blank_def)
  moreover have "length name + 1 + 4 = start" by (simp add: start_def)
  moreover have tail: "drop start line = (lib @ '' '') @ CHR ''('' # addr @ '')'' @ [CHR 0x0A]"
    unfolding pre(2) by (rule drop_append_length [OF pre(1)])
  moreover have "strrchr_at CHR ''('' (drop start line) = Some (length lib + 1)"
    unfolding tail using ok(3) by (subst strrchr_at_append) (auto simp: plain_word_def)
  moreover have "trim_back line start (start + length lib) = Some (start + length lib - 1)"
  proof -
    obtain k where k: "length lib = Suc k" using ok(4) by (cases lib) auto
    have "line ! Suc (start + k) = CHR '' ''" "line ! (start + k) = lib ! k"
      using k by (simp_all add: pre(2) nth_append pre(1) [symmetric])
    moreover have "\<not> is_blank (lib ! k)" using ok(2) k by (simp add: plain_word_def)
    moreover have "start + length lib = Suc (start + k)" "Suc (start + k) - 1 = start + k" using k by simp_all
    ultimately show ?thesis by (simp only: trim_back_skip is_blank_def simp_thms)
  qed
  moreover have "length (takeWhile is_blank line) \<noteq> length line"
  proof
    assume "length (takeWhile is_blank line) = length line"
    then have "\<forall>c \<in> set line. is_blank c" by (metis takeWhile_eq_all_conv length_takeWhile_le takeWhile_eq_take take_all order_refl)
    then show False by (simp add: line is_blank_def)
  qed
  moreover have "start < length line" by (simp add: pre)
  moreover have "drop start (take (start + length lib) line) = lib"
    by (simp add: pre(2) pre(1) [symmetric])
  moreover have "0 < length lib" "Suc (start + length lib - 1) = start + length lib" using ok(4) by simp_all
  ultimately show ?thesis
    unfolding line_def [symmetric] by (simp add: parse_list_line_def l Let_def)
qed

lemma lines_of_list:
  "\<forall>l \<in> set ls. line_ok l \<Longrightarrow> lines_of (concat (map list_line ls)) = map list_line ls"
proof (induction ls)
  case Nil
  then show ?case by (simp add: lines_of.simps)
next
  case (Cons l ls)
  obtain body where b: "list_line l = body @ [CHR 0x0A]" "CHR 0x0A \<notin> set body"
    using Cons.prems by (cases l) (auto simp: list_line_def line_ok_def plain_word_def)
  have "first_line (list_line l @ r) = list_line l" for r
    unfolding first_line_def b(1) append_assoc by (subst takeWhile_append2) (use b(2) in auto)
  then have "lines_of (list_line l @ r) = list_line l # lines_of r" for r
    by (subst lines_of.simps) (simp add: b(1))
  with Cons show ?case by simp
qed

lemma parse_list_ok:
  "\<forall>l \<in> set ls. line_ok l \<Longrightarrow> parse_list (map list_line ls) acc = Some (rev (map (fst \<circ> snd) ls) @ acc)"
  by (induction ls arbitrary: acc) (simp_all add: parse_list_line_ok)



text \<open>Small files for examples.\<close>

definition example_phdr :: "elf_phdr_t \<Rightarrow> byte list" where
  "example_phdr p = put_u32 (p_type p) @ replicate 4 NUL @ put_u64 (p_offset p) @ replicate 16 NUL @ put_u64 (p_filesz p)
     @ put_u64 (p_memsz p) @ put_u64 (p_align p)"

definition example_ehdr :: "nat \<Rightarrow> byte list" where
  "example_ehdr n = ELFMAG @ replicate 28 NUL @ put_u64 64 @ replicate 14 NUL @ le_bytes 2 56 @ le_bytes 2 n @ replicate 6 NUL"

definition example_phdrs :: "nat \<Rightarrow> nat \<Rightarrow> nat \<Rightarrow> elf_phdr_t list" where
  "example_phdrs size_ld memsz align =
     [\<lparr>p_type = PT_TLS, p_offset = 232, p_filesz = 0, p_memsz = memsz, p_align = align\<rparr>,
      \<lparr>p_type = PT_DYNAMIC, p_offset = 232, p_filesz = 16, p_memsz = 16, p_align = 8\<rparr>,
      \<lparr>p_type = (if size_ld = 0 then 0 else PT_INTERP), p_offset = 248, p_filesz = size_ld, p_memsz = size_ld, p_align = 1\<rparr>]"

definition example_elf :: "string \<Rightarrow> nat \<Rightarrow> nat \<Rightarrow> dso_file_t" where
  "example_elf ldso memsz align =
     \<lparr>f_bytes = example_ehdr 3 @ concat (map example_phdr (example_phdrs (if ldso = [] then 0 else length (cstr ldso)) memsz align)) @
        (replicate 16 NUL @ cstr ldso), f_bad = None\<rparr>"

lemma phdr_of_example:
  assumes "p_type p < 2 ^ 32" "p_offset p < 2 ^ 64" "p_filesz p < 2 ^ 64" "p_memsz p < 2 ^ 64" "p_align p < 2 ^ 64"
  shows "phdr_of (example_phdr p @ rest) = p"
  using assms by (simp add: phdr_of_def example_phdr_def codec_simps)

lemmas phdr_of_example' = phdr_of_example [where rest = "[]", simplified append_Nil2]

lemma length_example_phdr [simp]: "length (example_phdr p) = 56"
  by (simp add: example_phdr_def)

lemma elf_file_examples:
  "elf_file (example_elf ''/lib/ld.so'' 16 8) (example_phdrs 11 16 8)"
  "elf_file (example_elf [] 100 16) (example_phdrs 0 100 16)"
  "elf_file (example_elf [] 144 64) (example_phdrs 0 144 64)"
  by (simp_all add: elf_file_def example_elf_def example_phdrs_def example_ehdr_def Let_def phdr_of_example phdr_of_example' codec_simps get_u16_def
     ELFMAG_def PT_TLS_def PT_DYNAMIC_def PT_INTERP_def)

lemma example_tail:
  "drop 232 (f_bytes (example_elf l m a)) = replicate 16 NUL @ cstr l"
  "drop 248 (f_bytes (example_elf l m a)) = cstr l"
  "length (f_bytes (example_elf l m a)) = 249 + length l"
proof -
  define pre where "pre = example_ehdr 3 @ concat (map example_phdr (example_phdrs (if l = [] then 0 else length (cstr l)) m a))"
  have pre: "length pre = 232" "f_bytes (example_elf l m a) = pre @ replicate 16 NUL @ cstr l"
    by (simp_all add: pre_def example_ehdr_def example_phdrs_def ELFMAG_def example_elf_def)
  show "drop 232 (f_bytes (example_elf l m a)) = replicate 16 NUL @ cstr l"
    "drop 248 (f_bytes (example_elf l m a)) = cstr l" "length (f_bytes (example_elf l m a)) = 249 + length l"
    by (simp_all add: pre)
qed

lemma dyn_scan_zero: "dyn_scan (replicate 16 NUL)"
  by (simp add: dyn_scan.simps get_u64_def NUL_def numeral_eq_Suc)

lemma linked_examples:
  "linked_with (f_bytes (example_elf ''/lib/ld.so'' 16 8)) (example_phdrs 11 16 8) ''/lib/ld.so''"
  "linked_with (f_bytes (example_elf [] 100 16)) (example_phdrs 0 100 16) []"
  "linked_with (f_bytes (example_elf [] 144 64)) (example_phdrs 0 144 64) []"
  by (simp_all add: linked_with_def segment_def example_phdrs_def PT_TLS_def PT_DYNAMIC_def PT_INTERP_def
     segment_inside_def segment_bytes_def example_tail dyn_scan_zero dyn_scan_zero [unfolded NUL_def] nul_free_def cstr_def NUL_def)

lemma example_elf_read:
  "parse_dso want (Some (example_elf ''/lib/ld.so'' 16 8)) = Some (Dso_Dynamic ''/lib/ld.so'' 16 8)"
  "parse_dso want (Some (example_elf [] 100 16)) = Some (Dso_Dynamic [] 100 16)"
  "parse_dso want (Some (example_elf [] 144 64)) = Some (Dso_Dynamic [] 144 64)"
  using elf_file_examples linked_examples
  by (simp_all add: parse_dso_scan read_interp_scan read_dynamic_scan example_elf_def [THEN arg_cong, of f_bad])
    (simp_all add: example_phdrs_def segment_def PT_TLS_def PT_DYNAMIC_def PT_INTERP_def ssize_of_def)

theorem elf_tls_read_witness:
  "parse_dso True (Some (example_elf ''/lib/ld.so'' 16 8)) = Some (Dso_Dynamic ''/lib/ld.so'' 16 8)"
  using elf_tls_read [OF elf_file_examples(1) linked_examples(1), of True]
  by (simp add: example_phdrs_def segment_def PT_TLS_def PT_DYNAMIC_def PT_INTERP_def ssize_of_def)

end
