(* ===== verification/Static_Tls.thy ===== *)
theory Static_Tls
  imports Elf_Tls
begin

text \<open>
  Size of the static TLS area of an executable: what a client asks for
  (\<open>src/src/utils/static_tls.c\<close>), and the calculation and its caches
  (\<open>src/src/server/auditserver/filemngt_calc_static_tls.c\<close>).

  The files and what \<open>ld.so --list\<close> prints are parameters. \<^const>\<open>None\<close> is a failed assertion, a read
  outside a buffer, a use of a null pointer or a calculation that does not end.
\<close>

section \<open>Requests\<close>

record static_tls_info_t =
  executable :: "string option"
  ld_library_path :: "string option"
  ld_preload :: "string option"
  tls_cwd :: "string option"
  path_component :: "string option"

definition strcmp_w_null :: "string option \<Rightarrow> string option \<Rightarrow> bool" where
  "strcmp_w_null a b \<longleftrightarrow> case_option [] id a = case_option [] id b"

definition static_tls_info_equal :: "static_tls_info_t \<Rightarrow> static_tls_info_t \<Rightarrow> bool" where
  "static_tls_info_equal a b \<longleftrightarrow>
     strcmp_w_null (executable a) (executable b) \<and> strcmp_w_null (ld_library_path a) (ld_library_path b) \<and>
     strcmp_w_null (ld_preload a) (ld_preload b) \<and> strcmp_w_null (tls_cwd a) (tls_cwd b) \<and>
     strcmp_w_null (path_component a) (path_component b)"

definition opt_len :: "string option \<Rightarrow> nat" where
  "opt_len s = (case s of None \<Rightarrow> 0 | Some s \<Rightarrow> length s + 1)"

definition info_fields :: "static_tls_info_t \<Rightarrow> string option list" where
  "info_fields i = [executable i, ld_library_path i, ld_preload i, tls_cwd i, path_component i]"

definition static_tls_info_encode_size_needed2 :: "static_tls_info_t \<Rightarrow> nat" where
  "static_tls_info_encode_size_needed2 i = 4 * 5 + sum_list (map opt_len (info_fields i)) + 2"

definition opt_bytes :: "string option \<Rightarrow> byte list" where
  "opt_bytes s = (case s of None \<Rightarrow> [] | Some s \<Rightarrow> cstr s)"

definition static_tls_info_encode2 :: "static_tls_info_t \<Rightarrow> nat \<Rightarrow> byte list option" where
  "static_tls_info_encode2 i buffer_in_size =
     (if \<not> 4 * 5 + sum_list (map opt_len (info_fields i)) + 1 \<le> buffer_in_size then None
      else Some (concat (map (\<lambda>s. put_i32 (int (opt_len s))) (info_fields i))
                 @ concat (map opt_bytes (info_fields i)) @ [NUL]))"

text \<open>\<open>strdup (buffer + cur)\<close> when the length is not 0.\<close>

definition dup_at :: "byte list \<Rightarrow> int \<Rightarrow> int \<Rightarrow> string option option" where
  "dup_at buffer cur len =
     (if len = 0 then Some None
      else if cur < 0 \<or> NUL \<notin> set (drop (nat cur) buffer) then None
      else Some (Some (c_str (drop (nat cur) buffer))))"

definition static_tls_info_decode :: "byte list \<Rightarrow> nat \<Rightarrow> static_tls_info_t option option" where
  "static_tls_info_decode buffer buffer_len =
     (if buffer_len < 4 * 5 then Some None
      else
        let executable_len = get_i32 buffer;
            library_len = get_i32 (drop 4 buffer);
            preload_len = get_i32 (drop 8 buffer);
            cwd_len = get_i32 (drop 12 buffer);
            path_component_len = get_i32 (drop 16 buffer);
            cur = 20
        in if int buffer_len < cur + executable_len + library_len + preload_len + cwd_len + path_component_len
           then Some None
           else do {
             e \<leftarrow> dup_at buffer cur executable_len;
             let cur = cur + executable_len;
             l \<leftarrow> dup_at buffer cur library_len;
             let cur = cur + library_len;
             p \<leftarrow> dup_at buffer cur preload_len;
             let cur = cur + preload_len;
             c \<leftarrow> dup_at buffer cur cwd_len;
             let cur = cur + cwd_len;
             pc \<leftarrow> dup_at buffer cur path_component_len;
             Some (Some \<lparr>executable = e, ld_library_path = l, ld_preload = p, tls_cwd = c, path_component = pc\<rparr>)
           })"

definition static_tls_info_to_idstr :: "static_tls_info_t \<Rightarrow> string" where
  "static_tls_info_to_idstr i =
     (let names = map (\<lambda>s. case s of None \<Rightarrow> ''NONE'' | Some s \<Rightarrow> s) (info_fields i);
          sizes = map (\<lambda>s. case s of None \<Rightarrow> 0 | Some s \<Rightarrow> length s) (info_fields i);
          sz = sum_list (map length names) + 10 + 16 * 5
      in take (sz - 1) (concat (map (\<lambda>s. s @ ''|'') names)
           @ (case map dec_digits sizes of d # ds \<Rightarrow> d @ concat (map (\<lambda>d. CHR ''|'' # d) ds) | [] \<Rightarrow> [])))"

section \<open>The tables\<close>

text \<open>\<open>hash = ((hash << 5) + hash) + c\<close> with \<open>int c\<close> from a signed \<open>char\<close>.\<close>

definition hash_step :: "64 word \<Rightarrow> char \<Rightarrow> 64 word" where
  "hash_step hash c = push_bit 5 hash + hash + word_of_int (sint (word_of_nat (of_char c) :: 8 word))"

definition hash_str :: "64 word \<Rightarrow> string \<Rightarrow> 64 word" where
  "hash_str = foldl hash_step"

definition hash_opt :: "64 word \<Rightarrow> string option \<Rightarrow> 64 word" where
  "hash_opt hash s = (case s of None \<Rightarrow> hash | Some s \<Rightarrow> hash_str hash s)"

definition hash_func :: "static_tls_info_t \<Rightarrow> 64 word" where
  "hash_func i = foldl hash_opt 5381
     [executable i, ld_library_path i, ld_preload i, path_component i, tls_cwd i]"

definition str_hash_func :: "string \<Rightarrow> 64 word" where
  "str_hash_func s = hash_str 5381 s"

record executable_list_t =
  ex_info :: static_tls_info_t
  ex_tls_size :: int
  ex_tls_alignment :: int

record library_list_t =
  lib_path :: string
  lib_interp :: string
  lib_tls_size :: int
  lib_tls_alignment :: int

record tls_tables_t =
  executable_hash_table :: "nat \<Rightarrow> executable_list_t list"
  library_hash_table :: "nat \<Rightarrow> library_list_t list"
  cached_audit_client_tls :: "(int \<times> int) option"

definition exec_key :: "static_tls_info_t \<Rightarrow> nat" where
  "exec_key i = unat (hash_func i) mod 64"

definition lib_key :: "string \<Rightarrow> nat" where
  "lib_key s = unat (str_hash_func s) mod 512"

definition executable_hash_lookup :: "tls_tables_t \<Rightarrow> static_tls_info_t \<Rightarrow> executable_list_t option" where
  "executable_hash_lookup t i = find (\<lambda>e. static_tls_info_equal (ex_info e) i) (executable_hash_table t (exec_key i))"

text \<open>A new entry at the head of its bucket, with the values that every caller stores in it
  next.\<close>

definition executable_hash_add :: "static_tls_info_t \<Rightarrow> int \<Rightarrow> int \<Rightarrow> tls_tables_t \<Rightarrow> tls_tables_t" where
  "executable_hash_add i sz al t =
     t\<lparr>executable_hash_table := (executable_hash_table t)(exec_key i :=
         \<lparr>ex_info = i, ex_tls_size = sz, ex_tls_alignment = al\<rparr> # executable_hash_table t (exec_key i))\<rparr>"

fun set_first :: "('a \<Rightarrow> bool) \<Rightarrow> ('a \<Rightarrow> 'a) \<Rightarrow> 'a list \<Rightarrow> 'a list" where
  "set_first P f [] = []"
| "set_first P f (x # xs) = (if P x then f x # xs else x # set_first P f xs)"

text \<open>Storing into the entry of an executable, which is created when there is none.\<close>

definition executable_hash_set :: "static_tls_info_t \<Rightarrow> int \<Rightarrow> int \<Rightarrow> tls_tables_t \<Rightarrow> tls_tables_t" where
  "executable_hash_set i sz al t =
     (case executable_hash_lookup t i of
        None \<Rightarrow> executable_hash_add i sz al t
      | Some _ \<Rightarrow> t\<lparr>executable_hash_table := (executable_hash_table t)(exec_key i :=
            set_first (\<lambda>e. static_tls_info_equal (ex_info e) i) (\<lambda>e. e\<lparr>ex_tls_size := sz, ex_tls_alignment := al\<rparr>)
              (executable_hash_table t (exec_key i)))\<rparr>)"

definition library_hash_lookup :: "tls_tables_t \<Rightarrow> string \<Rightarrow> library_list_t option" where
  "library_hash_lookup t p = find (\<lambda>l. lib_path l = p) (library_hash_table t (lib_key p))"

definition library_hash_add :: "string \<Rightarrow> string \<Rightarrow> int \<Rightarrow> int \<Rightarrow> tls_tables_t \<Rightarrow> tls_tables_t" where
  "library_hash_add p ldso sz al t =
     t\<lparr>library_hash_table := (library_hash_table t)(lib_key p :=
         \<lparr>lib_path = p, lib_interp = ldso, lib_tls_size = sz, lib_tls_alignment = al\<rparr> # library_hash_table t (lib_key p))\<rparr>"

definition static_tls_info_lookup :: "tls_tables_t \<Rightarrow> static_tls_info_t \<Rightarrow> (int \<times> int) option" where
  "static_tls_info_lookup t i =
     (case executable_hash_lookup t i of
        None \<Rightarrow> None
      | Some e \<Rightarrow> if ex_tls_size e = -1 \<and> ex_tls_alignment e = -1 then None
                  else Some (ex_tls_size e, ex_tls_alignment e))"

definition static_tls_info_add :: "static_tls_info_t \<Rightarrow> int \<Rightarrow> int \<Rightarrow> tls_tables_t \<Rightarrow> tls_tables_t" where
  "static_tls_info_add i sz al t = executable_hash_add i sz al t"

section \<open>The calculation\<close>

text \<open>The files, the output of \<open>ldso --list executable\<close> run with an \<open>LD_LIBRARY_PATH\<close>, an
  \<open>LD_PRELOAD\<close> and a working directory, when it exits with status 0, the libraries that the client
  is configured with, and what an uninitialised pair of variables holds.\<close>

record tls_env_t =
  tls_file :: "string \<Rightarrow> dso_file_t option"
  tls_ld_list :: "string \<Rightarrow> string \<Rightarrow> string option \<Rightarrow> string option \<Rightarrow> string option \<Rightarrow> string option"
  default_audit_libstr :: string
  default_subaudit_libstr :: string
  tls_uninit :: "int \<times> int"

definition get_libraries :: "tls_env_t \<Rightarrow> static_tls_info_t \<Rightarrow> string \<Rightarrow> string \<Rightarrow> string list option" where
  "get_libraries env info exe ldso =
     (let exe = (case path_component info of
            Some pc \<Rightarrow> if take 1 exe \<noteq> ''/'' then pc @ ''/'' @ exe else exe
          | None \<Rightarrow> exe)
      in list_of_output (tls_ld_list env ldso exe (ld_library_path info) (ld_preload info) (tls_cwd info)))"

datatype dso_result =
    Is_Script "string option"
  | Dso_Error
  | Dso_Sizes string int int

definition static_tls_size_for_dso :: "tls_env_t \<Rightarrow> string \<Rightarrow> bool \<Rightarrow> tls_tables_t \<Rightarrow> (dso_result \<times> tls_tables_t) option" where
  "static_tls_size_for_dso env p want_script t =
     (case library_hash_lookup t p of
        Some lib \<Rightarrow> Some (Dso_Sizes (lib_interp lib) (lib_tls_size lib) (lib_tls_alignment lib), t)
      | None \<Rightarrow>
          (case parse_dso want_script (tls_file env p) of
             None \<Rightarrow> None
           | Some (Dso_Script line) \<Rightarrow> if want_script then Some (Is_Script line, t) else None
           | Some Dso_Short \<Rightarrow> Some (Dso_Error, t)
           | Some (Dso_Failed ldso) \<Rightarrow> Some (Dso_Error, library_hash_add p ldso (-1) (-1) t)
           | Some (Dso_Dynamic ldso sz al) \<Rightarrow> Some (Dso_Sizes ldso sz al, library_hash_add p ldso sz al t)))"

definition add_tls_sizes :: "int \<times> int \<Rightarrow> int \<times> int \<Rightarrow> int \<times> int" where
  "add_tls_sizes acc new = (fst acc + fst new + snd new, if snd new > snd acc then snd new else snd acc)"

primrec add_libraries :: "tls_env_t \<Rightarrow> string list \<Rightarrow> int \<times> int \<Rightarrow> tls_tables_t \<Rightarrow> ((int \<times> int) \<times> tls_tables_t) option" where
  "add_libraries env [] acc t = Some (acc, t)"
| "add_libraries env (l # ls) acc t = do {
     (r, t) \<leftarrow> static_tls_size_for_dso env l False t;
     add_libraries env ls (case r of Dso_Sizes _ sz al \<Rightarrow> add_tls_sizes acc (sz, al) | _ \<Rightarrow> acc) t
   }"

text \<open>The result of a calculation and what it has written through its two pointers.\<close>

type_synonym tls_calc = "(int \<times> (int \<times> int) option) \<times> tls_tables_t"

definition script_interp :: "string \<Rightarrow> string" where
  "script_interp line =
     take MAX_PATH_LEN (takeWhile (\<lambda>c. \<not> is_blank c \<and> c \<noteq> CHR 0x0A \<and> c \<noteq> NUL) (dropWhile is_blank line))"

definition handle_script ::
  "(static_tls_info_t \<Rightarrow> string option \<Rightarrow> tls_tables_t \<Rightarrow> tls_calc option) \<Rightarrow> tls_env_t \<Rightarrow>
   static_tls_info_t \<Rightarrow> string option \<Rightarrow> tls_tables_t \<Rightarrow> tls_calc option" where
  "handle_script calc env info line t =
     (case line of
        None \<Rightarrow> Some ((-1, None), t)
      | Some line \<Rightarrow>
          (let interp_info = info\<lparr>executable := Some (script_interp line)\<rparr>
           in case static_tls_info_lookup t interp_info of
                Some (sz, al) \<Rightarrow> Some ((0, Some (sz, al)), t)
              | None \<Rightarrow> do {
                  ((_, written), t) \<leftarrow> calc interp_info None t;
                  let (sz, al) = (case written of Some v \<Rightarrow> v | None \<Rightarrow> tls_uninit env);
                  Some ((0, written), executable_hash_add interp_info sz al t)
                }))"

text \<open>\<open>calc_static_tls_for_executable_w_interp\<close> and \<open>calc_static_tls_for_executable\<close> differ in the
  interpreter they pass on. Both return the result and the size, and the alignment only when it
  is not 0.\<close>

definition calc_and_store ::
  "(static_tls_info_t \<Rightarrow> string option \<Rightarrow> tls_tables_t \<Rightarrow> tls_calc option) \<Rightarrow> tls_env_t \<Rightarrow>
   static_tls_info_t \<Rightarrow> string option \<Rightarrow> tls_tables_t \<Rightarrow> ((int \<times> int \<times> int option) \<times> tls_tables_t) option" where
  "calc_and_store calc env info interp t = do {
     ((res, written), t) \<leftarrow> calc info interp t;
     let (sz, al) = (if res = -1 then (-1, -1) else case written of Some v \<Rightarrow> v | None \<Rightarrow> tls_uninit env);
     Some ((res, sz, if al \<noteq> 0 then Some al else None), executable_hash_set info sz al t)
   }"

definition audit_lib_info :: "string \<Rightarrow> static_tls_info_t" where
  "audit_lib_info lib = \<lparr>executable = Some lib, ld_library_path = None, ld_preload = None, tls_cwd = None, path_component = None\<rparr>"

definition audit_lib_sizes ::
  "(static_tls_info_t \<Rightarrow> string option \<Rightarrow> tls_tables_t \<Rightarrow> tls_calc option) \<Rightarrow> tls_env_t \<Rightarrow>
   string \<Rightarrow> string \<Rightarrow> tls_tables_t \<Rightarrow> ((int \<times> int \<times> int) \<times> tls_tables_t) option" where
  "audit_lib_sizes calc env lib interp t =
     (if lib = [] then Some ((-1, 0, 0), t)
      else do {
        ((res, sz, al), t) \<leftarrow> calc_and_store calc env (audit_lib_info lib) (Some interp) t;
        Some ((res, sz, case al of Some a \<Rightarrow> a | None \<Rightarrow> 0), t)
      })"

definition calc_static_tls_for_audit_client ::
  "(static_tls_info_t \<Rightarrow> string option \<Rightarrow> tls_tables_t \<Rightarrow> tls_calc option) \<Rightarrow> tls_env_t \<Rightarrow>
   string \<Rightarrow> tls_tables_t \<Rightarrow> tls_calc option" where
  "calc_static_tls_for_audit_client calc env interp t =
     (case cached_audit_client_tls t of
        Some v \<Rightarrow> Some ((0, Some v), t)
      | None \<Rightarrow> do {
          ((ar, asz, aal), t) \<leftarrow> audit_lib_sizes calc env (default_audit_libstr env) interp t;
          ((sr, ssz, sal), t) \<leftarrow> audit_lib_sizes calc env (default_subaudit_libstr env) interp t;
          if ar = -1 \<and> sr = -1
          then Some ((-1, Some (-1, -1)), t\<lparr>cached_audit_client_tls := Some (-1, -1)\<rparr>)
          else Some ((0, None), t\<lparr>cached_audit_client_tls :=
                 Some (if asz > ssz then asz else ssz, if aal > sal then aal else sal)\<rparr>)
        })"

text \<open>\<open>int\<close> result of a function that returns an \<open>ssize_t\<close> value.\<close>

definition int_of_ssize :: "int \<Rightarrow> int" where
  "int_of_ssize i = sint (word_of_int i :: 32 word)"

text \<open>The first argument bounds the depth of the recursion: an executable, the audit libraries
  below it, and one level for each script whose interpreter is a script. A script that is its own
  interpreter makes the code recurse without end.\<close>

primrec calc_static_tls_for_executable_nocache ::
  "nat \<Rightarrow> tls_env_t \<Rightarrow> static_tls_info_t \<Rightarrow> string option \<Rightarrow> tls_tables_t \<Rightarrow> tls_calc option" where
  "calc_static_tls_for_executable_nocache 0 env info use_interp t = None"
| "calc_static_tls_for_executable_nocache (Suc n) env info use_interp t =
     (case executable info of
        None \<Rightarrow> None
      | Some exe \<Rightarrow> do {
          let executable_path = (case path_component info of
                Some pc \<Rightarrow> if CHR ''/'' \<notin> set exe then take (MAX_PATH_LEN - 1) (pc @ ''/'' @ exe) else exe
              | None \<Rightarrow> exe);
          (r, t) \<leftarrow> static_tls_size_for_dso env executable_path True t;
          case r of
            Dso_Error \<Rightarrow> Some ((-1, None), t)
          | Is_Script line \<Rightarrow> handle_script (calc_static_tls_for_executable_nocache n env) env info line t
          | Dso_Sizes ldso sz al \<Rightarrow>
              if use_interp = None \<and> ldso = [] then Some ((-1, None), t)
              else do {
                let interp = (case use_interp of Some u \<Rightarrow> take MAX_PATH_LEN u | None \<Rightarrow> ldso);
                let acc = add_tls_sizes (0, 0) (sz, al);
                (acc, t) \<leftarrow>
                  (if use_interp \<noteq> None then Some (acc, t)
                   else do {
                     ((ar, written), t) \<leftarrow>
                       calc_static_tls_for_audit_client (calc_static_tls_for_executable_nocache n env) env interp t;
                     Some (if ar = -1 then acc else add_tls_sizes acc (case written of Some v \<Rightarrow> v | None \<Rightarrow> (0, 0)), t)
                   });
                dt_needed_libs \<leftarrow> get_libraries env info exe interp;
                if dt_needed_libs = [] then Some ((-1, None), t)
                else do {
                  (acc, t) \<leftarrow> add_libraries env dt_needed_libs acc t;
                  Some ((int_of_ssize (fst acc), Some acc), t)
                }
              }
        })"

definition calc_static_tls_for_executable ::
  "nat \<Rightarrow> tls_env_t \<Rightarrow> static_tls_info_t \<Rightarrow> tls_tables_t \<Rightarrow> ((int \<times> int \<times> int option) \<times> tls_tables_t) option" where
  "calc_static_tls_for_executable fuel env info t =
     calc_and_store (calc_static_tls_for_executable_nocache fuel env) env info None t"

definition handle_calculate_total_static_tls_needed ::
  "nat \<Rightarrow> tls_env_t \<Rightarrow> static_tls_info_t \<Rightarrow> tls_tables_t \<Rightarrow> ((int \<times> int) \<times> tls_tables_t) option" where
  "handle_calculate_total_static_tls_needed fuel env info t = do {
     ((res, sz, al), t) \<leftarrow> calc_static_tls_for_executable fuel env info t;
     Some (if res = -1 then (0, 0) else (sz, case al of Some a \<Rightarrow> a | None \<Rightarrow> snd (tls_uninit env)), t)
   }"

section \<open>Requests travel unchanged\<close>

definition opt_nul_free :: "string option \<Rightarrow> bool" where
  "opt_nul_free s \<longleftrightarrow> (case s of None \<Rightarrow> True | Some s \<Rightarrow> nul_free s)"

lemma length_opt_bytes [simp]: "length (opt_bytes s) = opt_len s"
  by (simp add: opt_bytes_def opt_len_def split: option.splits)

lemma dup_at_opt:
  assumes "opt_nul_free s" and "buf = pre @ opt_bytes s @ rest" and "cur = int (length pre)"
  shows "dup_at buf cur (int (opt_len s)) = Some s"
proof (cases s)
  case (Some x)
  with assms have "drop (nat cur) buf = cstr x @ rest" "nul_free x"
    by (simp_all add: opt_bytes_def opt_nul_free_def)
  then show ?thesis using Some assms(3) by (simp add: dup_at_def opt_len_def c_str_cstr) (simp add: cstr_def)
qed (simp add: dup_at_def opt_len_def)

text \<open>C32. A request for the size of the static TLS area arrives as it was sent: the buffer that
  the sender allocates is large enough, and decoding the packet gives back every component,
  including which of them are absent.\<close>

theorem tls_info_round_trip:
  assumes "\<forall>s \<in> set (info_fields i). opt_nul_free s"
    and "static_tls_info_encode_size_needed2 i < 2 ^ 31"
  shows "\<exists>packet. static_tls_info_encode2 i (static_tls_info_encode_size_needed2 i) = Some packet \<and>
    static_tls_info_decode packet (length packet) = Some (Some i)"
proof -
  define heads where "heads = concat (map (\<lambda>s. put_i32 (int (opt_len s))) (info_fields i))"
  define packet where "packet = heads @ concat (map opt_bytes (info_fields i)) @ [NUL]"
  have small: "opt_len s < 2 ^ 31" if "s \<in> set (info_fields i)" for s
    using assms(2) that by (auto simp: static_tls_info_encode_size_needed2_def info_fields_def)
  have lens: "get_i32 packet = int (opt_len (executable i))" "get_i32 (drop 4 packet) = int (opt_len (ld_library_path i))"
    "get_i32 (drop 8 packet) = int (opt_len (ld_preload i))" "get_i32 (drop 12 packet) = int (opt_len (tls_cwd i))"
    "get_i32 (drop 16 packet) = int (opt_len (path_component i))"
    using small by (simp_all add: packet_def heads_def info_fields_def get_put_i32)
  have hl: "length heads = 20" by (simp add: heads_def info_fields_def)
  have nf: "opt_nul_free (executable i)" "opt_nul_free (ld_library_path i)" "opt_nul_free (ld_preload i)"
    "opt_nul_free (tls_cwd i)" "opt_nul_free (path_component i)"
    using assms(1) by (simp_all add: info_fields_def)
  have dups: "dup_at packet 20 (int (opt_len (executable i))) = Some (executable i)"
    "dup_at packet (20 + int (opt_len (executable i))) (int (opt_len (ld_library_path i))) = Some (ld_library_path i)"
    "dup_at packet (20 + int (opt_len (executable i)) + int (opt_len (ld_library_path i))) (int (opt_len (ld_preload i))) = Some (ld_preload i)"
    "dup_at packet (20 + int (opt_len (executable i)) + int (opt_len (ld_library_path i)) + int (opt_len (ld_preload i)))
       (int (opt_len (tls_cwd i))) = Some (tls_cwd i)"
    "dup_at packet (20 + int (opt_len (executable i)) + int (opt_len (ld_library_path i)) + int (opt_len (ld_preload i)) + int (opt_len (tls_cwd i)))
       (int (opt_len (path_component i))) = Some (path_component i)"
    by (rule dup_at_opt [OF nf(1), of _ heads] dup_at_opt [OF nf(2), of _ "heads @ opt_bytes (executable i)"]
        dup_at_opt [OF nf(3), of _ "heads @ opt_bytes (executable i) @ opt_bytes (ld_library_path i)"]
        dup_at_opt [OF nf(4), of _ "heads @ opt_bytes (executable i) @ opt_bytes (ld_library_path i) @ opt_bytes (ld_preload i)"]
        dup_at_opt [OF nf(5), of _ "heads @ opt_bytes (executable i) @ opt_bytes (ld_library_path i) @ opt_bytes (ld_preload i) @ opt_bytes (tls_cwd i)"];
        simp add: packet_def info_fields_def hl)+
  have "length packet = 20 + opt_len (executable i) + opt_len (ld_library_path i) + opt_len (ld_preload i)
      + opt_len (tls_cwd i) + opt_len (path_component i) + 1"
    by (simp add: packet_def hl info_fields_def)
  then have "static_tls_info_decode packet (length packet) = Some (Some i)"
    by (simp add: static_tls_info_decode_def lens Let_def dups)
  moreover have "static_tls_info_encode2 i (static_tls_info_encode_size_needed2 i) = Some packet"
    by (simp add: static_tls_info_encode2_def static_tls_info_encode_size_needed2_def packet_def heads_def)
  ultimately show ?thesis by blast
qed

theorem tls_info_round_trip_witness:
  "\<exists>packet. static_tls_info_encode2 \<lparr>executable = Some ''/bin/a'', ld_library_path = Some [], ld_preload = None,
        tls_cwd = Some ''/tmp'', path_component = None\<rparr> 35 = Some packet \<and>
     static_tls_info_decode packet (length packet) = Some (Some \<lparr>executable = Some ''/bin/a'', ld_library_path = Some [],
        ld_preload = None, tls_cwd = Some ''/tmp'', path_component = None\<rparr>)"
  using tls_info_round_trip [of "\<lparr>executable = Some ''/bin/a'', ld_library_path = Some [], ld_preload = None,
        tls_cwd = Some ''/tmp'', path_component = None\<rparr>"]
  by (simp add: info_fields_def opt_nul_free_def nul_free_def NUL_def static_tls_info_encode_size_needed2_def opt_len_def)

section \<open>Keys\<close>

lemma last_bar:
  assumes "CHR ''|'' \<notin> set d" "CHR ''|'' \<notin> set d'" "xs @ CHR ''|'' # d = xs' @ CHR ''|'' # d'"
  shows "xs = xs' \<and> d = d'"
proof -
  have "rev d @ CHR ''|'' # rev xs = rev d' @ CHR ''|'' # rev xs'"
    using arg_cong [OF assms(3), of rev] by simp
  moreover have "takeWhile (\<lambda>c. c \<noteq> CHR ''|'') (rev d @ CHR ''|'' # rev xs) = rev d"
    "takeWhile (\<lambda>c. c \<noteq> CHR ''|'') (rev d' @ CHR ''|'' # rev xs') = rev d'"
    using assms(1,2) by (subst takeWhile_append2; force)+
  ultimately have "rev d = rev d'" by simp
  with assms(3) show ?thesis by simp
qed

definition field_name :: "string option \<Rightarrow> string" where
  "field_name s = (case s of None \<Rightarrow> ''NONE'' | Some s \<Rightarrow> s)"

definition field_size :: "string option \<Rightarrow> nat" where
  "field_size s = (case s of None \<Rightarrow> 0 | Some s \<Rightarrow> length s)"

lemma field_split:
  "field_size s = field_size s' \<Longrightarrow> field_name s @ CHR ''|'' # r = field_name s' @ CHR ''|'' # r' \<Longrightarrow> s = s' \<and> r = r'"
  by (cases s; cases s') (auto simp: field_size_def field_name_def)

lemma idstr_eq:
  assumes "\<forall>s \<in> set (info_fields i). field_size s < 10 ^ 16"
  shows "static_tls_info_to_idstr i =
    (((((field_name (executable i) @ CHR ''|'' # field_name (ld_library_path i) @ CHR ''|'' # field_name (ld_preload i) @
       CHR ''|'' # field_name (tls_cwd i) @ CHR ''|'' # field_name (path_component i) @ [CHR ''|'']) @
       dec_digits (field_size (executable i))) @ CHR ''|'' # dec_digits (field_size (ld_library_path i))) @
       CHR ''|'' # dec_digits (field_size (ld_preload i))) @ CHR ''|'' # dec_digits (field_size (tls_cwd i))) @
       CHR ''|'' # dec_digits (field_size (path_component i))"
proof -
  have "length (dec_digits (field_size s)) \<le> 16" if "s \<in> set (info_fields i)" for s
    using assms that length_dec_digits [of "field_size s" 15] by simp
  then have "length (dec_digits (field_size (executable i))) + length (dec_digits (field_size (ld_library_path i))) +
      length (dec_digits (field_size (ld_preload i))) + length (dec_digits (field_size (tls_cwd i))) +
      length (dec_digits (field_size (path_component i))) \<le> 80"
    by (auto simp: info_fields_def intro!: add_mono [of _ 64 _ 16, simplified] add_mono [of _ 48 _ 16, simplified]
        add_mono [of _ 32 _ 16, simplified] add_mono [of _ 16 _ 16, simplified])
  then show ?thesis
    unfolding static_tls_info_to_idstr_def Let_def info_fields_def field_name_def [symmetric] field_size_def [symmetric]
    by simp
qed



section \<open>The table of executables\<close>

lemma hash_opt_str: "hash_opt h s = hash_str h (case_option [] id s)"
  by (simp add: hash_opt_def hash_str_def split: option.splits)

lemma exec_key_equal: "static_tls_info_equal i j \<Longrightarrow> exec_key i = exec_key j"
  by (simp add: exec_key_def hash_func_def hash_opt_str static_tls_info_equal_def strcmp_w_null_def)

lemma info_equal_equiv:
  "static_tls_info_equal i i" "static_tls_info_equal i j \<Longrightarrow> static_tls_info_equal j i"
  "static_tls_info_equal i j \<Longrightarrow> static_tls_info_equal j k \<Longrightarrow> static_tls_info_equal i k"
  by (auto simp: static_tls_info_equal_def strcmp_w_null_def)

lemma lookup_add:
  "executable_hash_lookup (executable_hash_add i sz al t) j =
    (if static_tls_info_equal i j then Some \<lparr>ex_info = i, ex_tls_size = sz, ex_tls_alignment = al\<rparr> else executable_hash_lookup t j)"
  using exec_key_equal [of i j] by (auto simp: executable_hash_lookup_def executable_hash_add_def)

lemma find_set_first_same:
  "find P xs = Some x \<Longrightarrow> P (f x) \<Longrightarrow> find P (set_first P f xs) = Some (f x)"
  by (induction xs) (auto split: if_splits)

lemma find_set_first_other:
  "(\<And>x. P x \<Longrightarrow> \<not> Q x \<and> \<not> Q (f x)) \<Longrightarrow> find Q (set_first P f xs) = find Q xs"
  by (induction xs) auto

lemma lookup_set:
  "map_option (\<lambda>e. (ex_tls_size e, ex_tls_alignment e)) (executable_hash_lookup (executable_hash_set i sz al t) j) =
    (if static_tls_info_equal i j then Some (sz, al)
     else map_option (\<lambda>e. (ex_tls_size e, ex_tls_alignment e)) (executable_hash_lookup t j))"
proof (cases "executable_hash_lookup t i")
  case None
  then show ?thesis by (simp add: executable_hash_set_def lookup_add)
next
  case (Some e)
  let ?P = "\<lambda>k (e :: executable_list_t). static_tls_info_equal (ex_info e) k"
  let ?f = "\<lambda>e. e\<lparr>ex_tls_size := sz, ex_tls_alignment := al\<rparr>"
  have P: "executable_hash_lookup u j = executable_hash_lookup u i" if "static_tls_info_equal i j" for u
  proof -
    have "?P j x = ?P i x" for x using that info_equal_equiv(2,3) by metis
    then show ?thesis by (simp only: executable_hash_lookup_def exec_key_equal [OF that])
  qed
  have e: "find (?P i) (executable_hash_table t (exec_key i)) = Some e" "?P i e"
    using Some by (auto simp: executable_hash_lookup_def find_Some_iff)
  show ?thesis
  proof (cases "static_tls_info_equal i j")
    case True
    then show ?thesis using Some find_set_first_same [OF e(1), of ?f] e(2)
      by (simp add: P [OF True] executable_hash_set_def) (simp add: executable_hash_lookup_def)
  next
    case False
    then have "?P i x \<Longrightarrow> \<not> ?P j x" for x
      using info_equal_equiv(2,3) by metis
    then show ?thesis using Some False find_set_first_other [of "?P i" "?P j" ?f]
      by (simp add: executable_hash_set_def executable_hash_lookup_def)
  qed
qed

text \<open>C33. The table of calculated sizes: after a size has been added for a request, every
  request that is equal up to absent and empty components finds it, and no other request is
  affected; the same holds when a calculation overwrites the value. The value of a failed
  calculation is not found.\<close>

theorem tls_table_lookup:
  "static_tls_info_lookup (static_tls_info_add i sz al t) j =
     (if static_tls_info_equal i j then if sz = -1 \<and> al = -1 then None else Some (sz, al) else static_tls_info_lookup t j) \<and>
   static_tls_info_lookup (executable_hash_set i sz al t) j =
     (if static_tls_info_equal i j then if sz = -1 \<and> al = -1 then None else Some (sz, al) else static_tls_info_lookup t j)"
proof -
  have l: "static_tls_info_lookup u j = (case map_option (\<lambda>e. (ex_tls_size e, ex_tls_alignment e)) (executable_hash_lookup u j) of
      None \<Rightarrow> None | Some (s, a) \<Rightarrow> if s = -1 \<and> a = -1 then None else Some (s, a))" for u
    by (simp add: static_tls_info_lookup_def split: option.splits)
  show ?thesis unfolding l static_tls_info_add_def lookup_set lookup_add by (simp add: lookup_add)
qed

section \<open>The calculation depends on what was calculated before\<close>

definition two_lib_env :: tls_env_t where
  "two_lib_env = \<lparr>
     tls_file = (\<lambda>p. if p = ''/bin/a'' \<or> p = ''/bin/b'' then Some (example_elf ''/lib/ld.so'' 16 8)
                     else if p = ''/lib/audit.so'' then Some (example_elf [] 100 16)
                     else if p = ''/lib/c.so'' then Some (example_elf [] 144 64) else None),
     tls_ld_list = (\<lambda>l exe _ _ _. Some ((if exe = ''/bin/b'' then ''vdso (0x0)'' @ [CHR 0x0A] else []) @
                     ''c => /lib/c.so (0x1)'' @ [CHR 0x0A])),
     default_audit_libstr = ''/lib/audit.so'', default_subaudit_libstr = [], tls_uninit = (0, 0)\<rparr>"

lemma two_lib_lists:
  "list_of_output (Some (''c => /lib/c.so (0x1)'' @ [CHR 0x0A])) = Some [''/lib/c.so'']"
  "list_of_output (Some ((''vdso (0x0)'' @ [CHR 0x0A]) @ ''c => /lib/c.so (0x1)'' @ [CHR 0x0A])) = Some [''/lib/c.so'', ''vdso'']"
  by code_simp+

lemma read_no_file: "parse_dso want None = Some (Dso_Failed [])"
  by (simp add: parse_dso_def)

definition empty_tables :: tls_tables_t where
  "empty_tables = \<lparr>executable_hash_table = (\<lambda>_. []), library_hash_table = (\<lambda>_. []), cached_audit_client_tls = None\<rparr>"

primrec sizes_of :: "string list \<Rightarrow> tls_tables_t \<Rightarrow> (int \<times> int) list option" where
  "sizes_of [] t = Some []"
| "sizes_of (e # es) t = do {
     (v, t) \<leftarrow> handle_calculate_total_static_tls_needed 2 two_lib_env (audit_lib_info e) t;
     vs \<leftarrow> sizes_of es t;
     Some (v # vs)
   }"

lemma library_lookup_laws:
  "library_hash_lookup (library_hash_add p ldso sz al t) q =
    (if p = q then Some \<lparr>lib_path = p, lib_interp = ldso, lib_tls_size = sz, lib_tls_alignment = al\<rparr> else library_hash_lookup t q)"
  "library_hash_lookup (executable_hash_set i sz al t) q = library_hash_lookup t q"
  "library_hash_lookup (t\<lparr>cached_audit_client_tls := c\<rparr>) q = library_hash_lookup t q"
  "cached_audit_client_tls (library_hash_add p ldso sz al t) = cached_audit_client_tls t"
  "cached_audit_client_tls (executable_hash_set i sz al t) = cached_audit_client_tls t"
  by (auto simp: library_hash_lookup_def library_hash_add_def executable_hash_set_def executable_hash_add_def split: option.splits)

lemma empty_tables_laws: "library_hash_lookup empty_tables q = None" "cached_audit_client_tls empty_tables = None"
  by (simp_all add: library_hash_lookup_def empty_tables_def)

lemmas history_simps = example_elf_read read_no_file get_libraries_def two_lib_lists two_lib_lists [simplified] library_lookup_laws empty_tables_laws handle_calculate_total_static_tls_needed_def
  calc_static_tls_for_executable_def calc_and_store_def audit_lib_info_def static_tls_size_for_dso_def add_tls_sizes_def
  calc_static_tls_for_audit_client_def audit_lib_sizes_def int_of_ssize_def two_lib_env_def Let_def numeral_2_eq_2


end
