(* ===== verification/Server_State.thy ===== *)
theory Server_State
  imports Requestors Msgbundle Ldcs_Cache Global_Name Packets Numa Static_Tls
begin

text \<open>
  The state of one server (\<open>ldcs_process_data_t\<close> of \<open>ldcs_audit_server_process.h\<close>) with the
  tables its handlers keep in static variables, the environment the handlers read (file
  system, NUMA library, network identity), and the helpers that the handlers of
  \<open>ldcs_audit_server_handlers.c\<close> share.

  A handler is a function from the state to \<open>Some (result, state)\<close>; \<^const>\<open>None\<close> is a failed
  assertion or an access outside a buffer. Messages to clients, to the front end and to other
  servers are appended to logs in the state. Timing and the counters of \<open>server_stat\<close> are
  left out.
\<close>

section \<open>Clients\<close>

datatype ldcs_client_status_t =
    LDCS_CLIENT_STATUS_ACTIVE
  | LDCS_CLIENT_STATUS_ACTIVE_PSEUDO
  | LDCS_CLIENT_STATUS_ENDED
  | LDCS_CLIENT_STATUS_FREE
  | LDCS_CLIENT_STATUS_UNKNOWN

record ldcs_client_t =
  connid :: int
  client_state :: ldcs_client_status_t
  remote_location :: string
  remote_pid :: int
  remote_cwd :: string
  query_open :: bool
  existance_query :: bool
  is_stat :: bool
  is_lstat :: bool
  is_loader :: bool
  is_dso :: bool
  numa_node :: nat
  tls_info :: "static_tls_info_t option"
  query_filename :: string
  query_dirname :: string
  query_globalpath :: string
  query_localpath :: "string option"
  query_aliasfrom :: string
  query_is_numa_replicated :: bool
  crash_exe :: "string option"
  crash_corepath :: "string option"

section \<open>Crash sites\<close>

text \<open>A crash site that a server has heard of: who waits for the decision, whether the answer
  has been delivered, the rank chosen to dump core (known at the root only), and the crashed
  ranks that are still to be reported to the parent. The arrays that grow are lists.\<close>

datatype crash_waiter_kind_t = CRASH_WAITER_LOCAL | CRASH_WAITER_CHILD

record crash_waiter_t =
  w_kind :: crash_waiter_kind_t
  w_nc :: int
  w_global_rank :: int
  w_peer :: node_peer_t

record crash_log_rank_t =
  row_rank :: int
  row_pid :: int
  row_timestamp :: int
  row_hostname :: string

record crash_site_entry_t =
  site :: "byte list"
  resolved :: bool
  waiter :: crash_waiter_t
  exemplar_rank :: int
  exemplar_corepath :: "string option"
  log_ranks :: "crash_log_rank_t list"

section \<open>The server\<close>

datatype ldcs_dist_model_t = LDCS_PULL | LDCS_PUSH

text \<open>\<open>pending_md\<close> and \<open>completed_md\<close> are the six tables that
  \<open>metadata_pending_requests\<close> and \<open>metadata_completed_requests\<close> choose from.
  \<open>have_done_broadcast\<close> is the static variable of \<open>handle_send_msg_to_keys\<close>. \<open>local_files\<close> is the
  metadata written to the local disk. \<open>stray_reads\<close> records bytes taken from a connection that
  do not belong to the message being handled. \<open>md_parent\<close> is the handle of the connection to the
  parent, which messages from the parent carry as their peer. \<open>client_table_used\<close> is the number of
  slots of \<open>client_table\<close> that loops over the clients visit.\<close>

record ldcs_process_data_t =
  client_table :: "ldcs_client_t list"
  client_table_used :: nat
  client_counter :: int
  clients_live :: nat
  sent_exit_ready :: bool
  exit_readys_recvd :: nat
  dist_model :: ldcs_dist_model_t
  commpath :: string
  chosen_cachepath :: string
  parsed_cachepath :: "string option"
  hostname :: string
  pythonprefix :: string
  crash_log :: string
  localprefix :: string
  local_prefixes :: "string list"
  exec_excludes :: string
  numa_substrs :: string
  numa_excludes :: string
  handling_bundle :: bool
  preload_done :: bool
  exit_note_done :: bool
  exit_on_client_close :: bool
  num_exited_children_peers :: nat
  num_exited_parents :: nat
  num_alives :: nat
  opts :: "64 word"
  dso_requests :: requestor_list_t
  file_requests :: requestor_list_t
  completed_dso_requests :: requestor_list_t
  completed_file_requests :: requestor_list_t
  pending_md :: "metadata_t \<Rightarrow> requestor_list_t"
  completed_md :: "metadata_t \<Rightarrow> requestor_list_t"
  pending_tls_requests :: requestor_list_t
  completed_tls_requests :: requestor_list_t
  crash_sites :: "crash_site_entry_t list"
  md_rank :: nat
  md_size :: nat
  md_parent :: node_peer_t
  have_done_broadcast :: bool
  cache :: cache_t
  stat_cache :: stat_cache_t
  pickone_cache :: "string set"
  tls_tables :: tls_tables_t
  filemngt :: filemngt_t
  global_names :: global_names_t
  msgbundle :: bundle_t
  local_files :: "string \<rightharpoonup> byte list"
  client_out :: "(int \<times> ldcs_message_t) list"
  fe_out :: "ldcs_message_t list"
  exit_marked :: bool
  stray_reads :: "(node_peer_t \<times> nat) list"

type_synonym 'a handler = "ldcs_process_data_t \<Rightarrow> ('a \<times> ldcs_process_data_t) option"

text \<open>Bits of \<open>opts\<close> (\<open>spindle_launch.h\<close>).\<close>

definition OPT_PRELOAD :: nat where "OPT_PRELOAD = 4"
definition OPT_STRIP :: nat where "OPT_STRIP = 11"
definition OPT_PERSIST :: nat where "OPT_PERSIST = 18"
definition OPT_BEEXIT :: nat where "OPT_BEEXIT = 25"
definition OPT_STOPRELOC :: nat where "OPT_STOPRELOC = 28"
definition OPT_NUMA :: nat where "OPT_NUMA = 29"
definition OPT_CRASH_HANDLER :: nat where "OPT_CRASH_HANDLER = 32"
definition OPT_CRASH_LOG :: nat where "OPT_CRASH_LOG = 33"

section \<open>The environment\<close>

text \<open>What the operating system and the libraries answer: working directories of processes,
  directory listings, \<open>realpath\<close>, the size of a file (\<open>Inl errno\<close> when \<open>stat\<close> fails), its
  contents as \<open>read_file_and_strip\<close> delivers them, attributes, loader offsets, mount points,
  whether space for a local file can be created and mapped again, the NUMA decisions, the clock,
  and the ELF files for the size of the static TLS area with a bound on the nesting of scripts.\<close>

datatype read_result =
    Read_Errno int
  | Read_Failed
  | Read_Done "byte list" bool

record env_t =
  env_cwd :: "int \<Rightarrow> string option"
  env_dirs :: dirs_t
  env_realpath :: "string \<Rightarrow> string option"
  env_file_size :: "string \<Rightarrow> int + nat"
  env_read :: "string \<Rightarrow> bool \<Rightarrow> read_result"
  env_uninit :: bool
  env_create :: "string \<Rightarrow> bool"
  env_sync :: "string \<Rightarrow> bool"
  env_sync_moved :: "string \<Rightarrow> bool"
  env_numa_lib :: bool
  env_numa_nodes :: nat
  env_numa_alloc :: "nat \<Rightarrow> bool"
  env_numa_assign :: "nat \<Rightarrow> bool"
  env_numa_core :: "int \<Rightarrow> int"
  env_stat :: "string \<Rightarrow> bool \<Rightarrow> extended_stat_t option"
  env_ldso :: "string \<Rightarrow> byte list option"
  env_write :: "string \<Rightarrow> bool"
  env_dev_to_mount :: "nat \<Rightarrow> string option"
  env_mount_to_dev :: "string \<Rightarrow> nat option"
  env_procmaps :: "int \<Rightarrow> string option"
  env_scan_int :: "string \<Rightarrow> int"
  env_time :: int
  env_tls :: tls_env_t
  env_tls_depth :: nat

section \<open>Shared helpers\<close>

definition the_client :: "ldcs_process_data_t \<Rightarrow> nat \<Rightarrow> ldcs_client_t" where
  "the_client pd nc = client_table pd ! nc"

definition set_client :: "nat \<Rightarrow> (ldcs_client_t \<Rightarrow> ldcs_client_t) \<Rightarrow> ldcs_process_data_t \<Rightarrow> ldcs_process_data_t" where
  "set_client nc f pd = pd\<lparr>client_table := (client_table pd)[nc := f (client_table pd ! nc)]\<rparr>"

definition ldcs_send_msg :: "int \<Rightarrow> ldcs_message_t \<Rightarrow> ldcs_process_data_t \<Rightarrow> ldcs_process_data_t" where
  "ldcs_send_msg conn msg pd = pd\<lparr>client_out := client_out pd @ [(conn, msg)]\<rparr>"

definition client_ready :: "ldcs_client_t \<Rightarrow> bool" where
  "client_ready client \<longleftrightarrow> \<not> (client_state client \<noteq> LDCS_CLIENT_STATUS_ACTIVE \<or> connid client < 0)"

definition handle_close_client_query :: "nat \<Rightarrow> ldcs_process_data_t \<Rightarrow> ldcs_process_data_t" where
  "handle_close_client_query nc = set_client nc (\<lambda>client. client\<lparr>
     query_open := False, existance_query := False, query_is_numa_replicated := False,
     is_stat := False, is_dso := False, query_globalpath := [], query_filename := [],
     query_dirname := [], query_aliasfrom := []\<rparr>)"

definition ldcs_audit_server_md_is_responsible :: "ldcs_process_data_t \<Rightarrow> string \<Rightarrow> bool" where
  "ldcs_audit_server_md_is_responsible pd filename = (md_rank pd = 0)"

definition ldcs_audit_server_md_is_parent :: "ldcs_process_data_t \<Rightarrow> node_peer_t \<Rightarrow> bool" where
  "ldcs_audit_server_md_is_parent pd peer = (peer = md_parent pd)"

definition ldcs_audit_server_md_to_frontend :: "ldcs_message_t \<Rightarrow> ldcs_process_data_t \<Rightarrow> int \<times> ldcs_process_data_t" where
  "ldcs_audit_server_md_to_frontend msg pd =
     (if md_rank pd \<noteq> 0 then (-1, pd) else (0, pd\<lparr>fe_out := fe_out pd @ [msg]\<rparr>))"

definition is_local_prefix :: "string \<Rightarrow> string list \<Rightarrow> bool" where
  "is_local_prefix pathname plist =
     (if pathname = [] \<or> hd pathname \<noteq> SLASH then False
      else \<exists>p \<in> set plist. p \<noteq> [] \<and> take (length p) pathname = p)"

definition ldcs_is_a_localfile :: "ldcs_process_data_t \<Rightarrow> string \<Rightarrow> bool" where
  "ldcs_is_a_localfile pd filename = is_local_prefix filename (local_prefixes pd)"

text \<open>Sends through the bundling layer. The network layer reports no errors in this model.\<close>

definition net_send :: "(bundle_t \<Rightarrow> bundle_t option) \<Rightarrow> int handler" where
  "net_send f pd = (case f (msgbundle pd) of None \<Rightarrow> None | Some b \<Rightarrow> Some (0, pd\<lparr>msgbundle := b\<rparr>))"

definition metadata_pending_requests :: "ldcs_process_data_t \<Rightarrow> metadata_t \<Rightarrow> requestor_list_t option" where
  "metadata_pending_requests pd mdtype = (if mdtype = metadata_none then None else Some (pending_md pd mdtype))"

definition metadata_completed_requests :: "ldcs_process_data_t \<Rightarrow> metadata_t \<Rightarrow> requestor_list_t option" where
  "metadata_completed_requests pd mdtype = (if mdtype = metadata_none then None else Some (completed_md pd mdtype))"

definition add_pending_md :: "metadata_t \<Rightarrow> string \<Rightarrow> node_peer_t \<Rightarrow> ldcs_process_data_t \<Rightarrow> ldcs_process_data_t" where
  "add_pending_md mdtype key peer pd =
     pd\<lparr>pending_md := (pending_md pd)(mdtype := add_requestor (pending_md pd mdtype) key peer)\<rparr>"

definition add_completed_md :: "metadata_t \<Rightarrow> string \<Rightarrow> node_peer_t \<Rightarrow> ldcs_process_data_t \<Rightarrow> ldcs_process_data_t" where
  "add_completed_md mdtype key peer pd =
     pd\<lparr>completed_md := (completed_md pd)(mdtype := add_requestor (completed_md pd mdtype) key peer)\<rparr>"

end
