(* ===== verification/Handlers_Send.thy ===== *)
theory Handlers_Send
  imports Server_State
begin

text \<open>
  How a server passes results and requests on to other servers: the send-to-keys
  functions, the broadcasts of directories, files, error codes, aliases and metadata, and the
  queries to the parent (\<open>ldcs_audit_server_handlers.c\<close>).
\<close>

section \<open>Sending to those who asked\<close>

primrec send_metadata_loop ::
  "ldcs_message_t \<Rightarrow> string \<Rightarrow> metadata_t \<Rightarrow> node_peer_t list \<Rightarrow> int \<Rightarrow> int handler" where
  "send_metadata_loop msg key mdtype [] global_result pd = Some (global_result, pd)"
| "send_metadata_loop msg key mdtype (n # nodes) global_result pd =
     (if n = NODE_PEER_CLIENT \<or> n = NODE_PEER_NULL
      then send_metadata_loop msg key mdtype nodes global_result pd
      else if peer_requested (completed_md pd mdtype) key n
      then send_metadata_loop msg key mdtype nodes global_result pd
      else do {
        (result, pd) \<leftarrow> net_send (\<lambda>b. spindle_send_noncontig b msg n []) pd;
        if result = -1 then send_metadata_loop msg key mdtype nodes (-1) pd
        else send_metadata_loop msg key mdtype nodes global_result (add_completed_md mdtype key n pd)
      })"

definition handle_send_metadata_to_keys ::
  "ldcs_message_t \<Rightarrow> string \<Rightarrow> bool \<Rightarrow> metadata_t \<Rightarrow> int handler" where
  "handle_send_metadata_to_keys msg key force_broadcast mdtype pd = do {
     pending_reqs \<leftarrow> metadata_pending_requests pd mdtype;
     completed_reqs \<leftarrow> metadata_completed_requests pd mdtype;
     if have_done_broadcast pd \<and> peer_requested completed_reqs key NODE_PEER_ALL then Some (0, pd)
     else if dist_model pd = LDCS_PUSH \<or> force_broadcast then do {
       (result, pd) \<leftarrow> net_send (\<lambda>b. spindle_broadcast_noncontig b msg []) pd;
       let pd = pd\<lparr>have_done_broadcast := True\<rparr>;
       let pd = add_completed_md mdtype key NODE_PEER_ALL pd;
       let pd = pd\<lparr>pending_md := (pending_md pd)(mdtype := clear_requestor (pending_md pd mdtype) key)\<rparr>;
       Some (if result = -1 then -1 else 0, pd)
     }
     else (case get_requestors pending_reqs key of
             None \<Rightarrow> Some (0, pd)
           | Some nodes \<Rightarrow> do {
               (global_result, pd) \<leftarrow> send_metadata_loop msg key mdtype nodes 0 pd;
               let pd = pd\<lparr>pending_md := (pending_md pd)(mdtype := clear_requestor (pending_md pd mdtype) key)\<rparr>;
               Some (global_result, pd)
             })
   }"

definition been_broadcast :: "ldcs_process_data_t \<Rightarrow> string \<Rightarrow> bool \<Rightarrow> bool" where
  "been_broadcast pd key dso =
     (let b = (dso \<and> peer_requested (completed_dso_requests pd) key NODE_PEER_ALL)
      in if \<not> b then peer_requested (completed_file_requests pd) key NODE_PEER_ALL else b)"

definition add_completed :: "bool \<Rightarrow> string \<Rightarrow> node_peer_t \<Rightarrow> ldcs_process_data_t \<Rightarrow> ldcs_process_data_t" where
  "add_completed dso key peer pd =
     (if dso then pd\<lparr>completed_dso_requests := add_requestor (completed_dso_requests pd) key peer\<rparr>
      else pd\<lparr>completed_file_requests := add_requestor (completed_file_requests pd) key peer\<rparr>)"

definition clear_requests :: "bool \<Rightarrow> string \<Rightarrow> ldcs_process_data_t \<Rightarrow> ldcs_process_data_t" where
  "clear_requests dso key pd =
     (if dso then pd\<lparr>dso_requests := clear_requestor (dso_requests pd) key\<rparr>
      else pd\<lparr>dso_requests := clear_requestor (dso_requests pd) key,
              file_requests := clear_requestor (file_requests pd) key\<rparr>)"

text \<open>The loop over the peers tests whether the file has been sent to \<^const>\<open>NODE_PEER_ALL\<close>, not
  whether it has been sent to the peer at hand.\<close>

primrec send_msg_loop ::
  "ldcs_message_t \<Rightarrow> string \<Rightarrow> byte list \<Rightarrow> bool \<Rightarrow> node_peer_t list \<Rightarrow> int \<Rightarrow> int handler" where
  "send_msg_loop msg key secondary dso [] global_result pd = Some (global_result, pd)"
| "send_msg_loop msg key secondary dso (n # nodes) global_result pd =
     (if n = NODE_PEER_CLIENT \<or> n = NODE_PEER_NULL
      then send_msg_loop msg key secondary dso nodes global_result pd
      else if been_broadcast pd key dso
      then send_msg_loop msg key secondary dso nodes global_result pd
      else do {
        (result, pd) \<leftarrow> net_send (\<lambda>b. spindle_send_noncontig b msg n secondary) pd;
        if result = -1 then send_msg_loop msg key secondary dso nodes (-1) pd
        else send_msg_loop msg key secondary dso nodes global_result (add_completed dso key n pd)
      })"

definition handle_send_msg_to_keys ::
  "ldcs_message_t \<Rightarrow> string \<Rightarrow> byte list \<Rightarrow> bool \<Rightarrow> bool \<Rightarrow> metadata_t \<Rightarrow> int handler" where
  "handle_send_msg_to_keys msg key secondary force_broadcast dso mdtype pd =
     (if mdtype \<noteq> metadata_none then handle_send_metadata_to_keys msg key force_broadcast mdtype pd
      else if have_done_broadcast pd \<and> been_broadcast pd key dso then Some (0, pd)
      else if dist_model pd = LDCS_PUSH \<or> force_broadcast then do {
        (result, pd) \<leftarrow> net_send (\<lambda>b. spindle_broadcast_noncontig b msg secondary) pd;
        let pd = pd\<lparr>have_done_broadcast := True\<rparr>;
        let pd = add_completed dso key NODE_PEER_ALL pd;
        Some (if result = -1 then -1 else 0, clear_requests dso key pd)
      }
      else
        (case (if \<not> dso then get_requestors2 (dso_requests pd) (file_requests pd) key
               else get_requestors (dso_requests pd) key) of
           None \<Rightarrow> Some (0, pd)
         | Some nodes \<Rightarrow> do {
             (global_result, pd) \<leftarrow> send_msg_loop msg key secondary dso nodes 0 pd;
             Some (global_result, clear_requests dso key pd)
           }))"

section \<open>Results for other servers\<close>

datatype broadcast_t = preload_broadcast | request_broadcast | suppress_broadcast

definition handle_broadcast_dir :: "string \<Rightarrow> broadcast_t \<Rightarrow> int handler" where
  "handle_broadcast_dir dir bcast pd =
     (case cache pd (dir_key dir) of
        None \<Rightarrow> Some (-1, pd)
      | Some _ \<Rightarrow> do {
          dat \<leftarrow> ldcs_cache_encodeDirContents (cache pd) dir;
          let ty = (if bcast = preload_broadcast then LDCS_MSG_PRELOAD_DIR else LDCS_MSG_CACHE_ENTRIES);
          handle_send_msg_to_keys (mk_msg ty dat) dir [] (bcast = preload_broadcast) False metadata_none pd
        })"

definition handle_broadcast_file :: "string \<Rightarrow> byte list \<Rightarrow> nat \<Rightarrow> bool \<Rightarrow> broadcast_t \<Rightarrow> int handler" where
  "handle_broadcast_file pathname buffer sz was_stripped bcast pd =
     (let packet = filemngt_encode_packet pathname buffer sz was_stripped;
          ty = (if bcast = preload_broadcast then LDCS_MSG_PRELOAD_FILE else LDCS_MSG_FILE_DATA)
      in handle_send_msg_to_keys (mk_msg ty packet) pathname (take sz buffer) (bcast = preload_broadcast)
           was_stripped metadata_none pd)"

definition handle_broadcast_errorcode :: "string \<Rightarrow> int \<Rightarrow> int handler" where
  "handle_broadcast_errorcode pathname errcode =
     handle_send_msg_to_keys (mk_msg LDCS_MSG_FILE_ERRCODE (encode_errcode pathname errcode)) pathname []
       False False metadata_none"

definition handle_broadcast_alias :: "string \<Rightarrow> string \<Rightarrow> int handler" where
  "handle_broadcast_alias alias_from alias_to =
     handle_send_msg_to_keys (mk_msg LDCS_MSG_ALIAS (encode_alias alias_from alias_to)) alias_from []
       False False metadata_none"

text \<open>The third argument is \<open>request_broadcast\<close> where a flag is expected; its value is 1.\<close>

definition handle_create_selfload_file :: "string \<Rightarrow> int handler" where
  "handle_create_selfload_file filename =
     handle_send_msg_to_keys (mk_msg LDCS_MSG_SELFLOAD_FILE (cstr filename)) filename [] True False metadata_none"

definition handle_broadcast_metadata :: "env_t \<Rightarrow> string \<Rightarrow> bool \<Rightarrow> byte list \<Rightarrow> metadata_t \<Rightarrow> int handler" where
  "handle_broadcast_metadata env pathname file_exists buf mdtype pd =
     (let mount = (if file_exists \<and> (mdtype = metadata_stat \<or> mdtype = metadata_lstat)
                   then env_dev_to_mount env (get_u64 buf) else None);
          packet = encode_metadata pathname file_exists mount buf
      in case mdtype of
           metadata_none \<Rightarrow> None
         | metadata_stat \<Rightarrow> handle_send_msg_to_keys (mk_msg LDCS_MSG_STAT_NET_RESULT packet) pathname [] False False mdtype pd
         | metadata_lstat \<Rightarrow> handle_send_msg_to_keys (mk_msg LDCS_MSG_LSTAT_NET_RESULT packet) pathname [] False False mdtype pd
         | metadata_loader \<Rightarrow> handle_send_msg_to_keys (mk_msg LDCS_MSG_LOADER_DATA_NET_RESP packet) pathname [] False False mdtype pd)"

section \<open>Requests to the parent\<close>

definition handle_send_directory_query :: "string \<Rightarrow> int handler" where
  "handle_send_directory_query directory pd = do {
     (_, pd) \<leftarrow> net_send (\<lambda>b. spindle_forward_query b (encode_request (CHR ''D'') directory)) pd;
     Some (0, pd)
   }"

definition handle_send_file_query :: "string \<Rightarrow> bool \<Rightarrow> int handler" where
  "handle_send_file_query fullpath dso pd = do {
     (_, pd) \<leftarrow> net_send (\<lambda>b. spindle_forward_query b (encode_request (if dso then CHR ''S'' else CHR ''F'') fullpath)) pd;
     Some (0, pd)
   }"

definition handle_send_query :: "string \<Rightarrow> bool \<Rightarrow> bool \<Rightarrow> int handler" where
  "handle_send_query pathname is_dir dso pd =
     (let was_requested =
            (if is_dir then been_requested (file_requests pd) pathname
             else if dso then been_requested (dso_requests pd) pathname \<or> been_requested (file_requests pd) pathname
             else been_requested (file_requests pd) pathname)
      in if was_requested then Some (0, pd)
         else if is_dir then handle_send_directory_query pathname pd
         else handle_send_file_query pathname dso pd)"

definition handle_metadata_request :: "string \<Rightarrow> metadata_t \<Rightarrow> node_peer_t \<Rightarrow> int handler" where
  "handle_metadata_request pathname mdtype from pd = do {
     pending_reqs \<leftarrow> metadata_pending_requests pd mdtype;
     if been_requested pending_reqs pathname then Some (0, pd)
     else do {
       let pd = add_pending_md mdtype pathname from pd;
       let ty = (case mdtype of metadata_stat \<Rightarrow> LDCS_MSG_STAT_NET_REQUEST
                 | metadata_lstat \<Rightarrow> LDCS_MSG_LSTAT_NET_REQUEST
                 | _ \<Rightarrow> LDCS_MSG_LOADER_DATA_NET_REQ);
       net_send (\<lambda>b. spindle_forward_query b (mk_msg ty (cstr pathname))) pd
     }
   }"

end
