(* ===== verification/Handlers_File.thy ===== *)
theory Handlers_File
  imports Handlers_Send
begin

text \<open>
  How a server decides what to do about a file or directory, and how it reads them from
  the disk into its cache and passes them on (\<open>ldcs_audit_server_handlers.c\<close>).
\<close>

section \<open>Decisions\<close>

datatype handle_file_result_t =
  FOUND_FILE | FOUND_ERRCODE | NO_FILE | NO_DIR | READ_DIRECTORY | READ_FILE
  | REQ_DIRECTORY | REQ_FILE | ALIAS_TO | ORIG_FILE

definition handle_howto_directory :: "ldcs_process_data_t \<Rightarrow> string \<Rightarrow> handle_file_result_t" where
  "handle_howto_directory pd dir =
     (let cache_dir_result = ldcs_cache_findDirInCache (cache pd) dir
      in if cache_dir_result = LDCS_CACHE_DIR_PARSED_AND_EXISTS then FOUND_FILE
         else if cache_dir_result = LDCS_CACHE_DIR_PARSED_AND_NOT_EXISTS then NO_FILE
         else if ldcs_audit_server_md_is_responsible pd dir then READ_DIRECTORY
         else REQ_DIRECTORY)"

text \<open>The results of \<open>handle_howto_file\<close> with its output parameters; the local path is
  \<^const>\<open>None\<close> where the function leaves its argument alone.\<close>

record howto_t =
  howto_result :: handle_file_result_t
  howto_is_dso :: bool
  howto_localpath :: "string option option"
  howto_alias :: "string option"
  howto_errcode :: int

definition found_cached :: "ldcs_cache_result_t \<times> string option \<times> int \<Rightarrow> bool" where
  "found_cached r = (fst r = LDCS_CACHE_FILE_FOUND \<and> (fst (snd r) \<noteq> None \<or> snd (snd r) \<noteq> 0))"

definition howto_lookup :: "cache_t \<Rightarrow> string \<Rightarrow> string \<Rightarrow> bool \<Rightarrow> (ldcs_cache_result_t \<times> string option \<times> int) \<times> bool" where
  "howto_lookup c file dir dso =
     (if \<not> dso then (ldcs_cache_findFileDirInCache c file dir LDCS_CACHE_FILEOBJ_FILE, dso)
      else let r = ldcs_cache_findFileDirInCache c file dir LDCS_CACHE_FILEOBJ_DSO
           in if found_cached r then (r, dso)
              else let r = ldcs_cache_findFileDirInCache c file dir LDCS_CACHE_FILEOBJ_FILE
                   in (r, if found_cached r then False else dso))"

definition handle_howto_file :: "ldcs_process_data_t \<Rightarrow> string \<Rightarrow> string \<Rightarrow> string \<Rightarrow> bool \<Rightarrow> howto_t" where
  "handle_howto_file pd pathname file dir dso =
     (let answer = (\<lambda>r dso lp al err. \<lparr>howto_result = r, howto_is_dso = dso, howto_localpath = lp,
                                       howto_alias = al, howto_errcode = err\<rparr>)
      in if ldcs_is_a_cachedfile (filemngt pd) pathname \<noteq> None then answer FOUND_ERRCODE dso None None 0
         else if ldcs_is_a_localfile pd pathname then answer ORIG_FILE dso None None 0
         else
           let ((res, localpath, errcode), dso) = howto_lookup (cache pd) file dir dso
           in if res = LDCS_CACHE_FILE_FOUND then
                (if localpath \<noteq> None then answer FOUND_FILE dso (Some localpath) None errcode
                 else if errcode \<noteq> 0 then answer FOUND_ERRCODE dso (Some localpath) None errcode
                 else case snd (ldcs_cache_getAlias (cache pd) file dir) of
                        Some alias_to \<Rightarrow> answer ALIAS_TO dso (Some localpath) (Some alias_to) errcode
                      | None \<Rightarrow>
                          if bit (opts pd) OPT_STOPRELOC then answer ORIG_FILE dso (Some localpath) None errcode
                          else if ldcs_audit_server_md_is_responsible pd pathname
                          then answer READ_FILE dso (Some localpath) None errcode
                          else answer REQ_FILE dso (Some localpath) None errcode)
              else
                let dir_result = handle_howto_directory pd dir
                in answer (if dir_result = FOUND_FILE then NO_FILE
                           else if dir_result = NO_FILE then NO_DIR else dir_result)
                     dso (Some localpath) None errcode)"

section \<open>Directories\<close>

definition handle_read_directory :: "env_t \<Rightarrow> string \<Rightarrow> int handler" where
  "handle_read_directory env dir pd =
     (if ldcs_cache_findDirInCache (cache pd) dir \<noteq> LDCS_CACHE_DIR_NOT_PARSED then Some (0, pd)
      else do {
        (res, c) \<leftarrow> ldcs_cache_processDirectory (env_dirs env) (cache pd) dir;
        Some (if res = LDCS_CACHE_DIR_PARSED_AND_EXISTS \<or> res = LDCS_CACHE_DIR_PARSED_AND_NOT_EXISTS then 0 else -1,
              pd\<lparr>cache := c\<rparr>)
      })"

definition handle_read_and_broadcast_dir :: "env_t \<Rightarrow> string \<Rightarrow> int handler" where
  "handle_read_and_broadcast_dir env dir pd = do {
     (result, pd) \<leftarrow> handle_read_directory env dir pd;
     if result = -1 then Some (-1, pd) else handle_broadcast_dir dir request_broadcast pd
   }"

section \<open>Buffers for file contents\<close>

datatype is_elf_t = is_elf_yes | is_elf_no | is_elf_unknown

text \<open>The buffer of a local file is mapped into memory and the cache holds a pointer to it,
  so what is written to the buffer is seen through the cache. A fresh mapping is zero.
  \<open>got_buffer\<close> is whether the function returns a buffer.\<close>

record setup_t =
  got_buffer :: bool
  setup_localname :: "string option"
  already_loaded :: bool
  setup_replicate :: bool

definition handle_setup_file_buffer :: "env_t \<Rightarrow> string \<Rightarrow> nat \<Rightarrow> is_elf_t \<Rightarrow> bool \<Rightarrow> setup_t handler" where
  "handle_setup_file_buffer env pathname sz is_elf stripped pd =
     (let (filename, dirname) = parseFilenameNoAlloc pathname MAX_PATH_LEN;
          (cresult, localname, _) = ldcs_cache_findFileDirInCache (cache pd) filename dirname
             (if stripped then LDCS_CACHE_FILEOBJ_EITHER else LDCS_CACHE_FILEOBJ_FILE)
      in if cresult = LDCS_CACHE_FILE_FOUND \<and> localname \<noteq> None
         then Some (\<lparr>got_buffer = False, setup_localname = localname, already_loaded = True, setup_replicate = False\<rparr>, pd)
         else do {
           c \<leftarrow> (if cresult = LDCS_CACHE_FILE_FOUND then Some (cache pd)
                else ldcs_cache_addFileDir (cache pd) dirname filename);
           let pd = pd\<lparr>cache := c\<rparr>;
           repl \<leftarrow> (if is_elf = is_elf_yes \<or> is_elf = is_elf_unknown
              then numa_should_replicate (bit (opts pd) OPT_NUMA) (env_numa_lib env) (numa_substrs pd) (numa_excludes pd) pathname
              else Some False);
           let localt = (if repl \<and> stripped then clt_numadso else if repl \<and> \<not> stripped then clt_numafile
                         else if \<not> repl \<and> stripped then clt_dso else clt_file);
           (l, fm, g) \<leftarrow> new_localname (filemngt pd) (global_names pd) pathname localt;
           let pd = pd\<lparr>filemngt := fm, global_names := g\<rparr>;
           let res = \<lparr>got_buffer = True, setup_localname = Some l, already_loaded = False, setup_replicate = repl\<rparr>;
           if \<not> (if \<not> repl then env_create env l else env_numa_alloc env sz)
           then Some (res\<lparr>got_buffer := False\<rparr>, pd)
           else Some (res, pd\<lparr>cache := snd (ldcs_cache_updateBuffer (cache pd) filename dirname (Some l)
                                            (Some (replicate sz NUL)) sz 0 stripped)\<rparr>)
         })"

text \<open>Writing file contents to the mapped buffer.\<close>

definition fill_buffer :: "string \<Rightarrow> bool \<Rightarrow> byte list \<Rightarrow> ldcs_process_data_t \<Rightarrow> ldcs_process_data_t" where
  "fill_buffer pathname stripped mem pd =
     (let (filename, dirname) = parseFilenameNoAlloc pathname MAX_PATH_LEN
      in pd\<lparr>cache := snd (update_entry (cache pd) filename dirname (\<lambda>e.
           if stripped then e\<lparr>dso_contents := (dso_contents e)\<lparr>cc_buffer := Some mem\<rparr>\<rparr>
           else e\<lparr>file_contents := (file_contents e)\<lparr>cc_buffer := Some mem\<rparr>\<rparr>))\<rparr>)"

primrec replicate_on_nodes :: "env_t \<Rightarrow> string \<Rightarrow> nat list \<Rightarrow> bool" where
  "replicate_on_nodes env localname [] = True"
| "replicate_on_nodes env localname (i # is) =
     (let numaname = numa_update_local_filename (take MAX_PATH_LEN localname) i
      in if \<not> env_create env numaname then False
         else if \<not> env_numa_assign env i then False
         else if \<not> env_sync env numaname then False
         else replicate_on_nodes env localname is)"

text \<open>The memory of the buffer after the reading, \<open>mem\<close>, is \<^const>\<open>None\<close> when there is no
  buffer. The result is the final buffer and whether the file is replicated.\<close>

definition handle_finish_buffer_setup ::
  "env_t \<Rightarrow> string option \<Rightarrow> string \<Rightarrow> byte list option \<Rightarrow> nat \<Rightarrow> nat \<Rightarrow> bool \<Rightarrow> int \<Rightarrow> bool \<Rightarrow>
   (int \<times> byte list option \<times> bool) handler" where
  "handle_finish_buffer_setup env localname pathname mem sz newsize repl errcode was_stripped pd =
     (let is_elf_file = (case mem of None \<Rightarrow> False | Some m \<Rightarrow> filemngt_is_elf_file m sz);
          (filename, dirname) = parseFilenameNoAlloc pathname MAX_PATH_LEN;
          update = (\<lambda>lname buf size' moved rep turned_off pd.
             let pd = (if size' \<noteq> newsize \<or> moved \<or> errcode \<noteq> 0
                       then pd\<lparr>cache := snd (ldcs_cache_updateBuffer (cache pd) filename dirname lname buf newsize errcode was_stripped)\<rparr>
                       else pd);
                 pd = (if rep \<or> turned_off
                       then pd\<lparr>cache := snd (ldcs_cache_updateReplication (cache pd) filename dirname rep)\<rparr> else pd)
             in Some ((0, buf, rep), pd))
      in if errcode \<noteq> 0 then update None None 0 False repl False pd
         else case (localname, mem) of
           (Some l, Some m) \<Rightarrow>
             if \<not> repl then
               (if sz \<noteq> 0 \<and> newsize > sz then None
                else if sz \<noteq> 0 \<and> \<not> env_sync env l then Some ((-1, mem, repl), pd)
                else update localname (Some (take newsize m)) sz (sz \<noteq> 0 \<and> env_sync_moved env l) False False pd)
             else if \<not> is_elf_file then
               (if \<not> env_create env l then Some ((-1, mem, repl), pd)
                else if newsize \<noteq> 0 \<and> \<not> env_sync env l then Some ((-1, mem, repl), pd)
                else update localname (Some (take newsize m)) sz True False True pd)
             else
               (if \<not> replicate_on_nodes env l [0..<env_numa_nodes env] then Some ((-1, mem, repl), pd)
                else update localname (if env_numa_nodes env = 0 then None else Some (take newsize m)) sz True True False pd)
         | _ \<Rightarrow> None)"

definition handle_setup_alias :: "string \<Rightarrow> string \<Rightarrow> int handler" where
  "handle_setup_alias pathname alias_to pd =
     (let (filename, dirname) = parseFilenameNoAlloc pathname MAX_PATH_LEN;
          (cresult, _, _) = ldcs_cache_findFileDirInCache (cache pd) filename dirname LDCS_CACHE_FILEOBJ_EITHER
      in if cresult \<noteq> LDCS_CACHE_FILE_FOUND then None
         else Some (0, pd\<lparr>cache := snd (ldcs_cache_updateAlias (cache pd) filename dirname alias_to)\<rparr>))"

section \<open>Reading a file\<close>

definition broadcast_read :: "string \<Rightarrow> byte list option \<Rightarrow> nat \<Rightarrow> int \<Rightarrow> bool \<Rightarrow> broadcast_t \<Rightarrow> int handler" where
  "broadcast_read pathname buffer newsize errcode was_stripped bcast pd =
     (if bcast = suppress_broadcast then Some (0, pd)
      else if errcode = 0 then
        (case buffer of None \<Rightarrow> None | Some b \<Rightarrow> handle_broadcast_file pathname b newsize was_stripped bcast pd)
      else handle_broadcast_errorcode pathname errcode pd)"

definition finish_and_broadcast ::
  "env_t \<Rightarrow> string option \<Rightarrow> string \<Rightarrow> byte list option \<Rightarrow> nat \<Rightarrow> nat \<Rightarrow> bool \<Rightarrow> int \<Rightarrow> bool \<Rightarrow> broadcast_t \<Rightarrow> int handler" where
  "finish_and_broadcast env localname pathname mem sz newsize repl errcode was_stripped bcast pd = do {
     ((result, buffer, _), pd) \<leftarrow>
        handle_finish_buffer_setup env localname pathname mem sz newsize repl errcode was_stripped pd;
     if result = -1 then Some (-1, pd)
     else broadcast_read pathname buffer newsize errcode was_stripped bcast pd
   }"

text \<open>The part of \<open>handle_read_and_broadcast_file\<close> after the test for an alias. When the size
  cannot be read, \<open>was_stripped\<close> is used uninitialised (\<open>env_uninit\<close>).\<close>

definition read_contents :: "env_t \<Rightarrow> string \<Rightarrow> bool \<Rightarrow> broadcast_t \<Rightarrow> int handler" where
  "read_contents env pathname read_dso bcast pd =
     (case env_file_size env pathname of
        Inl e \<Rightarrow> finish_and_broadcast env None pathname None 0 0 False e (env_uninit env) bcast pd
      | Inr sz \<Rightarrow>
          let should_strip = (bit (opts pd) OPT_STRIP \<and> read_dso)
          in do {
            (su, pd) \<leftarrow> handle_setup_file_buffer env pathname sz is_elf_unknown should_strip pd;
            if \<not> got_buffer su then (if already_loaded su then None else Some (-1, pd))
            else (case env_read env pathname should_strip of
                Read_Failed \<Rightarrow> Some (-1, pd)
              | Read_Errno e \<Rightarrow> finish_and_broadcast env (setup_localname su) pathname (Some (replicate sz NUL))
                                  sz sz (setup_replicate su) e False bcast pd
              | Read_Done bytes was_elf \<Rightarrow>
                  if length bytes > sz then None
                  else
                    let mem = bytes @ replicate (sz - length bytes) NUL
                    in finish_and_broadcast env (setup_localname su) pathname (Some mem) sz (length bytes)
                         (setup_replicate su) 0 (should_strip \<and> was_elf) bcast (fill_buffer pathname should_strip mem pd))
          })"

definition handle_read_and_broadcast_file :: "env_t \<Rightarrow> string \<Rightarrow> bool \<Rightarrow> broadcast_t \<Rightarrow> int handler" where
  "handle_read_and_broadcast_file env pathname read_dso bcast pd =
     (case env_realpath env pathname of
        Some alias_to \<Rightarrow>
          if alias_to \<noteq> pathname then do {
            (result, pd) \<leftarrow> handle_setup_alias pathname alias_to pd;
            if result = -1 then Some (-1, pd)
            else if bcast = suppress_broadcast then Some (0, pd)
            else handle_broadcast_alias pathname alias_to pd
          }
          else read_contents env pathname read_dso bcast pd
      | None \<Rightarrow> read_contents env pathname read_dso bcast pd)"

end
