(* ===== verification/Handlers_Metadata.thy ===== *)
theory Handlers_Metadata
  imports Handlers_File
begin

text \<open>
  \<open>stat\<close>, \<open>lstat\<close> and loader data: deciding, reading, caching, requesting and distributing
  (\<open>ldcs_audit_server_handlers.c\<close>), and the answers to the clients that asked.
\<close>

section \<open>Decisions\<close>

datatype handle_metadata_result_t =
  REQUEST_METADATA | METADATA_FILE | REPORT_METADATA | METADATA_IN_PROGRESS | METADATA_ORIG_STAT

definition handle_howto_metadata :: "ldcs_process_data_t \<Rightarrow> string \<Rightarrow> metadata_t \<Rightarrow> handle_metadata_result_t option" where
  "handle_howto_metadata pd pathname mdtype =
     (if ldcs_is_a_localfile pd pathname then Some METADATA_ORIG_STAT
      else do {
        looked_up \<leftarrow> lookup_stat_cache (stat_cache pd) pathname mdtype;
        if looked_up \<noteq> None then Some REPORT_METADATA
        else if ldcs_audit_server_md_is_responsible pd pathname then Some METADATA_FILE
        else do {
          pending_reqs \<leftarrow> metadata_pending_requests pd mdtype;
          Some (if been_requested pending_reqs pathname then METADATA_IN_PROGRESS else REQUEST_METADATA)
        }
      })"

section \<open>Caching\<close>

definition nametype_of :: "metadata_t \<Rightarrow> calc_local_t" where
  "nametype_of mdtype = (case mdtype of metadata_stat \<Rightarrow> clt_stat | metadata_lstat \<Rightarrow> clt_lstat
     | metadata_loader \<Rightarrow> clt_ldso | metadata_none \<Rightarrow> clt_unknown)"

text \<open>The first component of the result of these functions is the C result, the second the
  local name.\<close>

definition store_metadata :: "string \<Rightarrow> bool \<Rightarrow> metadata_t \<Rightarrow> calc_local_t \<Rightarrow> string option handler" where
  "store_metadata pathname file_exists mdtype nametype pd = do {
     (localname, pd) \<leftarrow> (if \<not> file_exists then Some (None, pd)
        else do {
          (l, fm, g) \<leftarrow> new_localname (filemngt pd) (global_names pd) pathname nametype;
          Some (Some l, pd\<lparr>filemngt := fm, global_names := g\<rparr>)
        });
     sc \<leftarrow> add_stat_cache (stat_cache pd) pathname localname mdtype;
     Some (localname, pd\<lparr>stat_cache := sc\<rparr>)
   }"

definition handle_cache_metadata :: "env_t \<Rightarrow> string \<Rightarrow> bool \<Rightarrow> metadata_t \<Rightarrow> byte list \<Rightarrow> (int \<times> string option) handler" where
  "handle_cache_metadata env pathname file_exists mdtype buf pd = do {
     (localname, pd) \<leftarrow> store_metadata pathname file_exists mdtype (nametype_of mdtype) pd;
     case localname of
       None \<Rightarrow> Some ((0, None), pd)
     | Some l \<Rightarrow> if env_write env l then Some ((0, Some l), pd\<lparr>local_files := (local_files pd)(l \<mapsto> buf)\<rparr>)
                 else Some ((-1, Some l), pd)
   }"

definition handle_cache_ldso :: "env_t \<Rightarrow> string \<Rightarrow> bool \<Rightarrow> byte list \<Rightarrow> (int \<times> string option) handler" where
  "handle_cache_ldso env pathname file_exists ldsoinfo pd = do {
     (localname, pd) \<leftarrow> store_metadata pathname file_exists metadata_loader clt_ldso pd;
     case localname of
       None \<Rightarrow> Some ((0, None), pd)
     | Some l \<Rightarrow> Some ((0, Some l), if env_write env l then pd\<lparr>local_files := (local_files pd)(l \<mapsto> ldsoinfo)\<rparr> else pd)
   }"

definition handle_stat_file :: "env_t \<Rightarrow> string \<Rightarrow> metadata_t \<Rightarrow> (int \<times> string option \<times> byte list) handler" where
  "handle_stat_file env pathname mdtype pd = do {
     looked_up \<leftarrow> lookup_stat_cache (stat_cache pd) pathname mdtype;
     case looked_up of
       Some localname \<Rightarrow> Some ((0, localname, []), pd)
     | None \<Rightarrow> do {
         let st = env_stat env pathname (mdtype = metadata_lstat);
         let buf = (case st of None \<Rightarrow> [] | Some s \<Rightarrow> ext_stat_image s);
         ((result, localname), pd) \<leftarrow> handle_cache_metadata env pathname (st \<noteq> None) mdtype buf pd;
         Some ((result, localname, buf), pd)
       }
   }"

definition handle_read_ldso_metadata :: "env_t \<Rightarrow> string \<Rightarrow> (int \<times> string option \<times> byte list) handler" where
  "handle_read_ldso_metadata env pathname pd = do {
     looked_up \<leftarrow> lookup_stat_cache (stat_cache pd) pathname metadata_loader;
     case looked_up of
       Some localname \<Rightarrow> Some ((0, localname, []), pd)
     | None \<Rightarrow>
         (let read_path = (if pathname \<noteq> [] \<and> hd pathname = CHR ''$'' then tl pathname else pathname)
          in case env_ldso env read_path of
               None \<Rightarrow> do {
                 ((_, localname), pd) \<leftarrow> handle_cache_ldso env pathname False [] pd;
                 Some ((-1, localname, []), pd)
               }
             | Some info \<Rightarrow> do {
                 ((result, localname), pd) \<leftarrow> handle_cache_ldso env pathname True info pd;
                 Some ((result, localname, info), pd)
               })
   }"

definition handle_metadata_and_broadcast_file :: "env_t \<Rightarrow> string \<Rightarrow> metadata_t \<Rightarrow> broadcast_t \<Rightarrow> int handler" where
  "handle_metadata_and_broadcast_file env pathname mdtype bcast pd = do {
     ((result, localname, buf), pd) \<leftarrow>
       (case mdtype of
          metadata_stat \<Rightarrow> handle_stat_file env pathname mdtype pd
        | metadata_lstat \<Rightarrow> handle_stat_file env pathname mdtype pd
        | metadata_loader \<Rightarrow> handle_read_ldso_metadata env pathname pd
        | metadata_none \<Rightarrow> None);
     if result = -1 then Some (-1, pd)
     else if bcast = suppress_broadcast then Some (0, pd)
     else handle_broadcast_metadata env pathname (localname \<noteq> None) buf mdtype pd
   }"

definition handle_load_and_broadcast_metadata :: "env_t \<Rightarrow> string \<Rightarrow> metadata_t \<Rightarrow> int handler" where
  "handle_load_and_broadcast_metadata env pathname mdtype pd = do {
     looked_up \<leftarrow> lookup_stat_cache (stat_cache pd) pathname mdtype;
     case looked_up of
       None \<Rightarrow> Some (-1, pd)
     | Some None \<Rightarrow> handle_broadcast_metadata env pathname False [] mdtype pd
     | Some (Some localpath) \<Rightarrow>
         (case local_files pd localpath of
            None \<Rightarrow> Some (-1, pd)
          | Some buf \<Rightarrow> handle_broadcast_metadata env pathname True buf mdtype pd)
   }"

section \<open>Answers to clients\<close>

definition handle_client_metadata_result :: "nat \<Rightarrow> metadata_t \<Rightarrow> int handler" where
  "handle_client_metadata_result nc mdtype pd =
     (let client = the_client pd nc
      in if \<not> (query_open client \<or> is_stat client) then None
         else if \<not> client_ready client then Some (0, pd)
         else do {
           looked_up \<leftarrow> lookup_stat_cache (stat_cache pd) (query_globalpath client) mdtype;
           case looked_up of
             None \<Rightarrow> Some (0, pd)
           | Some localpath \<Rightarrow>
               (let ty = (if mdtype = metadata_stat \<or> mdtype = metadata_lstat then LDCS_MSG_STAT_ANSWER
                          else LDCS_MSG_LOADER_DATA_RESP);
                    msg = mk_msg ty (case localpath of None \<Rightarrow> [] | Some l \<Rightarrow> cstr l)
                in Some (0, handle_close_client_query nc (ldcs_send_msg (connid client) msg pd)))
         })"

definition handle_client_metadata_self :: "nat \<Rightarrow> int handler" where
  "handle_client_metadata_self nc pd =
     (let client = the_client pd nc
      in if \<not> (query_open client \<or> is_stat client) then None
         else if \<not> client_ready client then Some (0, pd)
         else Some (0, handle_close_client_query nc
                         (ldcs_send_msg (connid client) (mk_msg LDCS_MSG_STAT_ANSWER_SELF []) pd)))"

definition handle_client_metadata :: "env_t \<Rightarrow> nat \<Rightarrow> int handler" where
  "handle_client_metadata env nc pd =
     (let client = the_client pd nc; pathname = query_globalpath client
      in if \<not> (is_lstat client \<or> is_stat client \<or> is_loader client) then None
         else
           let mdtype = (if is_lstat client then metadata_lstat else if is_stat client then metadata_stat
                         else metadata_loader)
           in do {
             stat_result \<leftarrow> handle_howto_metadata pd pathname mdtype;
             case stat_result of
               REQUEST_METADATA \<Rightarrow> handle_metadata_request pathname mdtype NODE_PEER_CLIENT pd
             | METADATA_FILE \<Rightarrow> do {
                 let pd = add_pending_md mdtype pathname NODE_PEER_CLIENT pd;
                 (broadcast_result, pd) \<leftarrow> handle_metadata_and_broadcast_file env pathname mdtype request_broadcast pd;
                 (client_result, pd) \<leftarrow> handle_client_metadata_result nc mdtype pd;
                 Some (if broadcast_result = -1 \<or> client_result = -1 then -1 else 0, pd)
               }
             | REPORT_METADATA \<Rightarrow> handle_client_metadata_result nc mdtype pd
             | METADATA_IN_PROGRESS \<Rightarrow> Some (0, add_pending_md mdtype pathname NODE_PEER_CLIENT pd)
             | METADATA_ORIG_STAT \<Rightarrow> handle_client_metadata_self nc pd
           })"

section \<open>Requests from other servers\<close>

definition handle_metadata_request_recv :: "env_t \<Rightarrow> ldcs_message_t \<Rightarrow> metadata_t \<Rightarrow> node_peer_t \<Rightarrow> int handler" where
  "handle_metadata_request_recv env msg mdtype peer pd =
     (let pathname = c_str (msg_data msg)
      in if length pathname + 1 \<noteq> msg_len (msg_header msg) then None
         else do {
           stat_result \<leftarrow> handle_howto_metadata pd pathname mdtype;
           case stat_result of
             REQUEST_METADATA \<Rightarrow> handle_metadata_request pathname mdtype peer pd
           | METADATA_FILE \<Rightarrow>
               handle_metadata_and_broadcast_file env pathname mdtype request_broadcast (add_pending_md mdtype pathname peer pd)
           | REPORT_METADATA \<Rightarrow>
               handle_load_and_broadcast_metadata env pathname mdtype (add_pending_md mdtype pathname peer pd)
           | METADATA_IN_PROGRESS \<Rightarrow> Some (0, add_pending_md mdtype pathname peer pd)
           | METADATA_ORIG_STAT \<Rightarrow> None
         })"

end
