(* ===== verification/Handlers_Client.thy ===== *)
theory Handlers_Client
  imports Handlers_Metadata
begin

text \<open>
  The queries of the clients (\<open>ldcs_audit_server_handlers.c\<close>): from the message to the answer,
  with the postponed progress of queries that wait for other servers. The functions that call
  themselves after reading a directory, a file or an alias are
  \<open>partial_function\<close>s: \<^const>\<open>None\<close> is also the result of a recursion without end.
\<close>

abbreviation (input) ENOENT :: int where "ENOENT \<equiv> 2"
abbreviation (input) SPINDLE_ENODIR :: int where "SPINDLE_ENODIR \<equiv> - 68"

section \<open>Answers\<close>

definition handle_client_return_numa_replication :: "nat \<Rightarrow> ldcs_process_data_t \<Rightarrow> ldcs_process_data_t option" where
  "handle_client_return_numa_replication nc pd =
     (if or (opts pd) (push_bit OPT_NUMA 1) = 0
      then Some (set_client nc (\<lambda>c. c\<lparr>query_is_numa_replicated := False\<rparr>) pd)
      else
        let client = the_client pd nc;
            (res, replication) = ldcs_cache_isReplicated (cache pd) (query_filename client) (query_dirname client)
        in if res \<noteq> LDCS_CACHE_FILE_FOUND then None
           else Some (set_client nc (\<lambda>c. c\<lparr>query_is_numa_replicated := replication\<rparr>) pd))"

text \<open>The length of the answer is that of the name before the NUMA domain is written into it,
  which has the same length.\<close>

definition handle_client_fulfilled_query :: "nat \<Rightarrow> int handler" where
  "handle_client_fulfilled_query nc pd =
     (let client = the_client pd nc
      in if \<not> client_ready client then Some (0, pd)
         else case query_localpath client of
             None \<Rightarrow> None
           | Some l \<Rightarrow>
               let outfile = (if query_is_numa_replicated client
                              then numa_update_local_filename (take MAX_PATH_LEN l) (numa_node client)
                              else take MAX_PATH_LEN l);
                   msg = \<lparr>msg_header = \<lparr>msg_type = LDCS_MSG_FILE_QUERY_ANSWER, msg_len = length l + 1 + 4\<rparr>,
                          msg_data = put_i32 0 @ cstr outfile\<rparr>
               in Some (0, handle_close_client_query nc (ldcs_send_msg (connid client) msg pd)))"

definition handle_client_rejected_query :: "nat \<Rightarrow> int \<Rightarrow> int handler" where
  "handle_client_rejected_query nc errcode pd =
     (let client = the_client pd nc
      in if \<not> client_ready client then Some (0, pd)
         else Some (0, handle_close_client_query nc
                         (ldcs_send_msg (connid client) (mk_msg LDCS_MSG_FILE_QUERY_ANSWER (put_i32 errcode)) pd)))"

definition handle_client_originalfile_query :: "nat \<Rightarrow> int handler" where
  "handle_client_originalfile_query nc pd =
     handle_client_fulfilled_query nc (set_client nc (\<lambda>c. c\<lparr>query_localpath := Some (query_globalpath c)\<rparr>) pd)"

definition handle_client_get_alias :: "nat \<Rightarrow> string \<Rightarrow> ldcs_process_data_t \<Rightarrow> ldcs_process_data_t" where
  "handle_client_get_alias nc alias_to = set_client nc (\<lambda>c.
     let c = c\<lparr>query_aliasfrom := query_globalpath c, query_globalpath := take (MAX_PATH_LEN + 1) alias_to\<rparr>;
         (file, dir) = parseFilenameNoAlloc (query_globalpath c) MAX_PATH_LEN
     in c\<lparr>query_filename := file, query_dirname := dir\<rparr>)"

datatype exist_t = exists | not_exists

definition handle_report_fileexist_result :: "nat \<Rightarrow> exist_t \<Rightarrow> int handler" where
  "handle_report_fileexist_result nc res pd =
     (let client = the_client pd nc
      in if \<not> client_ready client then Some (0, pd)
         else Some (0, handle_close_client_query nc
                (ldcs_send_msg (connid client)
                   (mk_msg LDCS_MSG_EXISTS_ANSWER (put_u32 (if res = exists then 1 else 0))) pd)))"

section \<open>Progress\<close>

text \<open>\<open>&client->query_localpath\<close> is an output parameter of \<open>handle_howto_file\<close>.\<close>

definition set_localpath :: "nat \<Rightarrow> howto_t \<Rightarrow> ldcs_process_data_t \<Rightarrow> ldcs_process_data_t" where
  "set_localpath nc how = set_client nc (\<lambda>c.
     case howto_localpath how of None \<Rightarrow> c | Some lp \<Rightarrow> c\<lparr>query_localpath := lp\<rparr>)"

definition client_howto :: "ldcs_process_data_t \<Rightarrow> nat \<Rightarrow> bool \<Rightarrow> howto_t" where
  "client_howto pd nc dso = (let client = the_client pd nc in
     handle_howto_file pd (query_globalpath client) (query_filename client) (query_dirname client) dso)"

partial_function (option) handle_fileexist_test ::
  "env_t \<Rightarrow> nat \<Rightarrow> ldcs_process_data_t \<Rightarrow> (int \<times> ldcs_process_data_t) option" where
  "handle_fileexist_test env nc pd =
     (let how = client_howto pd nc True; pd = set_localpath nc how pd; client = the_client pd nc
      in case howto_result how of
           READ_FILE \<Rightarrow> handle_report_fileexist_result nc exists pd
         | REQ_FILE \<Rightarrow> handle_report_fileexist_result nc exists pd
         | FOUND_FILE \<Rightarrow> handle_report_fileexist_result nc exists pd
         | FOUND_ERRCODE \<Rightarrow> handle_report_fileexist_result nc exists pd
         | NO_FILE \<Rightarrow> handle_report_fileexist_result nc not_exists pd
         | NO_DIR \<Rightarrow> handle_report_fileexist_result nc not_exists pd
         | READ_DIRECTORY \<Rightarrow> do {
             (result, pd) \<leftarrow> handle_read_and_broadcast_dir env (query_dirname client) pd;
             if result = -1 then Some (-1, pd) else handle_fileexist_test env nc pd
           }
         | REQ_DIRECTORY \<Rightarrow> do {
             (result, pd) \<leftarrow> handle_send_query (query_dirname client) True False pd;
             Some (if result = -1 then -1 else 0, pd)
           }
         | ALIAS_TO \<Rightarrow>
             (case howto_alias how of
                None \<Rightarrow> None
              | Some alias_to \<Rightarrow> handle_fileexist_test env nc (handle_client_get_alias nc alias_to pd))
         | ORIG_FILE \<Rightarrow> None)"

declare handle_fileexist_test.simps [code]

partial_function (option) handle_client_progress ::
  "env_t \<Rightarrow> nat \<Rightarrow> ldcs_process_data_t \<Rightarrow> (int \<times> ldcs_process_data_t) option" where
  "handle_client_progress env nc pd =
     (if bit (opts pd) OPT_PRELOAD \<and> \<not> preload_done pd then Some (0, pd)
      else if \<not> query_open (the_client pd nc) then Some (0, pd)
      else if existance_query (the_client pd nc) then handle_fileexist_test env nc pd
      else if is_stat (the_client pd nc) \<or> is_loader (the_client pd nc) then handle_client_metadata env nc pd
      else
       (let how = client_howto pd nc (is_dso (the_client pd nc));
            pd = set_localpath nc how pd; client = the_client pd nc
        in case howto_result how of
             FOUND_FILE \<Rightarrow> do {
               pd \<leftarrow> handle_client_return_numa_replication nc pd;
               handle_client_fulfilled_query nc pd
             }
           | NO_DIR \<Rightarrow> handle_client_rejected_query nc SPINDLE_ENODIR pd
           | NO_FILE \<Rightarrow> handle_client_rejected_query nc ENOENT pd
           | FOUND_ERRCODE \<Rightarrow> handle_client_rejected_query nc (howto_errcode how) pd
           | READ_DIRECTORY \<Rightarrow> do {
               (read_result, pd) \<leftarrow> handle_read_directory env (query_dirname client) pd;
               if read_result = -1 then Some (-1, pd)
               else do {
                 (broadcast_result, pd) \<leftarrow> handle_broadcast_dir (query_dirname client) request_broadcast pd;
                 (client_result, pd) \<leftarrow> handle_client_progress env nc pd;
                 Some (if client_result = -1 \<or> broadcast_result = -1 then -1 else 0, pd)
               }
             }
           | READ_FILE \<Rightarrow> do {
               (read_result, pd) \<leftarrow> handle_read_and_broadcast_file env (query_globalpath client) (is_dso client) request_broadcast pd;
               if read_result = -1 then Some (-1, pd)
               else do {
                 (client_result, pd) \<leftarrow> handle_client_progress env nc pd;
                 Some (if client_result = -1 then -1 else 0, pd)
               }
             }
           | REQ_DIRECTORY \<Rightarrow> do {
               (client_result, pd) \<leftarrow> handle_send_query (query_dirname client) True False pd;
               Some (client_result, pd\<lparr>file_requests := add_requestor (file_requests pd) (query_dirname client) NODE_PEER_CLIENT\<rparr>)
             }
           | REQ_FILE \<Rightarrow> do {
               (client_result, pd) \<leftarrow> handle_send_query (query_globalpath client) False (is_dso client) pd;
               Some (client_result, pd\<lparr>dso_requests := add_requestor (dso_requests pd) (query_globalpath client) NODE_PEER_CLIENT\<rparr>)
             }
           | ORIG_FILE \<Rightarrow> handle_client_originalfile_query nc pd
           | ALIAS_TO \<Rightarrow>
               (case howto_alias how of
                  None \<Rightarrow> None
                | Some alias_to \<Rightarrow> handle_client_progress env nc (handle_client_get_alias nc alias_to pd))))"

declare handle_client_progress.simps [code]

primrec progress_loop :: "env_t \<Rightarrow> nat list \<Rightarrow> int \<Rightarrow> int handler" where
  "progress_loop env [] global_result pd = Some (global_result, pd)"
| "progress_loop env (nc # ncs) global_result pd =
     (let client = the_client pd nc
      in if client_state client = LDCS_CLIENT_STATUS_FREE \<or> client_state client = LDCS_CLIENT_STATUS_ACTIVE_PSEUDO
         then progress_loop env ncs global_result pd
         else do {
           (result, pd) \<leftarrow> handle_client_progress env nc pd;
           progress_loop env ncs (if result = -1 then -1 else global_result) pd
         })"

definition handle_progress :: "env_t \<Rightarrow> int handler" where
  "handle_progress env pd = progress_loop env [0..<client_table_used pd] 0 pd"

section \<open>Messages from clients\<close>

text \<open>\<open>parseFilenameNoAlloc2\<close> leaves empty strings when it fails.\<close>

definition split_query :: "env_t \<Rightarrow> int \<Rightarrow> string \<Rightarrow> (string \<times> string) option" where
  "split_query env pid pathname =
     (case parseFilenameNoAlloc2 pathname MAX_PATH_LEN (env_cwd env pid) of
        Parsed file dir \<Rightarrow> Some (file, dir)
      | No_CWD \<Rightarrow> Some ([], [])
      | Overflow \<Rightarrow> None)"

definition join_query :: "nat \<Rightarrow> string \<Rightarrow> string \<Rightarrow> string" where
  "join_query n dir file = take n (dir @ (if dir \<noteq> [] \<and> last dir = SLASH then [] else [SLASH]) @ file)"

definition handle_client_file_request :: "env_t \<Rightarrow> nat \<Rightarrow> ldcs_message_t \<Rightarrow> int handler" where
  "handle_client_file_request env nc msg pd =
     (let ty = msg_type (msg_header msg);
          pathname = c_str (msg_data msg)
      in do {
        globalname \<leftarrow> lookup_global_name (filemngt pd) (global_names pd) pathname;
        let pathname = (case globalname of None \<Rightarrow> pathname | Some g \<Rightarrow> g);
        (file, dir) \<leftarrow> split_query env (remote_pid (the_client pd nc)) pathname;
        let pd = set_client nc (\<lambda>c. c\<lparr>query_filename := file, query_dirname := dir,
               query_globalpath := join_query MAX_PATH_LEN dir file, query_localpath := None, query_open := True,
               is_stat := (ty = LDCS_MSG_STAT_QUERY \<or> ty = LDCS_MSG_LSTAT_QUERY), is_lstat := (ty = LDCS_MSG_LSTAT_QUERY),
               is_loader := (ty = LDCS_MSG_LOADER_DATA_REQ),
               is_dso := (ty = LDCS_MSG_DSO_QUERY \<or> ty = LDCS_MSG_DSO_QUERY_EXACT_PATH)\<rparr>) pd;
        handle_client_progress env nc pd
      })"

definition handle_client_fileexist_msg :: "env_t \<Rightarrow> nat \<Rightarrow> ldcs_message_t \<Rightarrow> int handler" where
  "handle_client_fileexist_msg env nc msg pd = do {
     (file, dir) \<leftarrow> split_query env (remote_pid (the_client pd nc)) (c_str (msg_data msg));
     let pd = set_client nc (\<lambda>c. c\<lparr>query_filename := file, query_dirname := dir,
               query_globalpath := join_query (MAX_PATH_LEN - 1) dir file, query_localpath := None,
               query_open := True, existance_query := True\<rparr>) pd;
     handle_client_progress env nc pd
   }"

definition handle_client_info_msg :: "env_t \<Rightarrow> nat \<Rightarrow> ldcs_message_t \<Rightarrow> int handler" where
  "handle_client_info_msg env nc msg pd =
     (let ty = msg_type (msg_header msg); text = c_str (msg_data msg)
      in Some (0, set_client nc (\<lambda>c.
           if ty = LDCS_MSG_CWD then c\<lparr>remote_cwd := take MAX_PATH_LEN text\<rparr>
           else if ty = LDCS_MSG_PID then c\<lparr>remote_pid := env_scan_int env text\<rparr>
           else if ty = LDCS_MSG_COMMPATH then c\<lparr>remote_location := take MAX_PATH_LEN text\<rparr>
           else if ty = LDCS_MSG_CPU then
             c\<lparr>numa_node := (let n = env_numa_core env (env_scan_int env text) in if n = -1 then 0 else nat n)\<rparr>
           else c) pd))"

definition answer_ready :: "nat \<Rightarrow> ldcs_message_t \<Rightarrow> int handler" where
  "answer_ready nc msg pd =
     (if \<not> client_ready (the_client pd nc) then Some (0, pd)
      else Some (0, ldcs_send_msg (connid (the_client pd nc)) msg pd))"

definition handle_pythonprefix_query :: "nat \<Rightarrow> int handler" where
  "handle_pythonprefix_query nc pd = answer_ready nc (mk_msg LDCS_MSG_PYTHONPREFIX_RESP (cstr (pythonprefix pd))) pd"

definition handle_client_dirlists_req :: "nat \<Rightarrow> int handler" where
  "handle_client_dirlists_req nc pd =
     answer_ready nc (mk_msg LDCS_MSG_DIRLISTS_RESP
       (put_i32 (int (length (localprefix pd) + 1)) @ cstr (localprefix pd)
        @ put_i32 (int (length (exec_excludes pd) + 1)) @ cstr (exec_excludes pd))) pd"

definition handle_client_myrankinfo_msg :: "nat \<Rightarrow> int handler" where
  "handle_client_myrankinfo_msg nc pd =
     Some (0, ldcs_send_msg (connid (the_client pd nc)) (mk_msg LDCS_MSG_MYRANKINFO_QUERY_ANSWER
       (put_i32 (int nc) @ put_i32 (client_counter pd) @ put_i32 (int (md_rank pd)) @ put_i32 (int (md_size pd)))) pd)"

definition handle_client_origpath_msg :: "nat \<Rightarrow> ldcs_message_t \<Rightarrow> int handler" where
  "handle_client_origpath_msg nc msg pd =
     (let origpath = c_str (msg_data msg);
          lookuppath = (if origpath = [] \<or> (hd origpath \<noteq> SLASH \<and> hd origpath \<noteq> CHR ''.'')
                        then take (MAX_PATH_LEN - 1) (cachepath (filemngt pd) @ [SLASH] @ origpath)
                        else take MAX_PATH_LEN origpath)
      in do {
        newpath \<leftarrow> lookup_global_name (filemngt pd) (global_names pd) lookuppath;
        let newpath = (case newpath of None \<Rightarrow> origpath | Some p \<Rightarrow> p);
        Some (0, handle_close_client_query nc
          (ldcs_send_msg (connid (the_client pd nc)) (mk_msg LDCS_MSG_ORIGPATH_ANSWER (cstr newpath)) pd))
      })"

definition handle_client_procmaps_msg :: "env_t \<Rightarrow> nat \<Rightarrow> ldcs_message_t \<Rightarrow> int handler" where
  "handle_client_procmaps_msg env nc msg pd =
     (if msg_len (msg_header msg) \<noteq> 4 then None
      else
        let pid = get_i32 (msg_data msg);
            newfile = (case env_procmaps env pid of None \<Rightarrow> [] | Some f \<Rightarrow> f)
        in Some (0, handle_close_client_query nc
             (ldcs_send_msg (connid (the_client pd nc)) (mk_msg LDCS_MSG_PROCMAPS_RESP (cstr newfile)) pd)))"

definition handle_client_pickone_resp :: "nat \<Rightarrow> bool \<Rightarrow> int handler" where
  "handle_client_pickone_resp nc you pd =
     Some (0, handle_close_client_query nc
       (ldcs_send_msg (connid (the_client pd nc)) (mk_msg LDCS_MSG_PICKONE_RESP (put_i32 (bool_int you))) pd))"

definition handle_client_pickone_msg :: "nat \<Rightarrow> ldcs_message_t \<Rightarrow> int handler" where
  "handle_client_pickone_msg nc msg pd =
     (if msg_len (msg_header msg) > MAX_PATH_LEN + 1 then None
      else
        let key = (if msg_len (msg_header msg) \<noteq> 0 then c_str (msg_data msg) else ''[NULL]'')
        in if ldcs_cache_pickone_get (pickone_cache pd) key then handle_client_pickone_resp nc False pd
           else
             let pd = pd\<lparr>pickone_cache := ldcs_cache_pickone_set (pickone_cache pd) key\<rparr>
             in handle_client_pickone_resp nc (ldcs_audit_server_md_is_responsible pd key) pd)"

definition handle_chosen_cachepath_request :: "nat \<Rightarrow> int handler" where
  "handle_chosen_cachepath_request nc pd =
     (if \<not> client_ready (the_client pd nc) then Some (0, pd)
      else case parsed_cachepath pd of
             None \<Rightarrow> None
           | Some p \<Rightarrow> Some (0, ldcs_send_msg (connid (the_client pd nc))
                          (mk_msg LDCS_MSG_CHOSEN_CACHEPATH (cstr (chosen_cachepath pd) @ cstr p)) pd))"

end
