(* ===== verification/Handlers_Tls.thy ===== *)
theory Handlers_Tls
  imports Server_State
begin

text \<open>
  Requests for the size of the static TLS area (\<open>ldcs_audit_server_handlers.c\<close>): a server
  answers from its table, the root calculates, every other server asks its parent; results go to
  the clients and children that wait for them.
\<close>

section \<open>Results\<close>

definition put_ssize :: "int \<Rightarrow> byte list" where
  "put_ssize i = le_bytes 8 (nat (i mod 2 ^ 64))"

definition get_ssize :: "byte list \<Rightarrow> int" where
  "get_ssize bs = (let n = int (get_u64 bs) in if n < 2 ^ 63 then n else n - 2 ^ 64)"

primrec tls_send_loop ::
  "ldcs_message_t \<Rightarrow> string \<Rightarrow> node_peer_t list \<Rightarrow> int \<Rightarrow> int handler" where
  "tls_send_loop msg tlskey [] global_result pd = Some (global_result, pd)"
| "tls_send_loop msg tlskey (n # nodes) global_result pd =
     (if n = NODE_PEER_CLIENT \<or> n = NODE_PEER_NULL then tls_send_loop msg tlskey nodes global_result pd
      else if peer_requested (completed_tls_requests pd) tlskey n then tls_send_loop msg tlskey nodes global_result pd
      else do {
        (result, pd) \<leftarrow> net_send (\<lambda>b. spindle_send_noncontig b msg n []) pd;
        if result = -1 then tls_send_loop msg tlskey nodes (-1) pd
        else tls_send_loop msg tlskey nodes global_result
               (pd\<lparr>completed_tls_requests := add_requestor (completed_tls_requests pd) tlskey n\<rparr>)
      })"

definition clear_tls_requests :: "string \<Rightarrow> ldcs_process_data_t \<Rightarrow> ldcs_process_data_t" where
  "clear_tls_requests tlskey pd = pd\<lparr>pending_tls_requests := clear_requestor (pending_tls_requests pd) tlskey\<rparr>"

definition handle_tls_send_results :: "string \<Rightarrow> ldcs_message_t \<Rightarrow> int handler" where
  "handle_tls_send_results tlskey msg pd =
     (if peer_requested (completed_tls_requests pd) tlskey NODE_PEER_ALL then Some (0, pd)
      else if dist_model pd = LDCS_PUSH then do {
        (result, pd) \<leftarrow> net_send (\<lambda>b. spindle_broadcast_noncontig b msg []) pd;
        Some (result, clear_tls_requests tlskey
          (pd\<lparr>completed_tls_requests := add_requestor (completed_tls_requests pd) tlskey NODE_PEER_ALL\<rparr>))
      }
      else
        (case get_requestors (pending_tls_requests pd) tlskey of
           None \<Rightarrow> Some (0, pd)
         | Some nodes \<Rightarrow> do {
             (result, pd) \<leftarrow> tls_send_loop msg tlskey nodes 0 pd;
             Some (result, clear_tls_requests tlskey pd)
           }))"

definition handle_send_client_static_tls_resp :: "nat \<Rightarrow> int \<Rightarrow> int \<Rightarrow> ldcs_process_data_t \<Rightarrow> ldcs_process_data_t" where
  "handle_send_client_static_tls_resp nc tls_size tls_alignment pd =
     handle_close_client_query nc
       (ldcs_send_msg (connid (the_client pd nc))
          (mk_msg LDCS_MSG_CLIENT_STATICTLS_RESP (put_ssize tls_size @ put_ssize tls_alignment)) pd)"

text \<open>The clients that wait for this request, all of which are answered before their request is
  freed.\<close>

definition tls_waits :: "static_tls_info_t \<Rightarrow> ldcs_client_t \<Rightarrow> bool" where
  "tls_waits tlsinfo client \<longleftrightarrow>
     \<not> (client_state client = LDCS_CLIENT_STATUS_FREE \<or> client_state client = LDCS_CLIENT_STATUS_ACTIVE_PSEUDO) \<and>
     (case tls_info client of None \<Rightarrow> False | Some i \<Rightarrow> static_tls_info_equal i tlsinfo)"

definition tls_waiting :: "ldcs_process_data_t \<Rightarrow> static_tls_info_t \<Rightarrow> nat list" where
  "tls_waiting pd tlsinfo = filter (\<lambda>nc. tls_waits tlsinfo (the_client pd nc)) [0..<client_table_used pd]"

definition handle_tls_process_result :: "static_tls_info_t \<Rightarrow> string \<Rightarrow> int \<Rightarrow> int \<Rightarrow> int handler" where
  "handle_tls_process_result tlsinfo tlskey tls_size tls_alignment pd = do {
     packet \<leftarrow> static_tls_info_encode2 tlsinfo (static_tls_info_encode_size_needed2 tlsinfo);
     (result, pd) \<leftarrow> handle_tls_send_results tlskey
        (mk_msg LDCS_MSG_STATICTLS_RESP (put_ssize tls_size @ put_ssize tls_alignment @ packet)) pd;
     let clients_sent_to = tls_waiting pd tlsinfo;
     let pd = foldl (\<lambda>pd nc. handle_send_client_static_tls_resp nc tls_size tls_alignment pd) pd clients_sent_to;
     let pd = foldl (\<lambda>pd nc. set_client nc (\<lambda>c. c\<lparr>tls_info := None\<rparr>) pd) pd clients_sent_to;
     Some (if result = -1 then -1 else 0, pd)
   }"

section \<open>Requests\<close>

definition add_tls_request :: "string \<Rightarrow> node_peer_t \<Rightarrow> ldcs_process_data_t \<Rightarrow> ldcs_process_data_t" where
  "add_tls_request tlskey from pd =
     (if from \<noteq> NODE_PEER_CLIENT
      then pd\<lparr>pending_tls_requests := add_requestor (pending_tls_requests pd) tlskey from\<rparr> else pd)"

definition handle_tls_send_request :: "static_tls_info_t \<Rightarrow> string \<Rightarrow> node_peer_t \<Rightarrow> int handler" where
  "handle_tls_send_request tlsinfo tlskey from pd =
     (if been_requested (pending_tls_requests pd) tlskey then Some (0, add_tls_request tlskey from pd)
      else do {
        packet \<leftarrow> static_tls_info_encode2 tlsinfo (static_tls_info_encode_size_needed2 tlsinfo + 1);
        net_send (\<lambda>b. spindle_forward_query b (mk_msg LDCS_MSG_STATICTLS packet)) (add_tls_request tlskey from pd)
      })"

definition handle_tls_request :: "env_t \<Rightarrow> static_tls_info_t \<Rightarrow> node_peer_t \<Rightarrow> int handler" where
  "handle_tls_request env tlsinfo from pd =
     (let tls_key = static_tls_info_to_idstr tlsinfo
      in case static_tls_info_lookup (tls_tables pd) tlsinfo of
           Some (tls_size, tls_align) \<Rightarrow>
             handle_tls_process_result tlsinfo tls_key tls_size tls_align (add_tls_request tls_key from pd)
         | None \<Rightarrow>
             if ldcs_audit_server_md_is_responsible pd tls_key then do {
               let pd = add_tls_request tls_key from pd;
               ((tls_size, tls_align), t) \<leftarrow>
                 handle_calculate_total_static_tls_needed (env_tls_depth env) (env_tls env) tlsinfo (tls_tables pd);
               handle_tls_process_result tlsinfo tls_key tls_size tls_align (pd\<lparr>tls_tables := t\<rparr>)
             }
             else do {
               (result, pd) \<leftarrow> handle_tls_send_request tlsinfo tls_key from pd;
               Some (if result = -1 then -1 else 0, pd)
             })"

definition handle_client_static_tls_req :: "env_t \<Rightarrow> nat \<Rightarrow> ldcs_message_t \<Rightarrow> int handler" where
  "handle_client_static_tls_req env nc msg pd = do {
     decoded \<leftarrow> static_tls_info_decode (msg_data msg) (msg_len (msg_header msg));
     case decoded of
       None \<Rightarrow> Some (-1, pd)
     | Some tlsinfo \<Rightarrow>
         if tls_info (the_client pd nc) \<noteq> None then None
         else handle_tls_request env tlsinfo NODE_PEER_CLIENT (set_client nc (\<lambda>c. c\<lparr>tls_info := Some tlsinfo\<rparr>) pd)
   }"

definition handle_static_tls_req :: "env_t \<Rightarrow> ldcs_message_t \<Rightarrow> node_peer_t \<Rightarrow> int handler" where
  "handle_static_tls_req env msg from pd = do {
     decoded \<leftarrow> static_tls_info_decode (msg_data msg) (msg_len (msg_header msg));
     case decoded of
       None \<Rightarrow> Some (-1, pd)
     | Some info \<Rightarrow> do {
         (result, pd) \<leftarrow> handle_tls_request env info from pd;
         Some (if result = -1 then -1 else 0, pd)
       }
   }"

definition handle_static_tls_resp :: "ldcs_message_t \<Rightarrow> int handler" where
  "handle_static_tls_resp msg pd = do {
     let tls_size = get_ssize (msg_data msg);
     let tls_alignment = get_ssize (drop 8 (msg_data msg));
     if msg_len (msg_header msg) < 16 then None
     else do {
       decoded \<leftarrow> static_tls_info_decode (drop 16 (msg_data msg)) (msg_len (msg_header msg) - 16);
       case decoded of
         None \<Rightarrow> Some (-1, pd)
       | Some tlsinfo \<Rightarrow> do {
           (result, pd) \<leftarrow> handle_tls_process_result tlsinfo (static_tls_info_to_idstr tlsinfo) tls_size tls_alignment
              (pd\<lparr>tls_tables := static_tls_info_add tlsinfo tls_size tls_alignment (tls_tables pd)\<rparr>);
           Some (if result = -1 then -1 else 0, pd)
         }
     }
   }"

end
