(* ===== verification/Crash_Sites.thy ===== *)
theory Crash_Sites
  imports Server_State
begin

text \<open>
  Deduplication of core dumps and the log of crashes
  (\<open>ldcs_audit_server_crash_handler.c\<close>, \<open>ldcs_audit_server_crash_log.c\<close>). A crashing client
  reports the site of its crash; the first report of a site that reaches the root is selected to
  dump core, all other reporters are told that they are not. The rows of the log travel to the
  root.
\<close>

section \<open>The table of sites\<close>

definition crash_site_find :: "crash_site_entry_t list \<Rightarrow> byte list \<Rightarrow> nat option" where
  "crash_site_find sites s = (let i = length (takeWhile (\<lambda>e. site e \<noteq> s) sites) in if i < length sites then Some i else None)"

definition no_waiter :: crash_waiter_t where
  "no_waiter = \<lparr>w_kind = CRASH_WAITER_LOCAL, w_nc = 0, w_global_rank = 0, w_peer = NODE_PEER_NULL\<rparr>"

definition crash_site_insert :: "byte list \<Rightarrow> ldcs_process_data_t \<Rightarrow> ldcs_process_data_t" where
  "crash_site_insert s pd = pd\<lparr>crash_sites := crash_sites pd @ [\<lparr>site = s, resolved = False, waiter = no_waiter,
     exemplar_rank = -1, exemplar_corepath = None, log_ranks = []\<rparr>]\<rparr>"

definition set_site :: "nat \<Rightarrow> (crash_site_entry_t \<Rightarrow> crash_site_entry_t) \<Rightarrow> ldcs_process_data_t \<Rightarrow> ldcs_process_data_t" where
  "set_site i f pd = pd\<lparr>crash_sites := (crash_sites pd)[i := f (crash_sites pd ! i)]\<rparr>"

section \<open>Packets\<close>

definition crash_pack :: "int \<Rightarrow> byte list \<Rightarrow> byte list" where
  "crash_pack rank s = put_i32 rank @ put_i32 (int (length s)) @ s"

definition crash_pack_report :: "int \<Rightarrow> int \<Rightarrow> byte list \<Rightarrow> string option \<Rightarrow> byte list" where
  "crash_pack_report dedup_rank display_rank s corepath =
     put_i32 dedup_rank @ put_i32 display_rank @ put_i32 (int (length s)) @ s @
     (case corepath of None \<Rightarrow> put_i32 0 | Some c \<Rightarrow> put_i32 (int (length c + 1)) @ cstr c)"

definition crash_parse_report :: "ldcs_message_t \<Rightarrow> (int \<times> int \<times> byte list \<times> string option) option" where
  "crash_parse_report msg =
     (let len = msg_len (msg_header msg); bs = msg_data msg
      in if len < 3 * 4 then None
         else
           let name_len = get_i32 (drop 8 bs)
           in if name_len \<le> 0 \<or> nat name_len > len - 3 * 4 then None
              else
                let s = take (nat name_len) (drop 12 bs); used = 12 + nat name_len
                in if used = len then Some (get_i32 bs, get_i32 (drop 4 bs), s, None)
                   else if len - used < 4 then None
                   else
                     let cp_len = get_i32 (drop used bs); used = used + 4
                     in if cp_len < 0 \<or> nat cp_len \<noteq> len - used \<or> (cp_len > 0 \<and> bs ! (len - 1) \<noteq> NUL) then None
                        else Some (get_i32 bs, get_i32 (drop 4 bs), s,
                                   if cp_len > 0 then Some (c_str (drop used bs)) else None))"

definition crash_parse_response :: "ldcs_message_t \<Rightarrow> (int \<times> byte list) option" where
  "crash_parse_response msg =
     (if msg_len (msg_header msg) < 2 * 4 then None
      else
        let name_len = get_i32 (drop 4 (msg_data msg))
        in if name_len \<le> 0 then None
           else Some (get_i32 (msg_data msg), take (nat name_len) (drop 8 (msg_data msg))))"

section \<open>Decisions\<close>

definition send_crash_response_to_waiter :: "crash_waiter_t \<Rightarrow> int \<Rightarrow> byte list \<Rightarrow> ldcs_process_data_t \<Rightarrow> ldcs_process_data_t option" where
  "send_crash_response_to_waiter w winning_rank s pd =
     (case w_kind w of
        CRASH_WAITER_LOCAL \<Rightarrow>
          (let client = the_client pd (nat (w_nc w))
           in Some (if client_state client = LDCS_CLIENT_STATUS_ACTIVE \<and> connid client \<ge> 0
                    then ldcs_send_msg (connid client) (mk_msg LDCS_MSG_CRASH_RESPONSE (put_i32 winning_rank)) pd else pd))
      | CRASH_WAITER_CHILD \<Rightarrow> do {
          (_, pd) \<leftarrow> net_send (\<lambda>b. spindle_send b (mk_msg LDCS_MSG_CRASH_RESPONSE (crash_pack winning_rank s)) (w_peer w)) pd;
          Some pd
        })"

definition crash_resolve :: "nat \<Rightarrow> int \<Rightarrow> int handler" where
  "crash_resolve i winning_rank pd = do {
     let e = crash_sites pd ! i;
     pd \<leftarrow> send_crash_response_to_waiter (waiter e) winning_rank (site e) pd;
     Some (0, set_site i (\<lambda>e. e\<lparr>resolved := True\<rparr>) pd)
   }"

definition forward_crash_query_up :: "byte list \<Rightarrow> string option \<Rightarrow> int \<Rightarrow> int \<Rightarrow> int handler" where
  "forward_crash_query_up s corepath first_waiter_rank first_waiter_display_rank =
     net_send (\<lambda>b. spindle_forward_query b (mk_msg LDCS_MSG_CRASH_REPORT
       (crash_pack_report first_waiter_rank first_waiter_display_rank s corepath)))"

text \<open>The result has the index of the entry.\<close>

definition crash_report_common ::
  "crash_waiter_t \<Rightarrow> int \<Rightarrow> int \<Rightarrow> byte list \<Rightarrow> string option \<Rightarrow> (int \<times> nat) handler" where
  "crash_report_common w reporter_rank reporter_display_rank s corepath pd =
     (case crash_site_find (crash_sites pd) s of
        Some i \<Rightarrow> do {
          pd \<leftarrow> send_crash_response_to_waiter w (-1) s pd;
          Some ((0, i), pd)
        }
      | None \<Rightarrow> do {
          let i = length (crash_sites pd);
          let pd = set_site i (\<lambda>e. e\<lparr>waiter := w\<rparr>) (crash_site_insert s pd);
          (result, pd) \<leftarrow>
            (if ldcs_audit_server_md_is_responsible pd [] then
               let pd = (if bit (opts pd) OPT_CRASH_LOG
                         then set_site i (\<lambda>e. e\<lparr>exemplar_rank := reporter_display_rank, exemplar_corepath := corepath\<rparr>) pd
                         else pd)
               in crash_resolve i reporter_rank pd
             else forward_crash_query_up s corepath reporter_rank reporter_display_rank pd);
          Some ((result, i), pd)
        })"

section \<open>Keys\<close>

definition crash_original_path :: "ldcs_process_data_t \<Rightarrow> string \<Rightarrow> string option" where
  "crash_original_path pd p = map_option (\<lambda>g. case g of None \<Rightarrow> p | Some orig \<Rightarrow> orig)
     (lookup_global_name (filemngt pd) (global_names pd) p)"

text \<open>The offset of the last \<open>+0x\<close>.\<close>

fun last_offset :: "string \<Rightarrow> nat option" where
  "last_offset [] = None"
| "last_offset (c # cs) =
     (case last_offset cs of
        Some i \<Rightarrow> Some (Suc i)
      | None \<Rightarrow> if prefix ''+0x'' (c # cs) then Some 0 else None)"

definition crash_site_offset :: "string \<Rightarrow> nat option" where
  "crash_site_offset s = (if prefix ''abort:'' s then None else last_offset s)"

definition crash_original_site :: "ldcs_process_data_t \<Rightarrow> string \<Rightarrow> string option" where
  "crash_original_site pd s =
     (case crash_site_offset s of
        None \<Rightarrow> Some s
      | Some i \<Rightarrow> map_option (\<lambda>orig. orig @ drop i s) (crash_original_path pd (take i s)))"

text \<open>The key includes its terminating NUL.\<close>

definition crash_build_key :: "ldcs_process_data_t \<Rightarrow> string \<Rightarrow> byte list \<Rightarrow> byte list option" where
  "crash_build_key pd exe s = do {
     orig_site \<leftarrow> crash_original_site pd (c_str s);
     orig_exe \<leftarrow> crash_original_path pd exe;
     Some (cstr (orig_exe @ ''|'' @ orig_site))
   }"

section \<open>The log\<close>

definition crash_log_append_rank :: "nat \<Rightarrow> crash_log_rank_t \<Rightarrow> ldcs_process_data_t \<Rightarrow> ldcs_process_data_t" where
  "crash_log_append_rank i row = set_site i (\<lambda>e. e\<lparr>log_ranks := log_ranks e @ [row]\<rparr>)"

definition crash_log_row_pack :: "crash_log_rank_t \<Rightarrow> byte list" where
  "crash_log_row_pack r = put_i32 (row_rank r) @ put_i32 (row_pid r) @ put_u64 (nat (row_timestamp r mod 2 ^ 64))
     @ put_i32 (int (length (row_hostname r))) @ row_hostname r"

definition crash_log_entry_pack :: "crash_site_entry_t \<Rightarrow> byte list" where
  "crash_log_entry_pack e = put_i32 (int (length (site e))) @ site e @ put_i32 (exemplar_rank e)
     @ put_i32 (int (length (log_ranks e))) @ concat (map crash_log_row_pack (log_ranks e))"

definition get_i64 :: "byte list \<Rightarrow> int" where
  "get_i64 bs = (let n = int (get_u64 bs) in if n < 2 ^ 63 then n else n - 2 ^ 64)"

text \<open>Reads a row at the head of the remaining data.\<close>

definition crash_log_parse_row :: "byte list \<Rightarrow> (crash_log_rank_t \<times> byte list) option" where
  "crash_log_parse_row bs =
     (if length bs < 3 * 4 + 8 then None
      else
        let host_len = get_i32 (drop 16 bs); rest = drop 20 bs
        in if host_len < 0 \<or> nat host_len > length rest then None
           else Some (\<lparr>row_rank = get_i32 bs, row_pid = get_i32 (drop 4 bs), row_timestamp = get_i64 (drop 8 bs),
                       row_hostname = take (nat host_len) rest\<rparr>, drop (nat host_len) rest))"

primrec parse_rows :: "nat \<Rightarrow> byte list \<Rightarrow> (crash_log_rank_t list \<times> byte list) option" where
  "parse_rows 0 bs = Some ([], bs)"
| "parse_rows (Suc n) bs = do {
     (row, bs) \<leftarrow> crash_log_parse_row bs;
     (rows, bs) \<leftarrow> parse_rows n bs;
     Some (row # rows, bs)
   }"

record crash_log_entry_t =
  ent_site :: "byte list"
  ent_exemplar :: int
  ent_rows :: "crash_log_rank_t list"

definition crash_log_parse_entry :: "byte list \<Rightarrow> (crash_log_entry_t \<times> byte list) option" where
  "crash_log_parse_entry bs =
     (if length bs < 4 then None
      else
        let site_len = get_i32 bs; rest = drop 4 bs
        in if site_len \<le> 0 \<or> nat site_len > length rest then None
           else
             let s = take (nat site_len) rest; rest = drop (nat site_len) rest
             in if length rest < 2 * 4 then None
                else
                  let nranks = get_i32 (drop 4 rest)
                  in if nranks < 0 then None
                     else map_option (\<lambda>(rows, bs). (\<lparr>ent_site = s, ent_exemplar = get_i32 rest, ent_rows = rows\<rparr>, bs))
                            (parse_rows (nat nranks) (drop 8 rest)))"

definition crash_log_clear_pending :: "ldcs_process_data_t \<Rightarrow> ldcs_process_data_t" where
  "crash_log_clear_pending pd = pd\<lparr>crash_sites := map (\<lambda>e. e\<lparr>log_ranks := []\<rparr>) (crash_sites pd)\<rparr>"

definition pending_sites :: "ldcs_process_data_t \<Rightarrow> crash_site_entry_t list" where
  "pending_sites pd = filter (\<lambda>e. log_ranks e \<noteq> []) (crash_sites pd)"

definition crash_log_flush_to_parent :: "ldcs_process_data_t \<Rightarrow> ldcs_process_data_t option" where
  "crash_log_flush_to_parent pd =
     (if \<not> bit (opts pd) OPT_CRASH_LOG then Some pd
      else if ldcs_audit_server_md_is_responsible pd [] then Some pd
      else if pending_sites pd = [] then Some pd
      else do {
        (rc, pd') \<leftarrow> net_send (\<lambda>b. spindle_forward_query b (mk_msg LDCS_MSG_CRASH_LOG
             (put_i32 (int (length (pending_sites pd))) @ concat (map crash_log_entry_pack (pending_sites pd))))) pd;
        Some (if rc = -1 then pd' else crash_log_clear_pending pd')
      })"

definition crash_log_merge_entry :: "crash_log_entry_t \<Rightarrow> ldcs_process_data_t \<Rightarrow> ldcs_process_data_t" where
  "crash_log_merge_entry ent pd =
     (let (i, pd) = (case crash_site_find (crash_sites pd) (ent_site ent) of
            Some i \<Rightarrow> (i, pd)
          | None \<Rightarrow> (length (crash_sites pd),
                     set_site (length (crash_sites pd)) (\<lambda>e. e\<lparr>resolved := True\<rparr>) (crash_site_insert (ent_site ent) pd)));
          pd = (if ent_exemplar ent \<noteq> -1 then set_site i (\<lambda>e. e\<lparr>exemplar_rank := ent_exemplar ent\<rparr>) pd else pd)
      in foldl (\<lambda>pd row. crash_log_append_rank i row pd) pd (ent_rows ent))"

text \<open>\<open>Inl\<close>: the message is malformed after the entries merged so far.\<close>

primrec merge_entries :: "nat \<Rightarrow> byte list \<Rightarrow> ldcs_process_data_t \<Rightarrow> ldcs_process_data_t + ldcs_process_data_t" where
  "merge_entries 0 bs pd = Inr pd"
| "merge_entries (Suc n) bs pd =
     (case crash_log_parse_entry bs of
        None \<Rightarrow> Inl pd
      | Some (ent, bs) \<Rightarrow> merge_entries n bs (crash_log_merge_entry ent pd))"

definition handle_crash_log_recv :: "node_peer_t \<Rightarrow> ldcs_message_t \<Rightarrow> int handler" where
  "handle_crash_log_recv peer msg pd =
     (let bs = take (msg_len (msg_header msg)) (msg_data msg)
      in if ldcs_audit_server_md_is_parent pd peer then Some (-1, pd)
         else if msg_len (msg_header msg) < 4 then Some (-1, pd)
         else if get_i32 bs < 0 then Some (-1, pd)
         else case merge_entries (nat (get_i32 bs)) (drop 4 bs) pd of
                Inl pd \<Rightarrow> Some (-1, pd)
              | Inr pd \<Rightarrow> map_option (\<lambda>pd. (0, pd)) (crash_log_flush_to_parent pd))"

section \<open>Messages of clients\<close>

definition handle_client_crash_string :: "nat \<Rightarrow> ldcs_message_t \<Rightarrow> int handler" where
  "handle_client_crash_string nc msg pd =
     (let ty = msg_type (msg_header msg); len = msg_len (msg_header msg)
      in if \<not> bit (opts pd) OPT_CRASH_HANDLER then Some (0, pd)
         else if ty \<noteq> LDCS_MSG_CRASH_EXE \<and> ty \<noteq> LDCS_MSG_CRASH_COREPATH then Some (-1, pd)
         else if len = 0 \<or> msg_data msg ! (len - 1) \<noteq> NUL then Some (-1, pd)
         else Some (0, set_client nc (\<lambda>c.
                if ty = LDCS_MSG_CRASH_EXE then c\<lparr>crash_exe := Some (c_str (msg_data msg))\<rparr>
                else c\<lparr>crash_corepath := Some (c_str (msg_data msg))\<rparr>) pd))"

definition crash_free_client_stash :: "nat \<Rightarrow> ldcs_process_data_t \<Rightarrow> ldcs_process_data_t" where
  "crash_free_client_stash nc = set_client nc (\<lambda>c. c\<lparr>crash_exe := None, crash_corepath := None\<rparr>)"

definition handle_client_crash_report :: "env_t \<Rightarrow> nat \<Rightarrow> ldcs_message_t \<Rightarrow> int handler" where
  "handle_client_crash_report env nc msg pd =
     (if \<not> bit (opts pd) OPT_CRASH_HANDLER then Some (0, pd)
      else case crash_parse_report msg of
        None \<Rightarrow> Some (-1, pd)
      | Some (rank_raw, display_rank, s, _) \<Rightarrow>
          (let client = the_client pd nc
           in case crash_exe client of
                None \<Rightarrow> Some (-1, pd)
              | Some exe \<Rightarrow> do {
                  key \<leftarrow> crash_build_key pd exe s;
                  let w = \<lparr>w_kind = CRASH_WAITER_LOCAL, w_nc = int nc, w_global_rank = rank_raw, w_peer = NODE_PEER_NULL\<rparr>;
                  ((result, i), pd) \<leftarrow> crash_report_common w rank_raw display_rank key (crash_corepath client) pd;
                  pd \<leftarrow> (if bit (opts pd) OPT_CRASH_LOG
                        then crash_log_flush_to_parent (crash_log_append_rank i
                               \<lparr>row_rank = display_rank, row_pid = remote_pid client, row_timestamp = env_time env,
                                row_hostname = hostname pd\<rparr> pd)
                        else Some pd);
                  Some (result, crash_free_client_stash nc pd)
                }))"

section \<open>Messages of servers\<close>

definition handle_crash_report_recv :: "node_peer_t \<Rightarrow> ldcs_message_t \<Rightarrow> int handler" where
  "handle_crash_report_recv peer msg pd =
     (if ldcs_audit_server_md_is_parent pd peer then Some (-1, pd)
      else case crash_parse_report msg of
        None \<Rightarrow> Some (-1, pd)
      | Some (rank, display_rank, s, corepath) \<Rightarrow>
          map_option (\<lambda>((result, _), pd). (result, pd))
            (crash_report_common \<lparr>w_kind = CRASH_WAITER_CHILD, w_nc = -1, w_global_rank = -1, w_peer = peer\<rparr>
               rank display_rank s corepath pd))"

definition handle_crash_response_recv :: "node_peer_t \<Rightarrow> ldcs_message_t \<Rightarrow> int handler" where
  "handle_crash_response_recv peer msg pd =
     (if \<not> ldcs_audit_server_md_is_parent pd peer then Some (-1, pd)
      else case crash_parse_response msg of
        None \<Rightarrow> Some (-1, pd)
      | Some (selected_rank, s) \<Rightarrow>
          (case crash_site_find (crash_sites pd) s of
             None \<Rightarrow> Some (-1, pd)
           | Some i \<Rightarrow>
               if resolved (crash_sites pd ! i) then Some (-1, pd)
               else crash_resolve i selected_rank pd))"

definition crash_free_tables :: "ldcs_process_data_t \<Rightarrow> ldcs_process_data_t" where
  "crash_free_tables pd = pd\<lparr>crash_sites := []\<rparr>"

end
