(* ===== verification/Exit_Protocol.thy ===== *)
theory Exit_Protocol
  imports Crash_Sites
begin

text \<open>
  Agreement on the end of the job and the liveness ping (\<open>ldcs_audit_server_handlers.c\<close>):
  a server whose clients have ended and whose children are ready reports to its parent, the
  root broadcasts the exit. A server that gets a new client takes its report back.
\<close>

section \<open>The handlers\<close>

definition handle_exit_broadcast :: "int handler" where
  "handle_exit_broadcast pd = do {
     pd \<leftarrow> crash_log_flush_to_parent pd;
     (_, pd) \<leftarrow> net_send (\<lambda>b. spindle_broadcast b (mk_msg LDCS_MSG_EXIT [])) pd;
     Some (0, pd\<lparr>msgbundle := msgbundle_force_flush (msgbundle pd), exit_marked := True\<rparr>)
   }"

definition exit_children :: "ldcs_process_data_t \<Rightarrow> nat" where
  "exit_children pd =
     (let num_children = md_num_children (msgbundle pd)
      in if num_exited_children_peers pd < num_children then num_children - num_exited_children_peers pd else 0)"

definition handle_send_exit_ready_if_done :: "int handler" where
  "handle_send_exit_ready_if_done pd =
     (if bit (opts pd) OPT_PERSIST \<and> \<not> exit_on_client_close pd then Some (0, pd)
      else if sent_exit_ready pd \<and> num_exited_parents pd = 0 then Some (0, pd)
      else if clients_live pd > 0 then Some (0, pd)
      else if bit (opts pd) OPT_BEEXIT \<and> \<not> exit_note_done pd \<and> \<not> exit_on_client_close pd then Some (0, pd)
      else if exit_readys_recvd pd < exit_children pd \<and> \<not> exit_on_client_close pd then Some (0, pd)
      else
        let msg = mk_msg LDCS_MSG_EXIT_READY [];
            pd = pd\<lparr>sent_exit_ready := True\<rparr>
        in if ldcs_audit_server_md_is_responsible pd []
           then handle_exit_broadcast (snd (ldcs_audit_server_md_to_frontend msg pd))
           else do {
             pd \<leftarrow> crash_log_flush_to_parent pd;
             (result, pd) \<leftarrow> net_send (\<lambda>b. spindle_forward_query b msg) pd;
             Some (result, pd\<lparr>msgbundle := msgbundle_force_flush (msgbundle pd)\<rparr>)
           })"

definition handle_exit_ready_msg :: "int handler" where
  "handle_exit_ready_msg pd =
     handle_send_exit_ready_if_done (pd\<lparr>exit_readys_recvd := exit_readys_recvd pd + 1\<rparr>)"

definition handle_send_exit_cancel :: "int handler" where
  "handle_send_exit_cancel pd =
     (if \<not> sent_exit_ready pd then None
      else if ldcs_audit_server_md_is_responsible pd [] then Some (0, pd)
      else net_send (\<lambda>b. spindle_forward_query b (mk_msg LDCS_MSG_EXIT_CANCEL [])) pd)"

definition handle_exit_cancel_msg :: "int handler" where
  "handle_exit_cancel_msg pd =
     (if \<not> exit_readys_recvd pd > 0 then None
      else
        let pd = pd\<lparr>exit_readys_recvd := exit_readys_recvd pd - 1\<rparr>
        in if \<not> sent_exit_ready pd then Some (0, pd)
           else do {
             (result, pd) \<leftarrow> handle_send_exit_cancel pd;
             if result = -1 then Some (-1, pd) else Some (0, pd\<lparr>sent_exit_ready := False\<rparr>)
           })"

definition handle_client_start :: "int handler" where
  "handle_client_start pd = (if sent_exit_ready pd then handle_send_exit_cancel pd else Some (0, pd))"

definition handle_client_end :: "nat \<Rightarrow> int handler" where
  "handle_client_end nc pd =
     (if \<not> client_ready (the_client pd nc) then Some (0, pd)
      else
        let pd = set_client nc (\<lambda>c. c\<lparr>client_state := LDCS_CLIENT_STATUS_FREE\<rparr>) (crash_free_client_stash nc pd)
        in if \<not> clients_live pd > 0 then None
           else handle_send_exit_ready_if_done (pd\<lparr>clients_live := clients_live pd - 1\<rparr>))"

definition handle_server_error :: "node_peer_t \<Rightarrow> int handler" where
  "handle_server_error peer pd =
     Some (0, if ldcs_audit_server_md_is_parent pd peer then pd\<lparr>num_exited_parents := num_exited_parents pd + 1\<rparr>
              else pd\<lparr>num_exited_children_peers := num_exited_children_peers pd + 1\<rparr>)"

definition exit_note_cb :: "int handler" where
  "exit_note_cb pd = handle_send_exit_ready_if_done (pd\<lparr>exit_note_done := True\<rparr>)"

definition set_exit_on_client_close :: "int handler" where
  "set_exit_on_client_close pd = handle_send_exit_ready_if_done (pd\<lparr>exit_on_client_close := True\<rparr>)"

section \<open>The liveness ping\<close>

definition handle_alive_msg :: "ldcs_message_t \<Rightarrow> int handler" where
  "handle_alive_msg msg pd =
     (let num_children = md_num_children (msgbundle pd); ty = msg_type (msg_header msg)
      in do {
        (result, pd) \<leftarrow>
          (if ty = LDCS_MSG_ALIVE_REQ then
             (if num_alives pd \<noteq> 0 then None
              else if num_children \<noteq> 0 then do {
                (result, pd) \<leftarrow> net_send (\<lambda>b. spindle_broadcast b msg) pd;
                Some (result, if result = -1 then pd else pd\<lparr>msgbundle := msgbundle_force_flush (msgbundle pd)\<rparr>)
              }
              else Some (0, pd))
           else if ty = LDCS_MSG_ALIVE_RESP then Some (0, pd\<lparr>num_alives := num_alives pd + 1\<rparr>)
           else Some (0, pd));
        if result = -1 then Some (-1, pd)
        else if num_children \<noteq> num_alives pd then Some (0, pd)
        else do {
          let resp = mk_msg LDCS_MSG_ALIVE_RESP [];
          let pd = pd\<lparr>num_alives := 0\<rparr>;
          if ldcs_audit_server_md_is_responsible pd [] then Some (ldcs_audit_server_md_to_frontend resp pd)
          else do {
            (result, pd) \<leftarrow> net_send (\<lambda>b. spindle_forward_query b resp) pd;
            Some (result, if result = -1 then pd else pd\<lparr>msgbundle := msgbundle_force_flush (msgbundle pd)\<rparr>)
          }
        }
      })"

section \<open>New clients\<close>

text \<open>\<open>_ldcs_server_CB\<close> (\<open>ldcs_audit_server_server_cb.c\<close>): a slot for a new connection. Memory from
  \<open>realloc\<close> is not initialised apart from the state of the slots; the values here stand for it, and
  no handler reads them while the slot is free.\<close>

definition free_slot :: ldcs_client_t where
  "free_slot = \<lparr>connid = -1, client_state = LDCS_CLIENT_STATUS_FREE, remote_location = [], remote_pid = 0, remote_cwd = [],
     query_open = False, existance_query = False, is_stat = False, is_lstat = False, is_loader = False, is_dso = False,
     numa_node = 0, tls_info = None, query_filename = [], query_dirname = [], query_globalpath = [], query_localpath = None,
     query_aliasfrom = [], query_is_numa_replicated = False, crash_exe = None, crash_corepath = None\<rparr>"

definition grow_client_table :: "ldcs_process_data_t \<Rightarrow> ldcs_process_data_t" where
  "grow_client_table pd =
     (if client_table_used pd \<ge> length (client_table pd)
      then pd\<lparr>client_table := take (client_table_used pd) (client_table pd) @
                replicate (client_table_used pd + 16 - length (take (client_table_used pd) (client_table pd))) free_slot\<rparr>
      else pd)"

definition new_client :: "int \<Rightarrow> ldcs_client_t \<Rightarrow> ldcs_client_t" where
  "new_client conn c = c\<lparr>connid := conn, client_state := LDCS_CLIENT_STATUS_ACTIVE, query_open := False,
     existance_query := False, is_stat := False, is_loader := False, is_lstat := False, is_dso := False, numa_node := 0,
     query_localpath := None, query_is_numa_replicated := False, tls_info := None, crash_exe := None, crash_corepath := None\<rparr>"

definition accept_client :: "int \<Rightarrow> int handler" where
  "accept_client conn pd =
     (let pd = grow_client_table pd;
          nc = length (takeWhile (\<lambda>c. client_state c \<noteq> LDCS_CLIENT_STATUS_FREE) (client_table pd))
      in if nc = length (client_table pd) then None
         else handle_client_start ((set_client nc (new_client conn) pd)\<lparr>
                client_table_used := client_table_used pd + 1, client_counter := client_counter pd + 1,
                clients_live := clients_live pd + 1\<rparr>))"

primrec server_CB :: "int list \<Rightarrow> int handler" where
  "server_CB [] pd = Some (0, pd)"
| "server_CB (conn # conns) pd = do {
     (_, pd) \<leftarrow> accept_client conn pd;
     server_CB conns pd
   }"

end
