(* ===== verification/Handlers_Net.thy ===== *)
theory Handlers_Net
  imports Handlers_Client Handlers_Tls Exit_Protocol
begin

text \<open>
  Messages from other servers (\<open>ldcs_audit_server_handlers.c\<close>): requests, results,
  preloading, the order to load a file oneself, and the two dispatchers.
\<close>

section \<open>Requests\<close>

definition add_file_request :: "bool \<Rightarrow> string \<Rightarrow> node_peer_t \<Rightarrow> ldcs_process_data_t \<Rightarrow> ldcs_process_data_t" where
  "add_file_request dso key peer pd =
     (if dso then pd\<lparr>dso_requests := add_requestor (dso_requests pd) key peer\<rparr>
      else pd\<lparr>file_requests := add_requestor (file_requests pd) key peer\<rparr>)"

definition handle_request_directory :: "env_t \<Rightarrow> node_peer_t \<Rightarrow> string \<Rightarrow> int handler" where
  "handle_request_directory env from pathname pd =
     (case handle_howto_directory pd pathname of
        READ_DIRECTORY \<Rightarrow> handle_read_and_broadcast_dir env pathname (add_file_request False pathname from pd)
      | REQ_DIRECTORY \<Rightarrow> do {
          (res, pd) \<leftarrow> handle_send_query pathname True False pd;
          Some (res, add_file_request False pathname from pd)
        }
      | NO_FILE \<Rightarrow> handle_broadcast_dir pathname request_broadcast (add_file_request False pathname from pd)
      | FOUND_FILE \<Rightarrow> handle_broadcast_dir pathname request_broadcast (add_file_request False pathname from pd)
      | _ \<Rightarrow> None)"

definition request_upwards :: "node_peer_t \<Rightarrow> bool \<Rightarrow> string \<Rightarrow> int \<Rightarrow> int handler" where
  "request_upwards from dso pathname dir_result pd = do {
     (result, pd) \<leftarrow> handle_send_query pathname False dso pd;
     Some (if result = -1 \<or> dir_result = -1 then -1 else 0, add_file_request dso pathname from pd)
   }"

partial_function (option) handle_request_file ::
  "env_t \<Rightarrow> node_peer_t \<Rightarrow> bool \<Rightarrow> string \<Rightarrow> ldcs_process_data_t \<Rightarrow> (int \<times> ldcs_process_data_t) option" where
  "handle_request_file env from dso pathname pd =
     (let (filename, dirname) = parseFilenameNoAlloc pathname MAX_PATH_LEN;
          how = handle_howto_file pd pathname filename dirname dso;
          dso = howto_is_dso how
      in case howto_result how of
           FOUND_FILE \<Rightarrow>
             (case ldcs_cache_get_buffer (cache pd) dirname filename
                     (if dso then LDCS_CACHE_FILEOBJ_DSO else LDCS_CACHE_FILEOBJ_FILE) of
                None \<Rightarrow> Some (-1, pd)
              | Some (None, _, _) \<Rightarrow> None
              | Some (Some buffer, sz, _) \<Rightarrow>
                  handle_broadcast_file pathname buffer sz dso request_broadcast (add_file_request dso pathname from pd))
         | FOUND_ERRCODE \<Rightarrow> handle_broadcast_errorcode pathname (howto_errcode how) (add_file_request dso pathname from pd)
         | NO_FILE \<Rightarrow> handle_create_selfload_file pathname pd
         | NO_DIR \<Rightarrow> handle_create_selfload_file pathname pd
         | ORIG_FILE \<Rightarrow> handle_create_selfload_file pathname pd
         | READ_DIRECTORY \<Rightarrow> do {
             (result, pd) \<leftarrow> handle_read_and_broadcast_dir env dirname pd;
             if result = -1 then Some (-1, pd) else handle_request_file env from dso pathname pd
           }
         | READ_FILE \<Rightarrow> handle_read_and_broadcast_file env pathname dso request_broadcast (add_file_request dso pathname from pd)
         | REQ_DIRECTORY \<Rightarrow> do {
             (dir_result, pd) \<leftarrow> handle_send_query dirname True False pd;
             request_upwards from dso pathname dir_result (add_file_request False dirname from pd)
           }
         | REQ_FILE \<Rightarrow> request_upwards from dso pathname 0 pd
         | ALIAS_TO \<Rightarrow>
             (case howto_alias how of
                None \<Rightarrow> None
              | Some alias_to \<Rightarrow> handle_broadcast_alias pathname alias_to (add_file_request dso pathname from pd)))"

declare handle_request_file.simps [code]

definition handle_request :: "env_t \<Rightarrow> node_peer_t \<Rightarrow> ldcs_message_t \<Rightarrow> int handler" where
  "handle_request env from msg pd =
     (case msg_data msg of
        [] \<Rightarrow> None
      | kind # rest \<Rightarrow>
          let pathname = c_str rest
          in if kind \<noteq> CHR ''D'' \<and> kind \<noteq> CHR ''F'' \<and> kind \<noteq> CHR ''S'' then Some (-1, pd)
             else if kind = CHR ''D'' then handle_request_directory env from pathname pd
             else handle_request_file env from (kind = CHR ''S'') pathname pd)"

section \<open>Results\<close>

definition handle_file_errcode :: "env_t \<Rightarrow> ldcs_message_t \<Rightarrow> int handler" where
  "handle_file_errcode env msg pd = do {
     (errcode, pathname) \<leftarrow> decode_errcode (msg_data msg);
     let (filename, dirname) = parseFilenameNoAlloc pathname MAX_PATH_LEN;
     let pd = pd\<lparr>cache := snd (ldcs_cache_updateErrcode (cache pd) filename dirname errcode)\<rparr>;
     (result, pd) \<leftarrow> handle_broadcast_errorcode pathname errcode pd;
     if result = -1 then Some (-1, pd) else handle_progress env pd
   }"

text \<open>A file packet that arrives alone is read from the connection piece by piece
  (\<open>msg->data\<close> is NULL); one that arrives in a bundle is in memory. In both cases the contents
  of a file that is already there are skipped on the connection.\<close>

definition handle_file_recv :: "env_t \<Rightarrow> ldcs_message_t \<Rightarrow> node_peer_t \<Rightarrow> broadcast_t \<Rightarrow> int handler" where
  "handle_file_recv env msg peer bcast pd = do {
     fp \<leftarrow> filemngt_decode_packet (msg_data msg);
     let pathname = fp_filename fp;
     let sz = fp_filesize fp;
     let is_stripped = fp_stripped fp;
     (su, pd) \<leftarrow> handle_setup_file_buffer env pathname sz (if fp_is_elf fp then is_elf_yes else is_elf_no) is_stripped pd;
     if \<not> got_buffer su then
       Some (if already_loaded su then 0 else -1,
             if handling_bundle pd \<and> sz \<noteq> 0 then pd\<lparr>stray_reads := stray_reads pd @ [(peer, sz)]\<rparr> else pd)
     else if length (msg_data msg) < fp_bytes_read fp + sz then None
     else do {
       let mem = take sz (drop (fp_bytes_read fp) (msg_data msg));
       let pd = fill_buffer pathname is_stripped mem pd;
       ((result, buffer, _), pd) \<leftarrow> handle_finish_buffer_setup env (setup_localname su) pathname (Some mem) sz sz
                                      (setup_replicate su) 0 is_stripped pd;
       if result = -1 then Some (-1, pd)
       else (case buffer of
           None \<Rightarrow> None
         | Some b \<Rightarrow> do {
             (result1, pd) \<leftarrow> handle_broadcast_file pathname b sz is_stripped bcast pd;
             (result2, pd) \<leftarrow> handle_progress env pd;
             Some (if result1 = -1 \<or> result2 = -1 then -1 else 0, pd)
           })
     }
   }"

definition handle_directory_recv :: "env_t \<Rightarrow> ldcs_message_t \<Rightarrow> broadcast_t \<Rightarrow> int handler" where
  "handle_directory_recv env msg bcast pd = do {
     (dirname, c) \<leftarrow> ldcs_cache_decodeDirContents (cache pd) (msg_data msg);
     (_, pd) \<leftarrow> handle_broadcast_dir (take (MAX_PATH_LEN - 1) dirname) bcast (pd\<lparr>cache := c\<rparr>);
     handle_progress env pd
   }"

definition handle_alias_recv :: "env_t \<Rightarrow> ldcs_message_t \<Rightarrow> int handler" where
  "handle_alias_recv env msg pd = do {
     let (alias_from, alias_to) = decode_alias (msg_data msg);
     let (filename, dirname) = parseFilenameNoAlloc alias_from MAX_PATH_LEN;
     let pd = pd\<lparr>cache := snd (ldcs_cache_updateAlias (cache pd) filename dirname alias_to)\<rparr>;
     (result, pd) \<leftarrow> handle_broadcast_alias alias_from alias_to pd;
     if result = -1 then Some (-1, pd) else handle_progress env pd
   }"

definition handle_metadata_recv :: "env_t \<Rightarrow> ldcs_message_t \<Rightarrow> metadata_t \<Rightarrow> int handler" where
  "handle_metadata_recv env msg mdtype pd = do {
     let for_stat = (mdtype = metadata_stat \<or> mdtype = metadata_lstat);
     (file_exists, pathname, mount, payload) \<leftarrow> decode_metadata for_stat (msg_data msg);
     let payload = (case mount of
            None \<Rightarrow> payload
          | Some m \<Rightarrow> (case env_mount_to_dev env m of None \<Rightarrow> payload | Some dev \<Rightarrow> put_u64 dev @ drop 8 payload));
     ((result, _), pd) \<leftarrow> (if for_stat then handle_cache_metadata env pathname file_exists mdtype payload pd
                           else handle_cache_ldso env pathname file_exists payload pd);
     if result = -1 then Some (-1, pd)
     else do {
       (result, pd) \<leftarrow> handle_broadcast_metadata env pathname file_exists payload mdtype pd;
       if result = -1 then Some (-1, pd) else handle_progress env pd
     }
   }"

section \<open>Preloading\<close>

definition handle_preload_done :: "env_t \<Rightarrow> int handler" where
  "handle_preload_done env pd = do {
     (result, pd) \<leftarrow> net_send (\<lambda>b. spindle_broadcast b (mk_msg LDCS_MSG_PRELOAD_DONE [])) (pd\<lparr>preload_done := True\<rparr>);
     if result = -1 then Some (-1, pd) else handle_progress env pd
   }"

fun preload_dirs :: "env_t \<Rightarrow> nat \<Rightarrow> byte list \<Rightarrow> int \<Rightarrow> (int \<times> byte list) handler" where
  "preload_dirs env 0 bs global_result pd = Some ((global_result, bs), pd)"
| "preload_dirs env (Suc n) bs global_result pd =
     (if bs = [] then None
      else
        let pathname = c_str bs; bs = drop (length pathname + 1) bs
        in if \<not> ldcs_audit_server_md_is_responsible pd pathname then preload_dirs env n bs global_result pd
           else do {
             (result, pd) \<leftarrow> handle_read_directory env pathname pd;
             if result = -1 then preload_dirs env n bs (-1) pd
             else do {
               (result, pd) \<leftarrow> handle_broadcast_dir pathname preload_broadcast pd;
               preload_dirs env n bs (if result = -1 then -1 else global_result) pd
             }
           })"

fun preload_files :: "env_t \<Rightarrow> nat \<Rightarrow> byte list \<Rightarrow> int \<Rightarrow> int handler" where
  "preload_files env 0 bs global_result pd = Some (global_result, pd)"
| "preload_files env (Suc n) bs global_result pd =
     (if bs = [] then None
      else
        let pathname = c_str bs; bs = drop (length pathname + 1) bs
        in if \<not> ldcs_audit_server_md_is_responsible pd pathname then preload_files env n bs global_result pd
           else do {
             (result, pd) \<leftarrow> handle_read_and_broadcast_file env pathname True preload_broadcast pd;
             preload_files env n bs (if result = -1 then -1 else global_result) pd
           })"

definition handle_preload_filelist :: "env_t \<Rightarrow> ldcs_message_t \<Rightarrow> int handler" where
  "handle_preload_filelist env msg pd =
     (let bs = msg_data msg; num_dirs = get_i32 bs; num_files = get_i32 (drop 4 bs)
      in if length bs < 8 then None
         else do {
           ((global_result, rest), pd) \<leftarrow> preload_dirs env (nat num_dirs) (drop 8 bs) 0 pd;
           (global_result, pd) \<leftarrow> preload_files env (nat num_files) rest global_result pd;
           (result, pd) \<leftarrow> handle_preload_done env pd;
           Some (if result = -1 then -1 else global_result, pd)
         })"

section \<open>Files to be loaded by the servers themselves\<close>

primrec selfload_loop :: "env_t \<Rightarrow> string \<Rightarrow> nat list \<Rightarrow> int \<Rightarrow> bool \<Rightarrow> (int \<times> bool) handler" where
  "selfload_loop env filename [] global_result found_client pd = Some ((global_result, found_client), pd)"
| "selfload_loop env filename (nc # ncs) global_result found_client pd =
     (let client = the_client pd nc
      in if client_state client = LDCS_CLIENT_STATUS_FREE \<or> client_state client = LDCS_CLIENT_STATUS_ACTIVE_PSEUDO
            \<or> \<not> query_open client \<or> filename \<noteq> query_globalpath client
         then selfload_loop env filename ncs global_result found_client pd
         else do {
           (result, pd) \<leftarrow> handle_read_and_broadcast_file env filename (is_dso client) suppress_broadcast pd;
           selfload_loop env filename ncs (if result = -1 then -1 else global_result) True pd
         })"

definition handle_recv_selfload_file :: "env_t \<Rightarrow> ldcs_message_t \<Rightarrow> int handler" where
  "handle_recv_selfload_file env msg pd =
     (let filename = c_str (msg_data msg)
      in do {
        (result, pd) \<leftarrow> handle_send_msg_to_keys msg filename [] True False metadata_none pd;
        ((global_result, found_client), pd) \<leftarrow>
           selfload_loop env filename [0..<client_table_used pd] (if result = -1 then -1 else 0) False pd;
        if found_client then do {
          (result, pd) \<leftarrow> handle_progress env pd;
          Some (if result = -1 then -1 else global_result, pd)
        }
        else Some (global_result, pd)
      })"

section \<open>Dispatchers\<close>

definition handle_client_message ::
  "env_t \<Rightarrow> nat \<Rightarrow> ldcs_message_t \<Rightarrow> int handler" where
  "handle_client_message env nc msg pd =
     (let ty = msg_type (msg_header msg)
      in if ty \<in> {LDCS_MSG_CWD, LDCS_MSG_PID, LDCS_MSG_COMMPATH, LDCS_MSG_CPU} then handle_client_info_msg env nc msg pd
         else if ty = LDCS_MSG_PYTHONPREFIX_REQ then handle_pythonprefix_query nc pd
         else if ty = LDCS_MSG_MYRANKINFO_QUERY then handle_client_myrankinfo_msg nc pd
         else if ty = LDCS_MSG_DIRLISTS_REQ then handle_client_dirlists_req nc pd
         else if ty \<in> {LDCS_MSG_FILE_QUERY, LDCS_MSG_FILE_QUERY_EXACT_PATH, LDCS_MSG_DSO_QUERY,
                      LDCS_MSG_DSO_QUERY_EXACT_PATH, LDCS_MSG_STAT_QUERY, LDCS_MSG_LSTAT_QUERY, LDCS_MSG_LOADER_DATA_REQ}
         then handle_client_file_request env nc msg pd
         else if ty = LDCS_MSG_EXISTS_QUERY then handle_client_fileexist_msg env nc msg pd
         else if ty = LDCS_MSG_ORIGPATH_QUERY then handle_client_origpath_msg nc msg pd
         else if ty = LDCS_MSG_PROCMAPS_REQ then handle_client_procmaps_msg env nc msg pd
         else if ty = LDCS_MSG_PICKONE_REQ then handle_client_pickone_msg nc msg pd
         else if ty \<in> {LDCS_MSG_CRASH_EXE, LDCS_MSG_CRASH_COREPATH} then handle_client_crash_string nc msg pd
         else if ty = LDCS_MSG_CRASH_REPORT then handle_client_crash_report env nc msg pd
         else if ty = LDCS_MSG_END then handle_client_end nc pd
         else if ty = LDCS_MSG_CHOSEN_CACHEPATH_REQUEST then handle_chosen_cachepath_request nc pd
         else if ty = LDCS_MSG_CLIENT_STATICTLS then handle_client_static_tls_req env nc msg pd
         else None)"

primrec bundle_loop :: "(ldcs_message_t \<Rightarrow> int handler) \<Rightarrow> ldcs_message_t list \<Rightarrow> int \<Rightarrow> int handler" where
  "bundle_loop handle [] had_error pd = Some (had_error, pd)"
| "bundle_loop handle (m # ms) had_error pd = do {
     (result, pd) \<leftarrow> handle m pd;
     bundle_loop handle ms (if result = -1 then -1 else had_error) pd
   }"

definition handle_msgbundle :: "(ldcs_message_t \<Rightarrow> int handler) \<Rightarrow> ldcs_message_t \<Rightarrow> int handler" where
  "handle_msgbundle handle msg pd = do {
     (had_error, pd) \<leftarrow> bundle_loop handle (unpack_bundle (msg_data msg)) 0 (pd\<lparr>handling_bundle := True\<rparr>);
     Some (had_error, pd\<lparr>handling_bundle := False\<rparr>)
   }"

definition handle_single_message ::
  "env_t \<Rightarrow> node_peer_t \<Rightarrow> ldcs_message_t \<Rightarrow> int handler" where
  "handle_single_message env peer msg pd =
     (let ty = msg_type (msg_header msg)
      in if ty = LDCS_MSG_CACHE_ENTRIES then handle_directory_recv env msg request_broadcast pd
         else if ty = LDCS_MSG_FILE_DATA then handle_file_recv env msg peer request_broadcast pd
         else if ty = LDCS_MSG_FILE_ERRCODE then handle_file_errcode env msg pd
         else if ty = LDCS_MSG_FILE_REQUEST then handle_request env peer msg pd
         else if ty = LDCS_MSG_EXIT then handle_exit_broadcast pd
         else if ty = LDCS_MSG_PRELOAD_FILELIST then handle_preload_filelist env msg pd
         else if ty = LDCS_MSG_PRELOAD_DIR then handle_directory_recv env msg preload_broadcast pd
         else if ty = LDCS_MSG_PRELOAD_FILE then handle_file_recv env msg peer preload_broadcast pd
         else if ty = LDCS_MSG_PRELOAD_DONE then handle_preload_done env pd
         else if ty = LDCS_MSG_SELFLOAD_FILE then handle_recv_selfload_file env msg pd
         else if ty = LDCS_MSG_STAT_NET_RESULT then handle_metadata_recv env msg metadata_stat pd
         else if ty = LDCS_MSG_LSTAT_NET_RESULT then handle_metadata_recv env msg metadata_lstat pd
         else if ty = LDCS_MSG_STAT_NET_REQUEST then handle_metadata_request_recv env msg metadata_stat peer pd
         else if ty = LDCS_MSG_LSTAT_NET_REQUEST then handle_metadata_request_recv env msg metadata_lstat peer pd
         else if ty = LDCS_MSG_LOADER_DATA_NET_RESP then handle_metadata_recv env msg metadata_loader pd
         else if ty = LDCS_MSG_LOADER_DATA_NET_REQ then handle_metadata_request_recv env msg metadata_loader peer pd
         else if ty = LDCS_MSG_EXIT_READY then handle_exit_ready_msg pd
         else if ty = LDCS_MSG_EXIT_CANCEL then handle_exit_cancel_msg pd
         else if ty = LDCS_MSG_ALIAS then handle_alias_recv env msg pd
         else if ty = LDCS_MSG_ALIVE_REQ \<or> ty = LDCS_MSG_ALIVE_RESP then handle_alive_msg msg pd
         else if ty = LDCS_MSG_CRASH_REPORT then handle_crash_report_recv peer msg pd
         else if ty = LDCS_MSG_CRASH_RESPONSE then handle_crash_response_recv peer msg pd
         else if ty = LDCS_MSG_STATICTLS_RESP then handle_static_tls_resp msg pd
         else if ty = LDCS_MSG_STATICTLS then handle_static_tls_req env msg peer pd
         else if ty = LDCS_MSG_CRASH_LOG then handle_crash_log_recv peer msg pd
         else None)"

text \<open>The first argument bounds the nesting of bundles within bundles. Senders do not nest them
  (\<^const>\<open>msg_ok\<close>), so that 1 is enough.\<close>

primrec handle_server_message ::
  "nat \<Rightarrow> env_t \<Rightarrow> node_peer_t \<Rightarrow> ldcs_message_t \<Rightarrow> int handler" where
  "handle_server_message 0 env peer msg =
     (if msg_type (msg_header msg) = LDCS_MSG_BUNDLE then (\<lambda>_. None) else handle_single_message env peer msg)"
| "handle_server_message (Suc depth) env peer msg =
     (if msg_type (msg_header msg) = LDCS_MSG_BUNDLE
      then handle_msgbundle (handle_server_message depth env peer) msg
      else handle_single_message env peer msg)"

end
