(* ===== verification/Handler_Frame.thy ===== *)
theory Handler_Frame
  imports Handlers_Net
begin

text \<open>
  What the handlers keep: the invariant of the server state, and the fields that the handlers
  for files, directories and metadata leave alone. Each handler has one lemma; the composite
  handlers follow by chaining.
\<close>

named_theorems frame_dest "what a handler keeps, from its result"

section \<open>The invariant\<close>

text \<open>The tables are well formed; no table of completed requests names all peers as long as
  nothing has been broadcast, so that the test of \<open>have_done_broadcast\<close> before the lookup loses
  nothing; \<^const>\<open>NODE_PEER_ALL\<close> never waits for anything; \<open>clients_live\<close> counts the connected
  clients, which lie in the part of the table that the loops visit; only a client with an open
  query is asking whether a file exists.\<close>

definition tables_ok :: "ldcs_process_data_t \<Rightarrow> bool" where
  "tables_ok pd \<longleftrightarrow> table_ok (dso_requests pd) \<and> table_ok (file_requests pd)
     \<and> table_ok (completed_dso_requests pd) \<and> table_ok (completed_file_requests pd)
     \<and> (\<forall>m. table_ok (pending_md pd m) \<and> table_ok (completed_md pd m))
     \<and> table_ok (pending_tls_requests pd) \<and> table_ok (completed_tls_requests pd)"

definition not_waiting :: "requestor_list_t \<Rightarrow> bool" where
  "not_waiting t \<longleftrightarrow> (\<forall>key. \<not> peer_requested t key NODE_PEER_ALL)"

definition requests_ok :: "ldcs_process_data_t \<Rightarrow> bool" where
  "requests_ok pd \<longleftrightarrow> not_waiting (dso_requests pd) \<and> not_waiting (file_requests pd) \<and> (\<forall>m. not_waiting (pending_md pd m))
     \<and> not_waiting (pending_tls_requests pd)"

definition flag_ok :: "ldcs_process_data_t \<Rightarrow> bool" where
  "flag_ok pd \<longleftrightarrow> have_done_broadcast pd \<or>
     (not_waiting (completed_dso_requests pd) \<and> not_waiting (completed_file_requests pd) \<and> (\<forall>m. not_waiting (completed_md pd m)))"

definition client_ok :: "ldcs_client_t \<Rightarrow> bool" where
  "client_ok c \<longleftrightarrow> (client_state c \<noteq> LDCS_CLIENT_STATUS_FREE \<longrightarrow> existance_query c \<longrightarrow> query_open c)"

definition clients_ok :: "ldcs_process_data_t \<Rightarrow> bool" where
  "clients_ok pd \<longleftrightarrow> (\<forall>c \<in> set (client_table pd). client_ok c) \<and>
     clients_live pd = length (filter (\<lambda>c. client_state c = LDCS_CLIENT_STATUS_ACTIVE) (client_table pd)) \<and>
     client_table_used pd \<le> length (client_table pd) \<and>
     (\<forall>c \<in> set (drop (client_table_used pd) (client_table pd)). client_state c = LDCS_CLIENT_STATUS_FREE)"

definition server_ok :: "ldcs_process_data_t \<Rightarrow> bool" where
  "server_ok pd \<longleftrightarrow> tables_ok pd \<and> requests_ok pd \<and> flag_ok pd \<and> clients_ok pd"

lemma server_ok_irrelevant [simp]:
  "server_ok (pd\<lparr>msgbundle := b\<rparr>) = server_ok pd" "server_ok (pd\<lparr>cache := c\<rparr>) = server_ok pd"
  "server_ok (pd\<lparr>stat_cache := sc\<rparr>) = server_ok pd" "server_ok (pd\<lparr>filemngt := fm\<rparr>) = server_ok pd"
  "server_ok (pd\<lparr>global_names := g\<rparr>) = server_ok pd" "server_ok (pd\<lparr>local_files := lf\<rparr>) = server_ok pd"
  "server_ok (pd\<lparr>client_out := co\<rparr>) = server_ok pd" "server_ok (pd\<lparr>fe_out := fo\<rparr>) = server_ok pd"
  "server_ok (pd\<lparr>exit_marked := em\<rparr>) = server_ok pd" "server_ok (pd\<lparr>stray_reads := sr\<rparr>) = server_ok pd"
  "server_ok (pd\<lparr>preload_done := pr\<rparr>) = server_ok pd" "server_ok (pd\<lparr>handling_bundle := hb\<rparr>) = server_ok pd"
  "server_ok (pd\<lparr>sent_exit_ready := se\<rparr>) = server_ok pd" "server_ok (pd\<lparr>exit_readys_recvd := er\<rparr>) = server_ok pd"
  "server_ok (pd\<lparr>num_alives := na\<rparr>) = server_ok pd" "server_ok (pd\<lparr>pickone_cache := pc\<rparr>) = server_ok pd"
  "server_ok (pd\<lparr>crash_sites := cs\<rparr>) = server_ok pd" "server_ok (pd\<lparr>tls_tables := tt\<rparr>) = server_ok pd"
  "server_ok (pd\<lparr>client_counter := cc\<rparr>) = server_ok pd" "server_ok (pd\<lparr>exit_note_done := en\<rparr>) = server_ok pd"
  "server_ok (pd\<lparr>exit_on_client_close := ec\<rparr>) = server_ok pd" "server_ok (pd\<lparr>num_exited_parents := np\<rparr>) = server_ok pd"
  "server_ok (pd\<lparr>num_exited_children_peers := np\<rparr>) = server_ok pd"
  by (simp_all add: server_ok_def tables_ok_def requests_ok_def flag_ok_def clients_ok_def)

section \<open>Tables\<close>

lemma peer_requested_new: "table_ok t \<Longrightarrow>
    peer_requested (add_requestor t k p) key q \<longleftrightarrow> peer_requested t key q \<or> (key = k \<and> q = p)"
  by (auto simp: peer_requested_iff reqs.ok_add reqs.lookup_add add_peer_def split: option.splits if_splits)

lemma peer_requested_clear: "table_ok t \<Longrightarrow>
    peer_requested (clear_requestor t k) key q \<longleftrightarrow> peer_requested t key q \<and> key \<noteq> k"
  by (auto simp: peer_requested_iff reqs.ok_clear reqs.lookup_clear split: option.splits if_splits)

lemma not_waiting_add: "table_ok t \<Longrightarrow> not_waiting t \<Longrightarrow> p \<noteq> NODE_PEER_ALL \<Longrightarrow> not_waiting (add_requestor t k p)"
  by (auto simp: not_waiting_def peer_requested_new)

lemma not_waiting_clear: "table_ok t \<Longrightarrow> not_waiting t \<Longrightarrow> not_waiting (clear_requestor t k)"
  by (auto simp: not_waiting_def peer_requested_clear)

section \<open>What the handlers of files and metadata keep\<close>

text \<open>The clients, the messages to them, the configuration and the state of the exit
  protocol.\<close>

definition view :: "ldcs_process_data_t \<Rightarrow> _" where
  "view pd = ((client_table pd, client_table_used pd, client_out pd, fe_out pd), (md_rank pd, md_parent pd, opts pd, dist_model pd, local_prefixes pd),
     (preload_done pd, handling_bundle pd, pickone_cache pd), (clients_live pd, sent_exit_ready pd, exit_readys_recvd pd, exit_marked pd),
     (crash_sites pd, tls_tables pd, pending_tls_requests pd, completed_tls_requests pd))"

definition keeps :: "ldcs_process_data_t \<Rightarrow> ldcs_process_data_t \<Rightarrow> bool" where
  "keeps pd pd' \<longleftrightarrow> view pd' = view pd \<and> (server_ok pd \<longrightarrow> server_ok pd')"

lemma keeps_refl [simp]: "keeps pd pd"
  by (simp add: keeps_def)

lemma keeps_trans [trans]: "keeps a b \<Longrightarrow> keeps b c \<Longrightarrow> keeps a c"
  by (simp add: keeps_def)

text \<open>Every result of a handler satisfies \<open>P\<close>: rules that follow the shape of the handler.\<close>

definition post :: "('r \<times> 's) option \<Rightarrow> ('r \<Rightarrow> 's \<Rightarrow> bool) \<Rightarrow> bool" where
  "post x P \<longleftrightarrow> (\<forall>r s. x = Some (r, s) \<longrightarrow> P r s)"

lemma post_simps [simp]: "post None P" "post (Some (r, s)) P = P r s"
  by (simp_all add: post_def)

lemma postD: "post x P \<Longrightarrow> x = Some (r, s) \<Longrightarrow> P r s"
  by (simp add: post_def)

lemma postI: "(\<And>r s. x = Some (r, s) \<Longrightarrow> P r s) \<Longrightarrow> post x P"
  by (simp add: post_def)

lemma post_bind: "(\<And>x. m = Some x \<Longrightarrow> post (f x) P) \<Longrightarrow> post (Option.bind m f) P"
  by (cases m) auto

lemma post_call: "post m Q \<Longrightarrow> (\<And>r s. Q r s \<Longrightarrow> post (f (r, s)) P) \<Longrightarrow> post (Option.bind m f) P"
  by (cases m) (auto simp: post_def)

lemma post_if: "(c \<Longrightarrow> post a P) \<Longrightarrow> (\<not> c \<Longrightarrow> post b P) \<Longrightarrow> post (if c then a else b) P"
  by simp

lemma view_irrelevant [simp]:
  "view (pd\<lparr>msgbundle := b\<rparr>) = view pd" "view (pd\<lparr>cache := c\<rparr>) = view pd"
  "view (pd\<lparr>stat_cache := sc\<rparr>) = view pd" "view (pd\<lparr>filemngt := fm\<rparr>) = view pd"
  "view (pd\<lparr>global_names := g\<rparr>) = view pd" "view (pd\<lparr>local_files := lf\<rparr>) = view pd"
  "view (pd\<lparr>stray_reads := sr\<rparr>) = view pd" "view (pd\<lparr>have_done_broadcast := hdb\<rparr>) = view pd"
  "view (pd\<lparr>dso_requests := t\<rparr>) = view pd" "view (pd\<lparr>file_requests := t\<rparr>) = view pd"
  "view (pd\<lparr>completed_dso_requests := t\<rparr>) = view pd" "view (pd\<lparr>completed_file_requests := t\<rparr>) = view pd"
  "view (pd\<lparr>pending_md := pm\<rparr>) = view pd" "view (pd\<lparr>completed_md := pm\<rparr>) = view pd"
  by (simp_all add: view_def)

lemma view_tables [simp]:
  "view (add_completed dso k p pd) = view pd" "view (clear_requests dso k pd) = view pd"
  "view (add_completed_md m k p pd) = view pd" "view (add_pending_md m k p pd) = view pd"
  "view (add_file_request dso k p pd) = view pd"
  by (simp_all add: add_completed_def clear_requests_def add_completed_md_def add_pending_md_def add_file_request_def)

lemmas server_ok_unfold = server_ok_def tables_ok_def requests_ok_def flag_ok_def clients_ok_def

lemma server_ok_tables:
  assumes "server_ok pd"
  shows "p \<noteq> NODE_PEER_ALL \<or> have_done_broadcast pd \<Longrightarrow> server_ok (add_completed dso k p pd)"
    and "server_ok (clear_requests dso k pd)"
    and "p \<noteq> NODE_PEER_ALL \<or> have_done_broadcast pd \<Longrightarrow> server_ok (add_completed_md m k p pd)"
    and "p \<noteq> NODE_PEER_ALL \<Longrightarrow> server_ok (add_pending_md m k p pd)"
    and "p \<noteq> NODE_PEER_ALL \<Longrightarrow> server_ok (add_file_request dso k p pd)"
    and "server_ok (pd\<lparr>pending_md := (pending_md pd)(m := clear_requestor (pending_md pd m) k)\<rparr>)"
    and "server_ok (pd\<lparr>have_done_broadcast := True\<rparr>)"
  using assms
  by (auto simp: server_ok_unfold add_completed_def clear_requests_def add_completed_md_def add_pending_md_def
      add_file_request_def reqs.ok_add reqs.ok_clear not_waiting_add not_waiting_clear)

lemma net_send_iff: "net_send f pd = Some (r, pd') \<longleftrightarrow> r = 0 \<and> (\<exists>b. f (msgbundle pd) = Some b \<and> pd' = pd\<lparr>msgbundle := b\<rparr>)"
  by (auto simp: net_send_def split: option.splits)

lemma net_send_keeps [frame_dest]: "net_send f pd = Some (r, pd') \<Longrightarrow> keeps pd pd'"
  by (auto simp: net_send_iff keeps_def)

lemma send_metadata_loop_keeps:
  "send_metadata_loop msg key m nodes g pd = Some (r, pd') \<Longrightarrow>
   view pd' = view pd \<and> (NODE_PEER_ALL \<notin> set nodes \<longrightarrow> server_ok pd \<longrightarrow> server_ok pd')"
proof (induction nodes arbitrary: g pd)
  case (Cons n nodes)
  show ?case
  proof (cases "n = NODE_PEER_CLIENT \<or> n = NODE_PEER_NULL \<or> peer_requested (completed_md pd m) key n")
    case True
    then show ?thesis using Cons.IH [of g pd] Cons.prems by (auto split: if_splits)
  next
    case False
    then obtain pd1 where s: "net_send (\<lambda>b. spindle_send_noncontig b msg n []) pd = Some (0, pd1)"
      and l: "send_metadata_loop msg key m nodes g (add_completed_md m key n pd1) = Some (r, pd')"
      using Cons.prems by (auto simp: bind_eq_Some_conv net_send_iff)
    from net_send_keeps [OF s] Cons.IH [OF l] show ?thesis by (auto simp: keeps_def server_ok_tables)
  qed
qed simp

lemma send_msg_loop_keeps:
  "send_msg_loop msg key sec dso nodes g pd = Some (r, pd') \<Longrightarrow>
   view pd' = view pd \<and> (NODE_PEER_ALL \<notin> set nodes \<longrightarrow> server_ok pd \<longrightarrow> server_ok pd')"
proof (induction nodes arbitrary: g pd)
  case (Cons n nodes)
  show ?case
  proof (cases "n = NODE_PEER_CLIENT \<or> n = NODE_PEER_NULL \<or> been_broadcast pd key dso")
    case True
    then show ?thesis using Cons.IH [of g pd] Cons.prems by (auto split: if_splits)
  next
    case False
    then obtain pd1 where s: "net_send (\<lambda>b. spindle_send_noncontig b msg n sec) pd = Some (0, pd1)"
      and l: "send_msg_loop msg key sec dso nodes g (add_completed dso key n pd1) = Some (r, pd')"
      using Cons.prems by (auto simp: bind_eq_Some_conv net_send_iff)
    from net_send_keeps [OF s] Cons.IH [OF l] show ?thesis by (auto simp: keeps_def server_ok_tables)
  qed
qed simp

lemma not_waiting_requestors:
  "not_waiting t \<Longrightarrow> get_requestors t key = Some nodes \<Longrightarrow> NODE_PEER_ALL \<notin> set nodes"
  by (auto simp: not_waiting_def peer_requested_iff split: option.splits)

lemma not_waiting_requestors2:
  "not_waiting t \<Longrightarrow> not_waiting t2 \<Longrightarrow> get_requestors2 t t2 key = Some nodes \<Longrightarrow> NODE_PEER_ALL \<notin> set nodes"
  using not_waiting_requestors [of t key] not_waiting_requestors [of t2 key]
  by (auto simp: get_requestors2_def Let_def split: option.splits)

lemma handle_send_metadata_to_keys_keeps [frame_dest]:
  assumes "handle_send_metadata_to_keys msg key force m pd = Some (r, pd')"
  shows "keeps pd pd'"
proof -
  have m: "metadata_pending_requests pd m = Some (pending_md pd m)" "metadata_completed_requests pd m = Some (completed_md pd m)"
    using assms by (auto simp: handle_send_metadata_to_keys_def metadata_pending_requests_def metadata_completed_requests_def)
  note h = assms [unfolded handle_send_metadata_to_keys_def m bind.bind_lunit Let_def]
  show ?thesis
  proof (cases "have_done_broadcast pd \<and> peer_requested (completed_md pd m) key NODE_PEER_ALL")
    case False
    show ?thesis
    proof (cases "dist_model pd = LDCS_PUSH \<or> force")
      case True
      then show ?thesis using h False
        by (auto simp: bind_eq_Some_conv net_send_iff keeps_def intro!: server_ok_tables(3,6,7))
    next
      case pull: False
      then show ?thesis
      proof (cases "get_requestors (pending_md pd m) key")
        case (Some nodes)
        then obtain g pd1 where l: "send_metadata_loop msg key m nodes 0 pd = Some (g, pd1)"
          and pd': "pd' = pd1\<lparr>pending_md := (pending_md pd1)(m := clear_requestor (pending_md pd1 m) key)\<rparr>"
          using h False pull by (auto simp: bind_eq_Some_conv)
        have "server_ok pd \<Longrightarrow> NODE_PEER_ALL \<notin> set nodes"
          using Some not_waiting_requestors by (auto simp: server_ok_def requests_ok_def)
        then show ?thesis using send_metadata_loop_keeps [OF l] unfolding pd'
          by (auto simp: keeps_def intro!: server_ok_tables(6))
      qed (use h False pull in simp)
    qed
  qed (use h in simp)
qed

lemma handle_send_msg_to_keys_keeps [frame_dest]:
  assumes "handle_send_msg_to_keys msg key sec force dso m pd = Some (r, pd')"
  shows "keeps pd pd'"
proof (cases "m = metadata_none")
  case False
  then show ?thesis using assms handle_send_metadata_to_keys_keeps by (simp add: handle_send_msg_to_keys_def)
next
  case True
  note h = assms [unfolded handle_send_msg_to_keys_def Let_def True, simplified]
  show ?thesis
  proof (cases "have_done_broadcast pd \<and> been_broadcast pd key dso")
    case False
    show ?thesis
    proof (cases "dist_model pd = LDCS_PUSH \<or> force")
      case True
      then show ?thesis using h False
        by (auto simp: bind_eq_Some_conv net_send_iff keeps_def intro!: server_ok_tables(1,2,7))
    next
      case pull: False
      let ?nodes = "if \<not> dso then get_requestors2 (dso_requests pd) (file_requests pd) key else get_requestors (dso_requests pd) key"
      show ?thesis
      proof (cases ?nodes)
        case (Some nodes)
        then obtain g pd1 where l: "send_msg_loop msg key sec dso nodes 0 pd = Some (g, pd1)"
          and pd': "pd' = clear_requests dso key pd1"
          using h False pull by (auto simp: bind_eq_Some_conv split: if_splits)
        have "server_ok pd \<Longrightarrow> NODE_PEER_ALL \<notin> set nodes"
          using Some not_waiting_requestors not_waiting_requestors2
          by (auto simp: server_ok_def requests_ok_def split: if_splits)
        then show ?thesis using send_msg_loop_keeps [OF l] unfolding pd'
          by (auto simp: keeps_def intro!: server_ok_tables(2))
      qed (use h False pull in \<open>auto split: if_splits\<close>)
    qed
  qed (use h in simp)
qed

lemma broadcasts_keep [frame_dest]:
  "handle_broadcast_dir d b pd = Some (r, pd') \<Longrightarrow> keeps pd pd'"
  "handle_broadcast_file p buf sz st b pd = Some (r, pd') \<Longrightarrow> keeps pd pd'"
  "handle_broadcast_errorcode p e pd = Some (r, pd') \<Longrightarrow> keeps pd pd'"
  "handle_broadcast_alias p q pd = Some (r, pd') \<Longrightarrow> keeps pd pd'"
  "handle_create_selfload_file p pd = Some (r, pd') \<Longrightarrow> keeps pd pd'"
  "handle_broadcast_metadata env p ex buf m pd = Some (r, pd') \<Longrightarrow> keeps pd pd'"
  by (auto simp: handle_broadcast_dir_def handle_broadcast_file_def handle_broadcast_errorcode_def handle_broadcast_alias_def
      handle_create_selfload_file_def handle_broadcast_metadata_def Let_def bind_eq_Some_conv
      split: option.splits metadata_t.splits dest: handle_send_msg_to_keys_keeps)

lemma queries_keep [frame_dest]:
  "handle_send_query p is_dir dso pd = Some (r, pd') \<Longrightarrow> keeps pd pd'"
  "handle_metadata_request p m from pd = Some (r, pd') \<Longrightarrow> from \<noteq> NODE_PEER_ALL \<Longrightarrow> keeps pd pd'"
  by (auto simp: handle_send_query_def handle_send_directory_query_def handle_send_file_query_def
      handle_metadata_request_def Let_def bind_eq_Some_conv net_send_iff keeps_def server_ok_tables split: if_splits)

lemma handle_read_directory_keeps [frame_dest]:
  "handle_read_directory env d pd = Some (r, pd') \<Longrightarrow> keeps pd pd'"
  by (auto simp: handle_read_directory_def bind_eq_Some_conv keeps_def split: if_splits)

lemma handle_read_and_broadcast_dir_keeps [frame_dest]:
  "handle_read_and_broadcast_dir env d pd = Some (r, pd') \<Longrightarrow> keeps pd pd'"
  by (auto simp: handle_read_and_broadcast_dir_def bind_eq_Some_conv split: if_splits
      dest!: handle_read_directory_keeps broadcasts_keep(1) intro: keeps_trans)

lemma handle_setup_file_buffer_keeps [frame_dest]:
  "handle_setup_file_buffer env p sz e st pd = Some (r, pd') \<Longrightarrow> keeps pd pd'"
proof (rule postD [of _ "\<lambda>r. keeps pd"])
  show "post (handle_setup_file_buffer env p sz e st pd) (\<lambda>r. keeps pd)"
    unfolding handle_setup_file_buffer_def Let_def split_def
    by (intro post_if post_bind) (simp_all add: keeps_def)
qed

lemma fill_buffer_keeps [simp]: "keeps pd (fill_buffer p st mem pd)"
  by (auto simp: fill_buffer_def Let_def keeps_def split: prod.splits)

lemma handle_finish_buffer_setup_keeps [frame_dest]:
  "handle_finish_buffer_setup env l p mem sz nsz rep e ws pd = Some (r, pd') \<Longrightarrow> keeps pd pd'"
  by (auto simp: handle_finish_buffer_setup_def Let_def keeps_def split: if_splits prod.splits option.splits)

lemma handle_setup_alias_keeps [frame_dest]:
  "handle_setup_alias p q pd = Some (r, pd') \<Longrightarrow> keeps pd pd'"
  by (auto simp: handle_setup_alias_def Let_def keeps_def split: if_splits prod.splits)

lemma finish_and_broadcast_keeps [frame_dest]:
  "finish_and_broadcast env l p mem sz nsz rep e ws b pd = Some (r, pd') \<Longrightarrow> keeps pd pd'"
  by (auto simp: finish_and_broadcast_def broadcast_read_def bind_eq_Some_conv split: if_splits option.splits
      dest!: handle_finish_buffer_setup_keeps broadcasts_keep(2,3) intro: keeps_trans)

lemma read_contents_keeps [frame_dest]:
  assumes "read_contents env p dso b pd = Some (r, pd')"
  shows "keeps pd pd'"
proof (cases "env_file_size env p")
  case (Inl e)
  then show ?thesis using assms by (simp add: read_contents_def finish_and_broadcast_keeps)
next
  case (Inr sz)
  let ?strip = "bit (opts pd) OPT_STRIP \<and> dso"
  obtain su pd1 where su: "handle_setup_file_buffer env p sz is_elf_unknown ?strip pd = Some (su, pd1)"
    using assms Inr by (auto simp: read_contents_def Let_def bind_eq_Some_conv)
  have "keeps pd1 pd'"
  proof (cases "got_buffer su")
    case True
    then show ?thesis using assms Inr su
      by (cases "env_read env p ?strip")
        (auto simp: read_contents_def Let_def split: if_splits dest!: finish_and_broadcast_keeps intro: keeps_trans [OF fill_buffer_keeps])
  next
    case False
    then show ?thesis using assms Inr su by (auto simp: read_contents_def Let_def split: if_splits)
  qed
  then show ?thesis using handle_setup_file_buffer_keeps [OF su] keeps_trans by blast
qed

lemma handle_read_and_broadcast_file_keeps [frame_dest]:
  "handle_read_and_broadcast_file env p dso b pd = Some (r, pd') \<Longrightarrow> keeps pd pd'"
  by (auto simp: handle_read_and_broadcast_file_def bind_eq_Some_conv split: if_splits option.splits
      dest!: handle_setup_alias_keeps broadcasts_keep(4) read_contents_keeps intro: keeps_trans)

section \<open>Metadata\<close>

lemma store_metadata_keeps [frame_dest]: "store_metadata p ex m t pd = Some (r, pd') \<Longrightarrow> keeps pd pd'"
  by (auto simp: store_metadata_def bind_eq_Some_conv keeps_def split: if_splits)

lemma handle_cache_metadata_keeps [frame_dest]:
  assumes "handle_cache_metadata env p ex m buf pd = Some (r, pd')"
  shows "keeps pd pd'"
proof -
  obtain l pd1 where s: "store_metadata p ex m (nametype_of m) pd = Some (l, pd1)"
    using assms by (auto simp: handle_cache_metadata_def bind_eq_Some_conv)
  then have "keeps pd1 pd'" using assms
    by (cases l) (auto simp: handle_cache_metadata_def keeps_def split: if_split_asm)
  then show ?thesis using store_metadata_keeps [OF s] keeps_trans by blast
qed

lemma handle_cache_ldso_keeps [frame_dest]:
  assumes "handle_cache_ldso env p ex info pd = Some (r, pd')"
  shows "keeps pd pd'"
proof -
  obtain l pd1 where s: "store_metadata p ex metadata_loader clt_ldso pd = Some (l, pd1)"
    using assms by (auto simp: handle_cache_ldso_def bind_eq_Some_conv)
  then have "keeps pd1 pd'" using assms
    by (cases l) (auto simp: handle_cache_ldso_def keeps_def)
  then show ?thesis using store_metadata_keeps [OF s] keeps_trans by blast
qed

lemma read_metadata_keep [frame_dest]:
  "handle_stat_file env p m pd = Some (r, pd') \<Longrightarrow> keeps pd pd'"
  "handle_read_ldso_metadata env p pd = Some (r, pd') \<Longrightarrow> keeps pd pd'"
proof -
  show "handle_stat_file env p m pd = Some (r, pd') \<Longrightarrow> keeps pd pd'"
    by (cases "lookup_stat_cache (stat_cache pd) p m")
      (auto simp: handle_stat_file_def Let_def bind_eq_Some_conv split: option.split_asm dest: handle_cache_metadata_keeps)
  show "handle_read_ldso_metadata env p pd = Some (r, pd') \<Longrightarrow> keeps pd pd'"
    by (cases "lookup_stat_cache (stat_cache pd) p metadata_loader")
      (auto simp: handle_read_ldso_metadata_def Let_def bind_eq_Some_conv split: option.split_asm dest: handle_cache_ldso_keeps)
qed

lemma handle_metadata_and_broadcast_file_keeps [frame_dest]:
  "handle_metadata_and_broadcast_file env p m b pd = Some (r, pd') \<Longrightarrow> keeps pd pd'"
  by (auto simp: handle_metadata_and_broadcast_file_def bind_eq_Some_conv split: metadata_t.split_asm if_split_asm
      dest!: read_metadata_keep broadcasts_keep(6) intro: keeps_trans)

lemma handle_load_and_broadcast_metadata_keeps [frame_dest]:
  "handle_load_and_broadcast_metadata env p m pd = Some (r, pd') \<Longrightarrow> keeps pd pd'"
  by (cases "lookup_stat_cache (stat_cache pd) p m")
    (auto simp: handle_load_and_broadcast_metadata_def split: option.split_asm dest: broadcasts_keep(6))

lemma add_pending_md_keeps [simp]: "p \<noteq> NODE_PEER_ALL \<Longrightarrow> keeps pd (add_pending_md m k p pd)"
  by (simp add: keeps_def server_ok_tables)

lemma add_file_request_keeps [simp]: "p \<noteq> NODE_PEER_ALL \<Longrightarrow> keeps pd (add_file_request dso k p pd)"
  by (simp add: keeps_def server_ok_tables)

lemma handle_metadata_request_recv_keeps [frame_dest]:
  assumes "handle_metadata_request_recv env msg m peer pd = Some (r, pd')" "peer \<noteq> NODE_PEER_ALL"
  shows "keeps pd pd'"
proof -
  obtain y where y: "handle_howto_metadata pd (c_str (msg_data msg)) m = Some y"
    using assms(1) by (auto simp: handle_metadata_request_recv_def Let_def bind_eq_Some_conv split: if_split_asm)
  show ?thesis using assms
    by (cases y) (auto simp: handle_metadata_request_recv_def Let_def y split: if_split_asm
      dest: queries_keep(2) handle_metadata_and_broadcast_file_keeps handle_load_and_broadcast_metadata_keeps
      intro: keeps_trans [OF add_pending_md_keeps])
qed

end
