(* ===== verification/Server_Process.thy ===== *)
theory Server_Process
  imports Handlers_Net
begin

text \<open>
  A server from its start on (\<open>ldcs_audit_server_process.c\<close>): the state in which it enters the
  server loop, and the events that the loop reacts to.
\<close>

section \<open>Start\<close>

text \<open>What a server is started with: the arguments from the front end, its place in the tree of
  servers, and the cache directory that the servers have agreed on.\<close>

record server_args_t =
  args_commpath :: string
  args_pythonprefix :: string
  args_crash_log :: string
  args_localprefix :: string
  args_local_prefixes :: "string list"
  args_exec_excludes :: string
  args_numa_files :: string
  args_numa_excludes :: string
  args_opts :: "64 word"
  args_bundle_cachesize_kb :: nat
  args_hostname :: string
  args_cachepath :: string
  args_parsed_cachepath :: "string option"
  args_normalized_tmpdir :: string
  args_rank :: nat
  args_size :: nat
  args_parent :: node_peer_t
  args_num_children :: nat

definition OPT_PUSH :: nat where "OPT_PUSH = 5"
definition OPT_PULL :: nat where "OPT_PULL = 6"
definition OPT_MSGBUNDLE :: nat where "OPT_MSGBUNDLE = 23"

definition empty_tls_tables :: tls_tables_t where
  "empty_tls_tables = \<lparr>executable_hash_table = (\<lambda>_. []), library_hash_table = (\<lambda>_. []), cached_audit_client_tls = None\<rparr>"

definition start_state :: "server_args_t \<Rightarrow> ldcs_dist_model_t \<Rightarrow> ldcs_process_data_t" where
  "start_state args model = \<lparr>
     client_table = [], client_table_used = 0, client_counter = 0, clients_live = 0,
     sent_exit_ready = False, exit_readys_recvd = 0, dist_model = model,
     commpath = args_commpath args, chosen_cachepath = args_cachepath args, parsed_cachepath = args_parsed_cachepath args,
     hostname = take 64 (args_hostname args), pythonprefix = args_pythonprefix args, crash_log = args_crash_log args,
     localprefix = args_localprefix args, local_prefixes = args_local_prefixes args, exec_excludes = args_exec_excludes args,
     numa_substrs = args_numa_files args, numa_excludes = args_numa_excludes args,
     handling_bundle = False, preload_done = False, exit_note_done = False, exit_on_client_close = False,
     num_exited_children_peers = 0, num_exited_parents = 0, num_alives = 0, opts = args_opts args,
     dso_requests = new_requestor_list, file_requests = new_requestor_list,
     completed_dso_requests = new_requestor_list, completed_file_requests = new_requestor_list,
     pending_md = (\<lambda>_. new_requestor_list), completed_md = (\<lambda>_. new_requestor_list),
     pending_tls_requests = new_requestor_list, completed_tls_requests = new_requestor_list, crash_sites = [],
     md_rank = args_rank args, md_size = args_size args, md_parent = args_parent args,
     have_done_broadcast = False, cache = Map.empty, stat_cache = init_stat_cache, pickone_cache = {},
     tls_tables = empty_tls_tables,
     filemngt = \<lparr>cachepath = args_cachepath args, normalized_tmpdir = args_normalized_tmpdir args, unique_str_num = 0\<rparr>,
     global_names = init_global_name_list,
     msgbundle = \<lparr>opt_msgbundle = bit (args_opts args) OPT_MSGBUNDLE, msgbundle_cache_size_kb = args_bundle_cachesize_kb args,
       md_num_children = args_num_children args, msgbundle_entries = [], active_timeout = False, wire = []\<rparr>,
     local_files = Map.empty, client_out = [], fe_out = [], exit_marked = False, stray_reads = []\<rparr>"

definition ldcs_audit_server_process :: "server_args_t \<Rightarrow> ldcs_process_data_t option" where
  "ldcs_audit_server_process args =
     (if bit (args_opts args) OPT_MSGBUNDLE \<and> args_bundle_cachesize_kb args = 0 then None
      else if bit (args_opts args) OPT_PULL then Some (start_state args LDCS_PULL)
      else if bit (args_opts args) OPT_PUSH then Some (start_state args LDCS_PUSH)
      else None)"

section \<open>The server loop\<close>

text \<open>What the server loop reacts to: a message of a connected client, a message of another server,
  a new connection, a lost connection, the exit note, the request to exit with the clients, and
  the timer that flushes bundled messages.\<close>

inductive server_step :: "env_t \<Rightarrow> ldcs_process_data_t \<Rightarrow> ldcs_process_data_t \<Rightarrow> bool" for env where
  client_message: "nc < length (client_table pd) \<Longrightarrow> client_state (the_client pd nc) = LDCS_CLIENT_STATUS_ACTIVE \<Longrightarrow>
    handle_client_message env nc msg pd = Some (r, pd') \<Longrightarrow> server_step env pd pd'"
| server_message: "handle_server_message 1 env (Peer n) msg pd = Some (r, pd') \<Longrightarrow> server_step env pd pd'"
| new_client: "accept_client conn pd = Some (r, pd') \<Longrightarrow> server_step env pd pd'"
| server_error: "handle_server_error (Peer n) pd = Some (r, pd') \<Longrightarrow> server_step env pd pd'"
| exit_note: "exit_note_cb pd = Some (r, pd') \<Longrightarrow> server_step env pd pd'"
| client_close: "set_exit_on_client_close pd = Some (r, pd') \<Longrightarrow> server_step env pd pd'"
| flush: "server_step env pd (pd\<lparr>msgbundle := flush_msgbuffer_cb (msgbundle pd)\<rparr>)"

inductive reachable :: "env_t \<Rightarrow> ldcs_process_data_t \<Rightarrow> bool" for env where
  started: "ldcs_audit_server_process args = Some pd \<Longrightarrow> reachable env pd"
| step: "reachable env pd \<Longrightarrow> server_step env pd pd' \<Longrightarrow> reachable env pd'"

section \<open>An example\<close>

text \<open>A server and surroundings for examples: a file system with one library.\<close>

definition example_args :: "nat \<Rightarrow> 64 word \<Rightarrow> server_args_t" where
  "example_args rank opt = \<lparr>args_commpath = ''/tmp'', args_pythonprefix = [], args_crash_log = ''/tmp/crashes'',
     args_localprefix = ''/usr'', args_local_prefixes = [''/usr''], args_exec_excludes = [], args_numa_files = [],
     args_numa_excludes = [], args_opts = opt, args_bundle_cachesize_kb = 64, args_hostname = ''node'',
     args_cachepath = ''/tmp/spindle'', args_parsed_cachepath = Some ''/tmp/spindle'', args_normalized_tmpdir = ''/tmp/spindle'',
     args_rank = rank, args_size = 3, args_parent = Peer 0, args_num_children = 2\<rparr>"

definition example_env :: env_t where
  "example_env = \<lparr>env_cwd = (\<lambda>_. Some ''/home''),
     env_dirs = (\<lambda>d. if d = ''/lib'' then Some [(''a.so'', DT_REG)] else None),
     env_realpath = (\<lambda>p. Some p), env_file_size = (\<lambda>p. if p = ''/lib/a.so'' then Inr 3 else Inl 2),
     env_read = (\<lambda>p s. if p = ''/lib/a.so'' then Read_Done ''abc'' False else Read_Errno 2), env_uninit = False,
     env_create = (\<lambda>_. True), env_sync = (\<lambda>_. True), env_sync_moved = (\<lambda>_. False), env_numa_lib = False,
     env_numa_nodes = 1, env_numa_alloc = (\<lambda>_. True), env_numa_assign = (\<lambda>_. True), env_numa_core = (\<lambda>_. 0),
     env_stat = (\<lambda>_ _. None), env_ldso = (\<lambda>_. None), env_write = (\<lambda>_. True), env_dev_to_mount = (\<lambda>_. None),
     env_mount_to_dev = (\<lambda>_. None), env_procmaps = (\<lambda>_. None), env_scan_int = (\<lambda>_. 1), env_time = 0,
     env_tls = \<lparr>tls_file = (\<lambda>_. None), tls_ld_list = (\<lambda>_ _ _ _ _. None), default_audit_libstr = [], default_subaudit_libstr = [],
       tls_uninit = (0, 0)\<rparr>, env_tls_depth = 8\<rparr>"

definition example_server :: "nat \<Rightarrow> ldcs_dist_model_t \<Rightarrow> ldcs_process_data_t" where
  "example_server rank model = start_state (example_args rank (if model = LDCS_PULL then 64 else 32)) model"

lemma example_started: "ldcs_audit_server_process (example_args rank (if model = LDCS_PULL then 64 else 32)) = Some (example_server rank model)"
  by (cases model) (simp_all add: ldcs_audit_server_process_def example_server_def example_args_def OPT_PULL_def OPT_PUSH_def OPT_MSGBUNDLE_def bit_iff_odd_drop_bit drop_bit_eq_div)

end
