(* ===== verification/Handler_Inv.thy ===== *)
theory Handler_Inv
  imports Handler_Frame Server_Process
begin

text \<open>
  Every message a server handles keeps the invariant of its state. The handlers below the
  dispatchers neither connect nor disconnect clients; rules that follow the shape of a handler
  reduce each of them to the handlers it calls.
\<close>

named_theorems stepI "a handler keeps the clients connected and the invariant"

section \<open>Steps\<close>

definition steps :: "ldcs_process_data_t \<Rightarrow> ldcs_process_data_t \<Rightarrow> bool" where
  "steps pd pd' \<longleftrightarrow> map client_state (client_table pd') = map client_state (client_table pd) \<and>
     client_table_used pd' = client_table_used pd \<and> clients_live pd' = clients_live pd \<and>
     md_rank pd' = md_rank pd \<and> md_parent pd' = md_parent pd \<and> (server_ok pd \<longrightarrow> server_ok pd')"

lemma steps_refl [simp]: "steps pd pd"
  by (simp add: steps_def)

lemma steps_trans: "steps a b \<Longrightarrow> steps b c \<Longrightarrow> steps a c"
  by (simp add: steps_def)

lemma keeps_steps: "keeps pd pd' \<Longrightarrow> steps pd pd'"
  by (simp add: keeps_def view_def steps_def)

abbreviation stepping :: "ldcs_process_data_t \<Rightarrow> ('r \<times> ldcs_process_data_t) option \<Rightarrow> bool" where
  "stepping pd m \<equiv> post m (\<lambda>_. steps pd)"

lemma stepping_keeps: "(\<And>r pd''. m pd' = Some (r, pd'') \<Longrightarrow> keeps pd' pd'') \<Longrightarrow> steps pd pd' \<Longrightarrow> stepping pd (m pd')"
  by (auto intro!: postI dest: keeps_steps intro: steps_trans)

lemma stepping_call:
  "stepping pd m \<Longrightarrow> (\<And>r pd'. steps pd pd' \<Longrightarrow> stepping pd (f (r, pd'))) \<Longrightarrow> stepping pd (Option.bind m f)"
  by (rule post_call)

lemma stepping_Some: "steps pd pd' \<Longrightarrow> stepping pd (Some (r, pd'))"
  by simp

lemma stepping_None: "stepping pd None"
  by simp

lemma steps_cong:
  "steps pd (pd'\<lparr>msgbundle := b\<rparr>) = steps pd pd'" "steps pd (pd'\<lparr>cache := c\<rparr>) = steps pd pd'"
  "steps pd (pd'\<lparr>client_out := co\<rparr>) = steps pd pd'" "steps pd (pd'\<lparr>fe_out := fo\<rparr>) = steps pd pd'"
  "steps pd (pd'\<lparr>exit_marked := em\<rparr>) = steps pd pd'" "steps pd (pd'\<lparr>stray_reads := sr\<rparr>) = steps pd pd'"
  "steps pd (pd'\<lparr>preload_done := pr\<rparr>) = steps pd pd'" "steps pd (pd'\<lparr>handling_bundle := hb\<rparr>) = steps pd pd'"
  "steps pd (pd'\<lparr>sent_exit_ready := se\<rparr>) = steps pd pd'" "steps pd (pd'\<lparr>exit_readys_recvd := er\<rparr>) = steps pd pd'"
  "steps pd (pd'\<lparr>num_alives := na\<rparr>) = steps pd pd'" "steps pd (pd'\<lparr>pickone_cache := pc\<rparr>) = steps pd pd'"
  "steps pd (pd'\<lparr>crash_sites := cs\<rparr>) = steps pd pd'" "steps pd (pd'\<lparr>tls_tables := tt\<rparr>) = steps pd pd'"
  "steps pd (pd'\<lparr>exit_note_done := en\<rparr>) = steps pd pd'" "steps pd (pd'\<lparr>exit_on_client_close := ec\<rparr>) = steps pd pd'"
  "steps pd (pd'\<lparr>num_exited_parents := np\<rparr>) = steps pd pd'" "steps pd (pd'\<lparr>num_exited_children_peers := nx\<rparr>) = steps pd pd'"
  by (simp_all add: steps_def)

lemmas [simp] = steps_cong

lemma steps_send_msg [simp]: "steps pd (ldcs_send_msg conn msg pd') = steps pd pd'"
  by (simp add: ldcs_send_msg_def)

lemma filter_states: "map client_state xs = map client_state ys \<Longrightarrow>
    length (filter (\<lambda>c. client_state c = s) xs) = length (filter (\<lambda>c. client_state c = s) ys)"
  by (induction xs arbitrary: ys) (auto simp: Cons_eq_map_conv split: if_splits)

lemma states_update:
  assumes "\<And>c. client_state (f c) = client_state c"
  shows "map client_state (t[nc := f (t ! nc)]) = map client_state t"
proof (rule nth_equalityI)
  fix i assume "i < length (map client_state (t[nc := f (t ! nc)]))"
  then show "map client_state (t[nc := f (t ! nc)]) ! i = map client_state t ! i"
    by (cases "i = nc") (simp_all add: assms)
qed simp

lemma states_drop:
  assumes "map client_state u = map client_state t" and "\<forall>c \<in> set (drop n t). client_state c = s"
  shows "\<forall>c \<in> set (drop n u). client_state c = s"
proof -
  have "client_state ` set (drop n u) = client_state ` set (drop n t)"
    using arg_cong [OF assms(1), of "\<lambda>x. set (drop n x)"] by (simp add: drop_map)
  then show ?thesis using assms(2) by force
qed

lemma clients_ok_update:
  assumes "clients_ok pd" and f: "\<And>c. client_state (f c) = client_state c" and "\<And>c. client_ok c \<Longrightarrow> client_ok (f c)"
  shows "clients_ok (set_client nc f pd)"
proof (cases "nc < length (client_table pd)")
  case True
  let ?t = "client_table pd"
  let ?u = "?t[nc := f (?t ! nc)]"
  have m: "map client_state ?u = map client_state ?t" using f by (rule states_update)
  have ok: "\<forall>c \<in> set ?t. client_ok c" "\<forall>c \<in> set (drop (client_table_used pd) ?t). client_state c = LDCS_CLIENT_STATUS_FREE"
    using assms(1) unfolding clients_ok_def by blast+
  then have "client_ok (f (?t ! nc))" using True assms(3) nth_mem by blast
  then have "\<forall>c \<in> set ?u. client_ok c"
    using ok(1) set_update_subset_insert [of ?t nc "f (?t ! nc)"] by blast
  then show ?thesis
    using assms(1) filter_states [OF m, of LDCS_CLIENT_STATUS_ACTIVE] states_drop [OF m ok(2)]
    by (simp add: clients_ok_def set_client_def)
qed (use assms(1) in \<open>simp add: set_client_def list_update_beyond\<close>)

lemma set_client_steps [intro]:
  assumes "steps pd pd'" and f: "\<And>c. client_state (f c) = client_state c" and "\<And>c. client_ok c \<Longrightarrow> client_ok (f c)"
  shows "steps pd (set_client nc f pd')"
proof -
  have "server_ok pd' \<Longrightarrow> server_ok (set_client nc f pd')"
    using clients_ok_update [OF _ assms(2,3), of pd' nc]
    by (simp add: server_ok_def) (simp add: tables_ok_def requests_ok_def flag_ok_def set_client_def)
  then show ?thesis using assms(1) states_update [of f, OF f] by (simp add: steps_def set_client_def)
qed

lemma close_steps [simp, intro]: "steps pd pd' \<Longrightarrow> steps pd (handle_close_client_query nc pd')"
  unfolding handle_close_client_query_def by (rule set_client_steps) (auto simp: client_ok_def)

section \<open>Files and metadata\<close>

lemmas keep_lemmas = net_send_keeps handle_send_msg_to_keys_keeps broadcasts_keep queries_keep(1) handle_read_directory_keeps
  handle_read_and_broadcast_dir_keeps handle_setup_file_buffer_keeps handle_finish_buffer_setup_keeps
  handle_setup_alias_keeps read_contents_keeps handle_read_and_broadcast_file_keeps handle_cache_metadata_keeps
  handle_cache_ldso_keeps handle_metadata_and_broadcast_file_keeps handle_load_and_broadcast_metadata_keeps

lemma stepping_keep [stepI]:
  assumes "steps pd pd'"
  shows "stepping pd (net_send f pd')"
    and "stepping pd (handle_broadcast_dir d b pd')"
    and "stepping pd (handle_broadcast_file p buf sz st b pd')"
    and "stepping pd (handle_broadcast_errorcode p e pd')"
    and "stepping pd (handle_broadcast_alias p q pd')"
    and "stepping pd (handle_create_selfload_file p pd')"
    and "stepping pd (handle_broadcast_metadata env p ex buf m pd')"
    and "stepping pd (handle_send_query p is_dir dso pd')"
    and "stepping pd (handle_send_msg_to_keys msg p buf force dso m pd')"
    and "stepping pd (handle_read_directory env d pd')"
    and "stepping pd (handle_read_and_broadcast_dir env d pd')"
    and "stepping pd (handle_setup_file_buffer env p sz elf st pd')"
    and "stepping pd (handle_finish_buffer_setup env l p mem sz nsz rep e ws pd')"
    and "stepping pd (handle_setup_alias p q pd')"
    and "stepping pd (handle_read_and_broadcast_file env p dso b pd')"
    and "stepping pd (handle_cache_metadata env p ex m buf pd')"
    and "stepping pd (handle_cache_ldso env p ex info pd')"
    and "stepping pd (handle_metadata_and_broadcast_file env p m b pd')"
    and "stepping pd (handle_load_and_broadcast_metadata env p m pd')"
  by (rule stepping_keeps [OF _ assms], erule keep_lemmas)+

lemma stepping_metadata_request [stepI]:
  "from \<noteq> NODE_PEER_ALL \<Longrightarrow> steps pd pd' \<Longrightarrow> stepping pd (handle_metadata_request p m from pd')"
  "from \<noteq> NODE_PEER_ALL \<Longrightarrow> steps pd pd' \<Longrightarrow> stepping pd (handle_metadata_request_recv env msg m from pd')"
  by (rule stepping_keeps; simp add: queries_keep(2) handle_metadata_request_recv_keeps)+

lemma steps_requests [simp, intro]:
  "p \<noteq> NODE_PEER_ALL \<Longrightarrow> steps pd pd' \<Longrightarrow> steps pd (add_file_request dso k p pd')"
  "p \<noteq> NODE_PEER_ALL \<Longrightarrow> steps pd pd' \<Longrightarrow> steps pd (add_pending_md m k p pd')"
  "steps pd pd' \<Longrightarrow> steps pd (pd'\<lparr>file_requests := add_requestor (file_requests pd') k NODE_PEER_CLIENT\<rparr>)"
  "steps pd pd' \<Longrightarrow> steps pd (pd'\<lparr>dso_requests := add_requestor (dso_requests pd') k NODE_PEER_CLIENT\<rparr>)"
proof -
  show *: "p \<noteq> NODE_PEER_ALL \<Longrightarrow> steps pd pd' \<Longrightarrow> steps pd (add_file_request dso k p pd')" for dso p
    by (rule steps_trans, assumption, rule keeps_steps) simp
  show "p \<noteq> NODE_PEER_ALL \<Longrightarrow> steps pd pd' \<Longrightarrow> steps pd (add_pending_md m k p pd')"
    by (rule steps_trans, assumption, rule keeps_steps) simp
  show "steps pd pd' \<Longrightarrow> steps pd (pd'\<lparr>file_requests := add_requestor (file_requests pd') k NODE_PEER_CLIENT\<rparr>)"
    using * [of NODE_PEER_CLIENT False] by (simp add: add_file_request_def)
  show "steps pd pd' \<Longrightarrow> steps pd (pd'\<lparr>dso_requests := add_requestor (dso_requests pd') k NODE_PEER_CLIENT\<rparr>)"
    using * [of NODE_PEER_CLIENT True] by (simp add: add_file_request_def)
qed

section \<open>Answers to clients\<close>

lemma stepping_answers [stepI]:
  assumes "steps pd pd'"
  shows "stepping pd (handle_client_fulfilled_query nc pd')"
    and "stepping pd (handle_client_rejected_query nc e pd')"
    and "stepping pd (handle_report_fileexist_result nc ex pd')"
    and "stepping pd (handle_client_metadata_result nc m pd')"
    and "stepping pd (handle_client_metadata_self nc pd')"
    and "stepping pd (answer_ready nc msg pd')"
proof -
  note plain = post_bind [of "m :: string option option option" for m]
  show "stepping pd (handle_client_metadata_result nc m pd')"
    unfolding handle_client_metadata_result_def Let_def
    using assms by (auto intro!: post_if plain split: option.split metadata_t.split)
qed (use assms in \<open>auto simp: handle_client_fulfilled_query_def handle_client_rejected_query_def handle_report_fileexist_result_def
      handle_client_metadata_self_def answer_ready_def Let_def split: option.split\<close>)

lemma steps_alias [simp, intro]: "steps pd pd' \<Longrightarrow> steps pd (handle_client_get_alias nc a pd')"
  unfolding handle_client_get_alias_def by (rule set_client_steps) (auto simp: client_ok_def Let_def split_def)

lemma steps_localpath [simp, intro]: "steps pd pd' \<Longrightarrow> steps pd (set_localpath nc how pd')"
  unfolding set_localpath_def by (rule set_client_steps) (auto simp: client_ok_def split: option.split)

lemma steps_numa: "steps pd pd' \<Longrightarrow> handle_client_return_numa_replication nc pd' = Some pd'' \<Longrightarrow> steps pd pd''"
  by (auto simp: handle_client_return_numa_replication_def Let_def client_ok_def split: if_splits prod.splits)

lemma stepping_originalfile [stepI]: "steps pd pd' \<Longrightarrow> stepping pd (handle_client_originalfile_query nc pd')"
  unfolding handle_client_originalfile_query_def by (intro stepI set_client_steps) (auto simp: client_ok_def)

lemma stepping_client_metadata [stepI]: "steps pd pd' \<Longrightarrow> stepping pd (handle_client_metadata env nc pd')"
  unfolding handle_client_metadata_def Let_def
  by (auto intro!: stepI post_if stepping_call post_bind [of "m :: handle_metadata_result_t option" for m]
      split: handle_metadata_result_t.split)

section \<open>Progress\<close>

text \<open>Recursive handlers: it is enough that the body keeps the invariant when the recursive calls
  do.\<close>

lemma stepping_rec:
  assumes "\<And>p y. g p = Some y \<Longrightarrow> \<forall>pd. steps pd p \<longrightarrow> steps pd (snd y)" and "steps pd p"
  shows "stepping pd (g p)"
  using assms by (fastforce intro!: postI)

lemma stepping_fileexist [stepI]:
  assumes "steps pd pd'"
  shows "stepping pd (handle_fileexist_test env nc pd')"
proof (rule stepping_rec [OF _ assms])
  show "handle_fileexist_test env nc p = Some y \<Longrightarrow> \<forall>pd. steps pd p \<longrightarrow> steps pd (snd y)" for p y
    apply (erule handle_fileexist_test.raw_induct [where P = "\<lambda>_ _ p y. \<forall>pd. steps pd p \<longrightarrow> steps pd (snd y)", rotated])
    subgoal premises prems for rec env nc p y
    proof (intro allI impI)
      fix pd assume pd: "steps pd p"
      note rec = stepping_rec [of "rec env nc" for env nc, OF prems(1)]
      have "stepping pd (Some y)"
        unfolding prems(2) [symmetric] Let_def using pd
        by (auto intro!: stepI rec post_if stepping_call split: handle_file_result_t.split option.split)
      then show "steps pd (snd y)" by (cases y) simp
    qed
    done
qed

lemma stepping_progress [stepI]:
  assumes "steps pd pd'"
  shows "stepping pd (handle_client_progress env nc pd')"
proof (rule stepping_rec [OF _ assms])
  show "handle_client_progress env nc p = Some y \<Longrightarrow> \<forall>pd. steps pd p \<longrightarrow> steps pd (snd y)" for p y
    apply (erule handle_client_progress.raw_induct [where P = "\<lambda>_ _ p y. \<forall>pd. steps pd p \<longrightarrow> steps pd (snd y)", rotated])
    subgoal premises prems for rec env nc p y
    proof (intro allI impI)
      fix pd assume pd: "steps pd p"
      note rec = stepping_rec [of "rec env nc" for env nc, OF prems(1)]
      have "stepping pd (Some y)"
        unfolding prems(2) [symmetric] Let_def using pd
        by (auto intro!: stepI rec post_if stepping_call post_bind [of "m :: ldcs_process_data_t option" for m]
            intro: steps_numa split: handle_file_result_t.split option.split)
      then show "steps pd (snd y)" by (cases y) simp
    qed
    done
qed

lemma stepping_progress_loop [stepI]: "steps pd pd' \<Longrightarrow> stepping pd (progress_loop env ncs g pd')"
  by (induction ncs arbitrary: g pd') (auto simp: Let_def intro!: stepping_call stepI)

lemma stepping_handle_progress [stepI]: "steps pd pd' \<Longrightarrow> stepping pd (handle_progress env pd')"
  unfolding handle_progress_def by (rule stepI)

section \<open>Messages of clients\<close>

lemma stepping_client_requests [stepI]:
  assumes "steps pd pd'"
  shows "stepping pd (handle_client_file_request env nc msg pd')"
    and "stepping pd (handle_client_fileexist_msg env nc msg pd')"
    and "stepping pd (handle_client_info_msg env nc msg pd')"
proof -
  note plain = post_bind [of "m :: (string \<times> string) option" for m] post_bind [of "m :: string option option" for m]
  show "stepping pd (handle_client_file_request env nc msg pd')"
    unfolding handle_client_file_request_def Let_def
    using assms by (auto intro!: plain stepI set_client_steps simp: client_ok_def)
  show "stepping pd (handle_client_fileexist_msg env nc msg pd')"
    unfolding handle_client_fileexist_msg_def Let_def
    using assms by (auto intro!: plain stepI set_client_steps simp: client_ok_def)
  show "stepping pd (handle_client_info_msg env nc msg pd')"
    using assms by (auto simp: handle_client_info_msg_def Let_def client_ok_def intro!: set_client_steps)
qed

lemma stepping_client_info [stepI]:
  assumes "steps pd pd'"
  shows "stepping pd (handle_pythonprefix_query nc pd')"
    and "stepping pd (handle_client_dirlists_req nc pd')"
    and "stepping pd (handle_client_myrankinfo_msg nc pd')"
    and "stepping pd (handle_client_origpath_msg nc msg pd')"
    and "stepping pd (handle_client_procmaps_msg env nc msg pd')"
    and "stepping pd (handle_client_pickone_msg nc msg pd')"
    and "stepping pd (handle_chosen_cachepath_request nc pd')"
proof -
  have resp: "stepping pd (handle_client_pickone_resp nc you pd'')" if "steps pd pd''" for you pd''
    using that by (simp add: handle_client_pickone_resp_def)
  show "stepping pd (handle_client_pickone_msg nc msg pd')"
    using assms by (auto simp: handle_client_pickone_msg_def Let_def intro!: resp post_if)
  note plain = post_bind [of "m :: string option option" for m]
  show "stepping pd (handle_client_origpath_msg nc msg pd')"
    using assms by (auto simp: handle_client_origpath_msg_def Let_def intro!: plain post_if stepI split: option.split)
  show "stepping pd (handle_client_procmaps_msg env nc msg pd')"
    using assms by (auto simp: handle_client_procmaps_msg_def Let_def intro!: plain post_if stepI split: option.split)
qed (use assms in \<open>auto simp: handle_pythonprefix_query_def handle_client_dirlists_req_def handle_client_myrankinfo_msg_def
      handle_chosen_cachepath_request_def Let_def intro!: stepI split: option.split\<close>)

section \<open>Static TLS\<close>

lemma server_ok_tls:
  assumes "server_ok pd"
  shows "p \<noteq> NODE_PEER_ALL \<Longrightarrow> server_ok (pd\<lparr>pending_tls_requests := add_requestor (pending_tls_requests pd) k p\<rparr>)"
    and "server_ok (pd\<lparr>completed_tls_requests := add_requestor (completed_tls_requests pd) k q\<rparr>)"
    and "server_ok (pd\<lparr>pending_tls_requests := clear_requestor (pending_tls_requests pd) k\<rparr>)"
  using assms by (auto simp: server_ok_unfold reqs.ok_add reqs.ok_clear not_waiting_add not_waiting_clear)

lemma steps_tls_tables:
  assumes "steps pd pd'"
  shows "p \<noteq> NODE_PEER_ALL \<Longrightarrow> steps pd (pd'\<lparr>pending_tls_requests := add_requestor (pending_tls_requests pd') k p\<rparr>)"
    and "steps pd (pd'\<lparr>completed_tls_requests := add_requestor (completed_tls_requests pd') k q\<rparr>)"
    and "steps pd (clear_tls_requests k pd')"
    and "p \<noteq> NODE_PEER_ALL \<Longrightarrow> steps pd (add_tls_request k p pd')"
  using assms by (auto simp: steps_def server_ok_tls clear_tls_requests_def add_tls_request_def)

lemma stepping_tls_send [stepI]:
  assumes "steps pd pd'"
  shows "stepping pd (tls_send_loop msg k nodes g pd')" and "stepping pd (handle_tls_send_results k msg pd')"
proof -
  have l: "stepping pd (tls_send_loop msg k nodes g pd')" if "steps pd pd'" for g pd' nodes
    using that
  proof (induction nodes arbitrary: g pd')
    case (Cons n nodes)
    then show ?case by (auto intro!: stepping_call stepI steps_tls_tables Cons.IH)
  qed simp
  show "stepping pd (tls_send_loop msg k nodes g pd')" using assms by (rule l)
  show "stepping pd (handle_tls_send_results k msg pd')"
    using assms by (auto simp: handle_tls_send_results_def intro!: post_if stepping_call stepI l steps_tls_tables split: option.split)
qed

lemma steps_foldl: "steps pd pd' \<Longrightarrow> (\<And>x p. steps pd p \<Longrightarrow> steps pd (f p x)) \<Longrightarrow> steps pd (foldl f pd' xs)"
  by (induction xs arbitrary: pd') auto

lemma stepping_tls_result [stepI]: "steps pd pd' \<Longrightarrow> stepping pd (handle_tls_process_result i k s a pd')"
  unfolding handle_tls_process_result_def Let_def handle_send_client_static_tls_resp_def
  by (auto intro!: post_bind [of "m :: byte list option" for m] stepping_call stepI steps_foldl set_client_steps simp: client_ok_def)

lemma stepping_tls_request [stepI]:
  assumes "steps pd pd'" and "from \<noteq> NODE_PEER_ALL"
  shows "stepping pd (handle_tls_request env i from pd')"
proof -
  note plain = post_bind [of "m :: byte list option" for m] post_bind [of "m :: ((int \<times> int) \<times> tls_tables_t) option" for m]
  show ?thesis
    using assms by (auto simp: handle_tls_request_def handle_tls_send_request_def Let_def
        intro!: plain post_if stepping_call stepI steps_tls_tables split: option.split)
qed

lemma stepping_tls [stepI]:
  assumes "steps pd pd'"
  shows "stepping pd (handle_client_static_tls_req env nc msg pd')"
    and "from \<noteq> NODE_PEER_ALL \<Longrightarrow> stepping pd (handle_static_tls_req env msg from pd')"
    and "stepping pd (handle_static_tls_resp msg pd')"
  using assms
  by (auto simp: handle_client_static_tls_req_def handle_static_tls_req_def handle_static_tls_resp_def Let_def client_ok_def
      intro!: post_bind [of "m :: static_tls_info_t option option" for m] stepping_call stepI set_client_steps split: option.split)

section \<open>Crashes\<close>

lemma steps_site [simp]: "steps pd (set_site i f pd') = steps pd pd'" "steps pd (crash_site_insert s pd') = steps pd pd'"
  "steps pd (crash_log_append_rank i row pd') = steps pd pd'"
  by (simp_all add: set_site_def crash_site_insert_def crash_log_append_rank_def)

lemma steps_crash_response: "steps pd pd' \<Longrightarrow> send_crash_response_to_waiter w r s pd' = Some pd'' \<Longrightarrow> steps pd pd''"
  by (auto simp: send_crash_response_to_waiter_def Let_def bind_eq_Some_conv net_send_iff split: crash_waiter_kind_t.splits if_splits)

lemma stepping_crash_resolve [stepI]: "steps pd pd' \<Longrightarrow> stepping pd (crash_resolve i r pd')"
  unfolding crash_resolve_def Let_def
  by (auto intro!: post_bind [of "m :: ldcs_process_data_t option" for m] intro: steps_crash_response)

lemma stepping_crash_report [stepI]: "steps pd pd' \<Longrightarrow> stepping pd (crash_report_common w r d s c pd')"
  unfolding crash_report_common_def forward_crash_query_up_def Let_def
  by (auto intro!: post_bind [of "m :: ldcs_process_data_t option" for m] post_if stepping_call stepI
      intro: steps_crash_response split: option.split)

lemma steps_crash_flush: "steps pd pd' \<Longrightarrow> crash_log_flush_to_parent pd' = Some pd'' \<Longrightarrow> steps pd pd''"
  by (auto simp: crash_log_flush_to_parent_def crash_log_clear_pending_def bind_eq_Some_conv net_send_iff split: if_splits)

lemma steps_merge: "steps pd pd' \<Longrightarrow> merge_entries n bs pd' = Inl pd'' \<or> merge_entries n bs pd' = Inr pd'' \<Longrightarrow> steps pd pd''"
proof (induction n arbitrary: bs pd')
  case (Suc n)
  have "steps pd (crash_log_merge_entry ent pd')" for ent
    using Suc.prems(1) by (auto simp: crash_log_merge_entry_def Let_def split_def split: option.split intro!: steps_foldl)
  then show ?case using Suc.prems Suc.IH by (auto split: option.splits)
qed auto

lemma stepping_crash_messages [stepI]:
  assumes "steps pd pd'"
  shows "stepping pd (handle_client_crash_string nc msg pd')"
    and "stepping pd (handle_client_crash_report env nc msg pd')"
    and "stepping pd (handle_crash_report_recv peer msg pd')"
    and "stepping pd (handle_crash_response_recv peer msg pd')"
    and "stepping pd (handle_crash_log_recv peer msg pd')"
proof -
  note plain = post_bind [of "m :: byte list option" for m] post_bind [of "m :: ldcs_process_data_t option" for m]
  have flush: "crash_log_flush_to_parent (crash_log_append_rank i row q) = Some q' \<Longrightarrow> steps pd q \<Longrightarrow> steps pd q'" for i row q q'
    by (erule steps_crash_flush [rotated]) simp
  show "stepping pd (handle_client_crash_string nc msg pd')"
    using assms by (auto simp: handle_client_crash_string_def Let_def client_ok_def intro!: set_client_steps)
  show "stepping pd (handle_client_crash_report env nc msg pd')"
    unfolding handle_client_crash_report_def Let_def crash_free_client_stash_def
    using assms by (auto intro!: post_if plain stepping_call stepI set_client_steps simp: client_ok_def
        split: option.split if_split_asm dest: flush)
  show "stepping pd (handle_crash_report_recv peer msg pd')"
    using assms stepping_crash_report [OF assms]
    by (auto simp: handle_crash_report_recv_def post_def split: option.split)
  show "stepping pd (handle_crash_response_recv peer msg pd')"
    using assms by (auto simp: handle_crash_response_recv_def intro!: stepI split: option.split)
  show "stepping pd (handle_crash_log_recv peer msg pd')"
    using assms by (auto simp: handle_crash_log_recv_def Let_def post_def split: sum.split dest: steps_merge intro: steps_crash_flush)
qed

section \<open>The end of the job\<close>

lemma stepping_exit_broadcast [stepI]: "steps pd pd' \<Longrightarrow> stepping pd (handle_exit_broadcast pd')"
  unfolding handle_exit_broadcast_def
  by (auto intro!: post_bind [of "m :: ldcs_process_data_t option" for m] stepping_call stepI intro: steps_crash_flush)

lemma stepping_exit_ready [stepI]: "steps pd pd' \<Longrightarrow> stepping pd (handle_send_exit_ready_if_done pd')"
  unfolding handle_send_exit_ready_if_done_def Let_def ldcs_audit_server_md_to_frontend_def
  by (auto intro!: post_bind [of "m :: ldcs_process_data_t option" for m] post_if stepping_call stepI dest: steps_crash_flush [rotated])

lemma stepping_exit_cancel [stepI]: "steps pd pd' \<Longrightarrow> stepping pd (handle_send_exit_cancel pd')"
  unfolding handle_send_exit_cancel_def by (auto intro!: post_if stepI)

lemma stepping_exit [stepI]:
  assumes "steps pd pd'"
  shows "stepping pd (handle_exit_ready_msg pd')" and "stepping pd (handle_exit_cancel_msg pd')"
    and "stepping pd (handle_client_start pd')" and "stepping pd (exit_note_cb pd')"
    and "stepping pd (set_exit_on_client_close pd')" and "stepping pd (handle_server_error peer pd')"
    and "stepping pd (handle_alive_msg msg pd')"
proof -
  show "stepping pd (handle_alive_msg msg pd')"
    unfolding handle_alive_msg_def Let_def ldcs_audit_server_md_to_frontend_def
    using assms by (auto intro!: post_if stepping_call stepI)
qed (use assms in \<open>auto simp: handle_exit_ready_msg_def handle_exit_cancel_msg_def handle_client_start_def exit_note_cb_def
    set_exit_on_client_close_def handle_server_error_def Let_def intro!: post_if stepping_call stepI\<close>)

section \<open>Messages of servers\<close>

lemma stepping_requests [stepI]:
  assumes "steps pd pd'" and "from \<noteq> NODE_PEER_ALL"
  shows "stepping pd (handle_request_directory env from p pd')"
    and "stepping pd (request_upwards from dso p d pd')"
    and "stepping pd (handle_request_file env from dso p pd')"
proof -
  have up: "stepping pd (request_upwards from dso p d q)" if "steps pd q" for pd q p d dso
    using that assms(2) by (auto simp: request_upwards_def intro!: stepping_call stepI)
  show "stepping pd (request_upwards from dso p d pd')" using assms(1) by (rule up)
  show "stepping pd (handle_request_directory env from p pd')"
    using assms by (auto simp: handle_request_directory_def intro!: stepping_call stepI split: handle_file_result_t.split)
  show "stepping pd (handle_request_file env from dso p pd')"
  proof (rule stepping_rec [OF _ assms(1)])
    have "from \<noteq> NODE_PEER_ALL \<longrightarrow> (\<forall>pd. steps pd q \<longrightarrow> steps pd (snd y))" if "handle_request_file env from dso p q = Some y" for q y
      using that
      apply (rule handle_request_file.raw_induct [where P = "\<lambda>_ from _ _ q y. from \<noteq> NODE_PEER_ALL \<longrightarrow> (\<forall>pd. steps pd q \<longrightarrow> steps pd (snd y))", rotated])
      subgoal premises prems for rec env src dso p q y
      proof (intro allI impI)
        fix pd assume f: "src \<noteq> NODE_PEER_ALL" and pd: "steps pd q"
        have rec: "steps pd q \<Longrightarrow> stepping pd (rec env src dso p q)" for pd env dso p q
          using prems(1) [of env src dso p] f by (auto intro!: stepping_rec)
        have up: "stepping pd (request_upwards src dso p d q)" if "steps pd q" for pd q p d dso
          using that f by (auto simp: request_upwards_def intro!: stepping_call stepI)
        have "stepping pd (Some y)"
          unfolding prems(2) [symmetric] Let_def split_def using pd f
          by (auto intro!: stepI rec up post_if stepping_call split: handle_file_result_t.split option.split)
        then show "steps pd (snd y)" by (cases y) simp
      qed
      done
    then show "handle_request_file env from dso p q = Some y \<Longrightarrow> \<forall>pd. steps pd q \<longrightarrow> steps pd (snd y)" for q y
      using assms(2) by blast
  qed
qed

lemma stepping_results [stepI]:
  assumes "steps pd pd'"
  shows "stepping pd (handle_file_errcode env msg pd')" and "stepping pd (handle_directory_recv env msg b pd')"
    and "stepping pd (handle_alias_recv env msg pd')" and "stepping pd (handle_metadata_recv env msg m pd')"
proof -
  note plain = post_bind [of "m :: (int \<times> string) option" for m] post_bind [of "m :: (string \<times> cache_t) option" for m]
    post_bind [of "m :: (bool \<times> string \<times> string option \<times> byte list) option" for m]
  show "stepping pd (handle_file_errcode env msg pd')"
    unfolding handle_file_errcode_def Let_def split_def using assms by (auto intro!: plain stepping_call stepI)
  show "stepping pd (handle_directory_recv env msg b pd')"
    unfolding handle_directory_recv_def using assms by (auto intro!: plain stepping_call stepI)
  show "stepping pd (handle_alias_recv env msg pd')"
    unfolding handle_alias_recv_def Let_def split_def using assms by (auto intro!: stepping_call stepI)
  show "stepping pd (handle_metadata_recv env msg m pd')"
    unfolding handle_metadata_recv_def Let_def split_def using assms by (auto intro!: plain post_if stepping_call stepI)
qed

lemma steps_fill_buffer [simp]: "steps pd pd' \<Longrightarrow> steps pd (fill_buffer p st mem pd')"
  by (rule steps_trans, assumption, rule keeps_steps) simp

lemma stepping_file_recv [stepI]: "steps pd pd' \<Longrightarrow> stepping pd (handle_file_recv env msg peer b pd')"
  unfolding handle_file_recv_def Let_def
  by (auto intro!: post_bind [of "m :: file_packet option" for m] post_if stepping_call stepI split: option.split)

lemma stepping_preload [stepI]:
  assumes "steps pd pd'"
  shows "stepping pd (preload_dirs env n bs g pd')" and "stepping pd (preload_files env n bs g pd')"
    and "stepping pd (handle_preload_done env pd')" and "stepping pd (handle_preload_filelist env msg pd')"
proof -
  have d: "stepping pd (preload_dirs env n bs g q)" if "steps pd q" for n bs g q
    using that by (induction n arbitrary: bs g q) (auto simp: Let_def intro!: post_if stepping_call stepI)
  have f: "stepping pd (preload_files env n bs g q)" if "steps pd q" for n bs g q
    using that by (induction n arbitrary: bs g q) (auto simp: Let_def intro!: post_if stepping_call stepI)
  have e: "stepping pd (handle_preload_done env q)" if "steps pd q" for q
    unfolding handle_preload_done_def using that by (auto intro!: post_if stepping_call stepI)
  show "stepping pd (handle_preload_filelist env msg pd')"
    unfolding handle_preload_filelist_def Let_def using assms by (auto intro!: post_if stepping_call d f e)
  show "stepping pd (preload_dirs env n bs g pd')" "stepping pd (preload_files env n bs g pd')" "stepping pd (handle_preload_done env pd')"
    using assms by (rule d f e)+
qed

lemma stepping_selfload_loop [stepI]: "steps pd pd' \<Longrightarrow> stepping pd (selfload_loop env f ncs g found pd')"
  by (induction ncs arbitrary: g found pd') (auto simp: Let_def intro!: stepping_call stepI)

lemma stepping_selfload [stepI]: "steps pd pd' \<Longrightarrow> stepping pd (handle_recv_selfload_file env msg pd')"
  unfolding handle_recv_selfload_file_def Let_def by (auto intro!: stepping_call stepI post_if)

lemma stepping_request [stepI]:
  "steps pd pd' \<Longrightarrow> from \<noteq> NODE_PEER_ALL \<Longrightarrow> stepping pd (handle_request env from msg pd')"
  unfolding handle_request_def Let_def by (auto intro!: stepI split: list.split)

section \<open>Dispatchers\<close>

lemma stepping_client_message:
  "msg_type (msg_header msg) \<noteq> LDCS_MSG_END \<Longrightarrow> steps pd pd' \<Longrightarrow> stepping pd (handle_client_message env nc msg pd')"
  unfolding handle_client_message_def Let_def by (intro post_if stepI stepping_None) simp_all

lemma stepping_single_message:
  "peer \<noteq> NODE_PEER_ALL \<Longrightarrow> steps pd pd' \<Longrightarrow> stepping pd (handle_single_message env peer msg pd')"
  unfolding handle_single_message_def Let_def by (intro post_if stepI stepping_None) simp_all

lemma stepping_bundle_loop:
  assumes "\<And>m p. steps pd p \<Longrightarrow> stepping pd (h m p)"
  shows "steps pd pd' \<Longrightarrow> stepping pd (bundle_loop h ms g pd')"
  by (induction ms arbitrary: g pd') (auto intro!: stepping_call assms)

lemma stepping_server_message:
  "peer \<noteq> NODE_PEER_ALL \<Longrightarrow> steps pd pd' \<Longrightarrow> stepping pd (handle_server_message n env peer msg pd')"
proof (induction n arbitrary: msg pd')
  case (Suc n)
  then show ?case
    by (auto simp: handle_msgbundle_def intro!: stepping_call stepping_bundle_loop stepping_single_message)
qed (simp add: stepping_single_message)

section \<open>Clients come and go\<close>

lemma clients_ok_end:
  assumes "clients_ok pd" and "nc < length (client_table pd)" and "client_state (the_client pd nc) = LDCS_CLIENT_STATUS_ACTIVE"
  defines "pd' \<equiv> set_client nc (\<lambda>c. c\<lparr>client_state := LDCS_CLIENT_STATUS_FREE\<rparr>) pd"
  shows "clients_live pd > 0" and "clients_ok (pd'\<lparr>clients_live := clients_live pd - 1\<rparr>)"
proof -
  let ?t = "client_table pd" and ?A = "\<lambda>c. client_state c = LDCS_CLIENT_STATUS_ACTIVE"
  let ?c = "(?t ! nc)\<lparr>client_state := LDCS_CLIENT_STATUS_FREE\<rparr>"
  have t: "?t = take nc ?t @ ?t ! nc # drop (Suc nc) ?t" using assms(2) by (rule id_take_nth_drop)
  have u: "?t[nc := ?c] = take nc ?t @ ?c # drop (Suc nc) ?t" using assms(2) by (rule upd_conv_take_nth_drop)
  have "length (filter ?A ?t) = length (filter ?A (take nc ?t)) + 1 + length (filter ?A (drop (Suc nc) ?t))"
    using assms(3) by (subst t) (simp add: the_client_def)
  moreover have "length (filter ?A (?t[nc := ?c])) = length (filter ?A (take nc ?t)) + length (filter ?A (drop (Suc nc) ?t))"
    by (subst u) simp
  moreover have live: "clients_live pd = length (filter ?A ?t)" using assms(1) by (simp add: clients_ok_def)
  ultimately have "clients_live pd - 1 = length (filter ?A (?t[nc := ?c]))" by simp
  moreover have "\<forall>c \<in> set (drop (client_table_used pd) (?t[nc := ?c])). client_state c = LDCS_CLIENT_STATUS_FREE"
    using assms(1) by (cases "client_table_used pd \<le> nc")
      (auto simp: clients_ok_def drop_update_swap drop_update_cancel dest!: subsetD [OF set_update_subset_insert])
  moreover have "\<forall>c \<in> set (?t[nc := ?c]). client_ok c"
    using assms(1) by (auto simp: clients_ok_def client_ok_def dest!: subsetD [OF set_update_subset_insert])
  ultimately show "clients_ok (pd'\<lparr>clients_live := clients_live pd - 1\<rparr>)"
    using assms(1) by (simp add: clients_ok_def pd'_def set_client_def)
  show "clients_live pd > 0" unfolding live by (subst t) (simp add: assms(3) [unfolded the_client_def])
qed

lemma clients_ok_grow:
  assumes "clients_ok pd"
  shows "clients_ok (grow_client_table pd)" and "client_table_used (grow_client_table pd) < length (client_table (grow_client_table pd))"
  using assms by (auto simp: grow_client_table_def clients_ok_def free_slot_def client_ok_def)

lemma clients_ok_new:
  assumes "clients_ok pd" and "client_table_used pd < length (client_table pd)"
  defines "nc \<equiv> length (takeWhile (\<lambda>c. client_state c \<noteq> LDCS_CLIENT_STATUS_FREE) (client_table pd))"
  shows "nc < length (client_table pd)" and "client_state (the_client pd nc) = LDCS_CLIENT_STATUS_FREE"
    and "clients_ok ((set_client nc (new_client conn) pd)\<lparr>client_table_used := client_table_used pd + 1,
       client_counter := cc, clients_live := clients_live pd + 1\<rparr>)"
proof -
  let ?t = "client_table pd" and ?A = "\<lambda>c. client_state c = LDCS_CLIENT_STATUS_ACTIVE"
  let ?F = "\<lambda>c. client_state c \<noteq> LDCS_CLIENT_STATUS_FREE" and ?c = "new_client conn (client_table pd ! nc)"
  have "?t ! client_table_used pd \<in> set (drop (client_table_used pd) ?t)"
    using assms(2) by (metis hd_drop_conv_nth drop_eq_Nil hd_in_set not_le)
  then have "\<not> ?F (?t ! client_table_used pd)" using assms(1) by (simp add: clients_ok_def)
  moreover have "?F (?t ! j)" if "j < nc" for j
    using that takeWhile_nth [of j ?F ?t] set_takeWhileD [OF nth_mem, of j ?F ?t] by (simp add: nc_def)
  ultimately have le: "nc \<le> client_table_used pd" using not_le by blast
  then show nc: "nc < length ?t" using assms(2) by simp
  then show free: "client_state (the_client pd nc) = LDCS_CLIENT_STATUS_FREE"
    using nth_length_takeWhile [of ?F ?t] by (simp add: nc_def the_client_def)
  have t: "?t = take nc ?t @ ?t ! nc # drop (Suc nc) ?t" using nc by (rule id_take_nth_drop)
  have u: "?t[nc := ?c] = take nc ?t @ ?c # drop (Suc nc) ?t" using nc by (rule upd_conv_take_nth_drop)
  have "length (filter ?A ?t) = length (filter ?A (take nc ?t)) + length (filter ?A (drop (Suc nc) ?t))"
    using free by (subst t) (simp add: the_client_def)
  moreover have "length (filter ?A (?t[nc := ?c])) = Suc (length (filter ?A (take nc ?t)) + length (filter ?A (drop (Suc nc) ?t)))"
    by (subst u) (simp add: new_client_def)
  ultimately have "clients_live pd + 1 = length (filter ?A (?t[nc := ?c]))" using assms(1) by (simp add: clients_ok_def)
  moreover have "\<forall>c \<in> set (drop (client_table_used pd + 1) (?t[nc := ?c])). client_state c = LDCS_CLIENT_STATUS_FREE"
    using assms(1) le set_drop_subset_set_drop [of "client_table_used pd" "client_table_used pd + 1" ?t]
    by (auto simp: clients_ok_def drop_update_cancel)
  moreover have "\<forall>c \<in> set (?t[nc := ?c]). client_ok c"
    using assms(1) by (auto simp: clients_ok_def client_ok_def new_client_def dest!: subsetD [OF set_update_subset_insert])
  ultimately show "clients_ok ((set_client nc (new_client conn) pd)\<lparr>client_table_used := client_table_used pd + 1,
       client_counter := cc, clients_live := clients_live pd + 1\<rparr>)"
    using assms(2) by (simp add: clients_ok_def set_client_def)
qed

lemma server_ok_end:
  assumes "server_ok pd" and "nc < length (client_table pd)" and "handle_client_end nc pd = Some (r, pd')"
  shows "server_ok pd'"
proof (cases "client_ready (the_client pd nc)")
  case True
  let ?p = "crash_free_client_stash nc pd"
  have "steps pd ?p" unfolding crash_free_client_stash_def by (rule set_client_steps) (auto simp: client_ok_def)
  then have p: "server_ok ?p" "length (client_table ?p) = length (client_table pd)" "clients_live ?p = clients_live pd"
    using assms(1) by (auto simp: steps_def dest: map_eq_imp_length_eq)
  have "client_state (the_client ?p nc) = LDCS_CLIENT_STATUS_ACTIVE"
    using True assms(2) by (simp add: client_ready_def crash_free_client_stash_def set_client_def the_client_def)
  then have "clients_ok ((set_client nc (\<lambda>c. c\<lparr>client_state := LDCS_CLIENT_STATUS_FREE\<rparr>) ?p)\<lparr>clients_live := clients_live ?p - 1\<rparr>)"
    using clients_ok_end(2) [of ?p nc] p assms(2) by (simp add: server_ok_def)
  then have "server_ok ((set_client nc (\<lambda>c. c\<lparr>client_state := LDCS_CLIENT_STATUS_FREE\<rparr>) ?p)\<lparr>clients_live := clients_live pd - 1\<rparr>)"
    using p(1,3) by (simp add: server_ok_def) (simp add: tables_ok_def requests_ok_def flag_ok_def set_client_def)
  moreover have "handle_send_exit_ready_if_done q = Some (r, pd') \<Longrightarrow> server_ok q \<Longrightarrow> server_ok pd'" for q
    using postD [OF stepping_exit_ready [OF steps_refl]] by (auto simp: steps_def)
  ultimately show ?thesis
    using assms(3) True p(3) by (auto simp: handle_client_end_def Let_def set_client_def split: if_splits)
qed (use assms in \<open>simp add: handle_client_end_def\<close>)

lemma server_ok_accept:
  assumes "server_ok pd"
  shows "\<exists>nc p. accept_client conn pd = handle_client_start p \<and> server_ok p \<and>
    client_state (the_client (grow_client_table pd) nc) = LDCS_CLIENT_STATUS_FREE \<and>
    p = (set_client nc (new_client conn) (grow_client_table pd))\<lparr>client_table_used := client_table_used pd + 1,
       client_counter := client_counter pd + 1, clients_live := clients_live pd + 1\<rparr>"
proof -
  let ?g = "grow_client_table pd"
  have g: "clients_ok ?g" "client_table_used ?g < length (client_table ?g)"
    using assms clients_ok_grow by (simp_all add: server_ok_def)
  note n = clients_ok_new [OF g]
  have same: "client_table_used ?g = client_table_used pd" "client_counter ?g = client_counter pd" "clients_live ?g = clients_live pd"
    "tables_ok ?g = tables_ok pd" "requests_ok ?g = requests_ok pd" "flag_ok ?g = flag_ok pd"
    by (simp_all add: grow_client_table_def tables_ok_def requests_ok_def flag_ok_def)
  let ?nc = "length (takeWhile (\<lambda>c. client_state c \<noteq> LDCS_CLIENT_STATUS_FREE) (client_table ?g))"
  let ?p = "(set_client ?nc (new_client conn) ?g)\<lparr>client_table_used := client_table_used pd + 1,
       client_counter := client_counter pd + 1, clients_live := clients_live pd + 1\<rparr>"
  have "tables_ok ?p = tables_ok ?g" "requests_ok ?p = requests_ok ?g" "flag_ok ?p = flag_ok ?g"
    by (simp_all add: tables_ok_def requests_ok_def flag_ok_def set_client_def)
  then have "server_ok ?p" using n(3) [where conn = conn and cc = "client_counter pd + 1"] assms same by (simp add: server_ok_def)
  moreover have "accept_client conn pd = handle_client_start ?p"
    using n(1) same by (simp add: accept_client_def Let_def)
  ultimately show ?thesis using n(2) by blast
qed

section \<open>Reachable states\<close>

lemma started_ok: "ldcs_audit_server_process args = Some pd \<Longrightarrow> server_ok pd"
  by (auto simp: ldcs_audit_server_process_def start_state_def server_ok_unfold new_requestor_list_ok not_waiting_def
      peer_requested_iff reqs.lookup_new split: if_splits)

lemma server_ok_step:
  assumes "server_step env pd pd'" and "server_ok pd"
  shows "server_ok pd'"
  using assms(1)
proof cases
  case (client_message nc msg r)
  show ?thesis
  proof (cases "msg_type (msg_header msg) = LDCS_MSG_END")
    case True
    with client_message have "handle_client_end nc pd = Some (r, pd')" by (simp add: handle_client_message_def)
    with server_ok_end assms(2) client_message(1) show ?thesis by blast
  next
    case False
    then show ?thesis using postD [OF stepping_client_message [OF False steps_refl] client_message(3)] assms(2) by (simp add: steps_def)
  qed
next
  case (server_message n msg r)
  then show ?thesis using postD [OF stepping_server_message [OF _ steps_refl] server_message] assms(2) by (simp add: steps_def)
next
  case (new_client conn r)
  then obtain p where "handle_client_start p = Some (r, pd')" "server_ok p" using server_ok_accept [OF assms(2)] by metis
  then show ?thesis using postD [OF stepping_exit(3) [OF steps_refl]] by (auto simp: steps_def)
next
  case (server_error n r)
  then show ?thesis using postD [OF stepping_exit(6) [OF steps_refl]] assms(2) by (auto simp: steps_def)
next
  case (exit_note r)
  then show ?thesis using postD [OF stepping_exit(4) [OF steps_refl]] assms(2) by (auto simp: steps_def)
next
  case (client_close r)
  then show ?thesis using postD [OF stepping_exit(5) [OF steps_refl]] assms(2) by (auto simp: steps_def)
next
  case flush
  then show ?thesis using assms(2) by simp
qed

lemma reachable_ok: "reachable env pd \<Longrightarrow> server_ok pd"
  by (induction rule: reachable.induct) (auto intro: started_ok server_ok_step)



end
