(* ===== verification/Crash_Spec.thy ===== *)
theory Crash_Spec
  imports Main
begin

text \<open>
  What the servers promise about core dumps, for one crash site: a tree of servers in which each
  server passes the first report of the site on to its parent and answers every other report
  with -1; the root selects the first report that it gets. Server 0 is the root. \<open>claim\<close> is the
  rank of the first report that a server has seen.
\<close>

datatype site_waiter = Local_Client nat int | Child_Server nat

datatype site_status = Unknown | Waiting site_waiter | Decided

record site_state =
  status :: "nat \<Rightarrow> site_status"
  claim :: "nat \<Rightarrow> int"
  up :: "nat \<Rightarrow> int list"
  down :: "nat \<Rightarrow> int list"
  asked :: "nat \<times> nat \<rightharpoonup> int"
  answers :: "nat \<times> nat \<Rightarrow> int list"

definition tell :: "nat \<Rightarrow> site_waiter \<Rightarrow> int \<Rightarrow> site_state \<Rightarrow> site_state" where
  "tell s w x A = (case w of
     Local_Client nc _ \<Rightarrow> A\<lparr>answers := (answers A)((s, nc) := answers A (s, nc) @ [x])\<rparr>
   | Child_Server c \<Rightarrow> A\<lparr>down := (down A)(c := down A c @ [x])\<rparr>)"

definition take_report :: "nat \<Rightarrow> site_waiter \<Rightarrow> int \<Rightarrow> site_state \<Rightarrow> site_state" where
  "take_report s w r A =
     (if status A s = Unknown then
        let A = A\<lparr>claim := (claim A)(s := r)\<rparr>
        in if s = 0 then tell s w r (A\<lparr>status := (status A)(s := Decided)\<rparr>)
           else A\<lparr>status := (status A)(s := Waiting w), up := (up A)(s := up A s @ [r])\<rparr>
      else tell s w (-1) A)"

inductive site_step :: "(nat \<Rightarrow> nat) \<Rightarrow> nat \<Rightarrow> site_state \<Rightarrow> site_state \<Rightarrow> bool" for par n where
  report: "s < n \<Longrightarrow> asked A (s, nc) = None \<Longrightarrow> r \<noteq> -1 \<Longrightarrow>
    site_step par n A (take_report s (Local_Client nc r) r (A\<lparr>asked := (asked A)((s, nc) \<mapsto> r)\<rparr>))"
| upwards: "0 < c \<Longrightarrow> c < n \<Longrightarrow> up A c = r # rs \<Longrightarrow>
    site_step par n A (take_report (par c) (Child_Server c) r (A\<lparr>up := (up A)(c := rs)\<rparr>))"
| downwards: "0 < c \<Longrightarrow> c < n \<Longrightarrow> down A c = x # xs \<Longrightarrow> status A c = Waiting w \<Longrightarrow>
    site_step par n A (tell c w x (A\<lparr>status := (status A)(c := Decided), down := (down A)(c := xs)\<rparr>))"

definition site_start :: site_state where
  "site_start = \<lparr>status = (\<lambda>_. Unknown), claim = (\<lambda>_. 0), up = (\<lambda>_. []), down = (\<lambda>_. []), asked = Map.empty, answers = (\<lambda>_. [])\<rparr>"

inductive site_reachable :: "(nat \<Rightarrow> nat) \<Rightarrow> nat \<Rightarrow> site_state \<Rightarrow> bool" for par n where
  start: "site_reachable par n site_start"
| step: "site_reachable par n A \<Longrightarrow> site_step par n A A' \<Longrightarrow> site_reachable par n A'"

section \<open>Invariants\<close>

definition tree :: "(nat \<Rightarrow> nat) \<Rightarrow> nat \<Rightarrow> bool" where
  "tree par n \<longleftrightarrow> 0 < n \<and> (\<forall>c. 0 < c \<longrightarrow> c < n \<longrightarrow> par c < c)"

text \<open>A waiting server has exactly one question or answer under way: in its channel to the
  parent, at the parent, or in the channel back.\<close>

definition asked_parent :: "(nat \<Rightarrow> nat) \<Rightarrow> site_state \<Rightarrow> nat \<Rightarrow> bool" where
  "asked_parent par A c \<longleftrightarrow> status A (par c) = Waiting (Child_Server c)"

definition channel_ok :: "(nat \<Rightarrow> nat) \<Rightarrow> site_state \<Rightarrow> nat \<Rightarrow> bool" where
  "channel_ok par A c \<longleftrightarrow>
     (case status A c of
        Waiting w \<Rightarrow>
          (up A c = [claim A c] \<and> down A c = [] \<and> \<not> asked_parent par A c) \<or>
          (up A c = [] \<and> down A c = [] \<and> asked_parent par A c \<and> claim A (par c) = claim A c) \<or>
          (up A c = [] \<and> (down A c = [claim A c] \<or> down A c = [-1]) \<and> \<not> asked_parent par A c)
      | _ \<Rightarrow> up A c = [] \<and> down A c = [] \<and> \<not> asked_parent par A c)"

definition waiter_ok :: "(nat \<Rightarrow> nat) \<Rightarrow> nat \<Rightarrow> site_state \<Rightarrow> nat \<Rightarrow> bool" where
  "waiter_ok par n A s \<longleftrightarrow>
     (case status A s of
        Waiting (Local_Client nc r) \<Rightarrow> asked A (s, nc) = Some r \<and> claim A s = r \<and> answers A (s, nc) = []
      | Waiting (Child_Server c) \<Rightarrow> 0 < c \<and> c < n \<and> par c = s
      | _ \<Rightarrow> True)"

definition client_answers_ok :: "site_state \<Rightarrow> nat \<Rightarrow> nat \<Rightarrow> bool" where
  "client_answers_ok A s nc \<longleftrightarrow>
     (case asked A (s, nc) of
        None \<Rightarrow> answers A (s, nc) = []
      | Some r \<Rightarrow> r \<noteq> -1 \<and> status A s \<noteq> Unknown \<and>
          (status A s = Waiting (Local_Client nc r) \<and> answers A (s, nc) = [] \<or>
           answers A (s, nc) = [-1] \<or> answers A (s, nc) = [r]))"

definition selected :: "site_state \<Rightarrow> (nat \<times> nat) set" where
  "selected A = {p. \<exists>x \<in> set (answers A p). x \<noteq> -1}"

definition selecting :: "site_state \<Rightarrow> nat set" where
  "selecting A = {c. \<exists>x \<in> set (down A c). x \<noteq> -1}"

definition one_selected :: "site_state \<Rightarrow> bool" where
  "one_selected A \<longleftrightarrow>
     (if status A 0 = Unknown then selected A = {} \<and> selecting A = {}
      else (\<exists>p. selected A = {p}) \<and> selecting A = {} \<or> selected A = {} \<and> (\<exists>c. selecting A = {c}))"

definition site_inv :: "(nat \<Rightarrow> nat) \<Rightarrow> nat \<Rightarrow> site_state \<Rightarrow> bool" where
  "site_inv par n A \<longleftrightarrow>
     (\<forall>w. status A 0 \<noteq> Waiting w) \<and>
     (\<forall>c. 0 < c \<longrightarrow> c < n \<longrightarrow> channel_ok par A c \<and> (status A c \<noteq> Unknown \<longrightarrow> up A c = [] \<longrightarrow> status A (par c) \<noteq> Unknown)) \<and>
     (\<forall>s. waiter_ok par n A s \<and> (status A s \<noteq> Unknown \<longrightarrow> claim A s \<noteq> -1)) \<and>
     (\<forall>s nc. client_answers_ok A s nc) \<and>
     (\<forall>c. \<not> (0 < c \<and> c < n) \<longrightarrow> down A c = []) \<and>
     one_selected A"

lemma site_inv_start: "site_inv par n site_start"
  by (auto simp: site_inv_def site_start_def channel_ok_def asked_parent_def waiter_ok_def client_answers_ok_def one_selected_def
      selected_def selecting_def)

lemma tell_simps [simp]:
  "status (tell s w x A) = status A" "claim (tell s w x A) = claim A" "up (tell s w x A) = up A" "asked (tell s w x A) = asked A"
  by (simp_all add: tell_def split: site_waiter.split)

lemma tell_answers: "answers (tell s w x A) = (case w of
    Local_Client nc r \<Rightarrow> (answers A)((s, nc) := answers A (s, nc) @ [x]) | Child_Server c \<Rightarrow> answers A)"
  by (simp add: tell_def split: site_waiter.split)

lemma tell_down: "down (tell s w x A) = (case w of
    Local_Client nc r \<Rightarrow> down A | Child_Server c \<Rightarrow> (down A)(c := down A c @ [x]))"
  by (simp add: tell_def split: site_waiter.split)

lemma tell_selected:
  "selected (tell s w x A) = (case w of Local_Client nc r \<Rightarrow> if x = -1 then selected A else insert (s, nc) (selected A)
     | Child_Server c \<Rightarrow> selected A)"
  "selecting (tell s w x A) = (case w of Local_Client nc r \<Rightarrow> selecting A
     | Child_Server c \<Rightarrow> if x = -1 then selecting A else insert c (selecting A))"
  by (auto simp: selected_def selecting_def tell_answers tell_down split: site_waiter.split if_splits)

lemmas site_unfold = site_inv_def channel_ok_def asked_parent_def waiter_ok_def client_answers_ok_def one_selected_def

lemma inv_report_known:
  assumes "site_inv par n A" and "asked A (s, nc) = None" and "r \<noteq> -1" and "status A s \<noteq> Unknown"
  shows "site_inv par n (tell s (Local_Client nc r) (-1) (A\<lparr>asked := (asked A)((s, nc) \<mapsto> r)\<rparr>))"
proof -
  let ?A = "tell s (Local_Client nc r) (-1) (A\<lparr>asked := (asked A)((s, nc) \<mapsto> r)\<rparr>)"
  have "channel_ok par ?A c = channel_ok par A c" for c
    by (simp add: channel_ok_def asked_parent_def tell_down split: site_status.split)
  moreover have "waiter_ok par n ?A t" if "waiter_ok par n A t" for t
    using that assms(2) by (auto simp: waiter_ok_def tell_answers split: site_status.splits site_waiter.splits)
  moreover have "client_answers_ok ?A t m" if "client_answers_ok A t m" for t m
    using that assms by (auto simp: client_answers_ok_def tell_answers split: option.splits)
  moreover have "one_selected ?A = one_selected A"
    by (simp add: one_selected_def tell_selected) (simp add: selected_def selecting_def)
  ultimately show ?thesis using assms(1) by (simp add: site_inv_def tell_down)
qed

lemma inv_report_root:
  assumes "site_inv par n A" and "asked A (0, nc) = None" and "r \<noteq> -1" and "status A 0 = Unknown"
  shows "site_inv par n (tell 0 (Local_Client nc r) r (A\<lparr>asked := (asked A)((0, nc) \<mapsto> r), claim := (claim A)(0 := r),
    status := (status A)(0 := Decided)\<rparr>))"
proof -
  let ?A = "tell 0 (Local_Client nc r) r (A\<lparr>asked := (asked A)((0, nc) \<mapsto> r), claim := (claim A)(0 := r), status := (status A)(0 := Decided)\<rparr>)"
  have "channel_ok par ?A c" if "channel_ok par A c" "0 < c" for c
    using that assms(4) by (auto simp: channel_ok_def asked_parent_def tell_down split: site_status.splits)
  moreover have "waiter_ok par n ?A t" if "waiter_ok par n A t" for t
    using that assms(2) by (auto simp: waiter_ok_def tell_answers split: site_status.splits site_waiter.splits)
  moreover have "client_answers_ok ?A t m" if "client_answers_ok A t m" for t m
    using that assms by (auto simp: client_answers_ok_def tell_answers split: option.splits)
  moreover have "one_selected ?A"
    using assms by (simp add: site_inv_def one_selected_def tell_selected) (auto simp: selected_def selecting_def)
  ultimately show ?thesis using assms(1,3) by (simp add: site_inv_def tell_down)
qed

lemma selected_update [simp]:
  "selected (A\<lparr>asked := a\<rparr>) = selected A" "selected (A\<lparr>status := st\<rparr>) = selected A" "selected (A\<lparr>claim := cl\<rparr>) = selected A"
  "selected (A\<lparr>up := u\<rparr>) = selected A" "selected (A\<lparr>down := d\<rparr>) = selected A"
  "selecting (A\<lparr>asked := a\<rparr>) = selecting A" "selecting (A\<lparr>status := st\<rparr>) = selecting A" "selecting (A\<lparr>claim := cl\<rparr>) = selecting A"
  "selecting (A\<lparr>up := u\<rparr>) = selecting A"
  by (simp_all add: selected_def selecting_def)

lemma site_invD:
  assumes "site_inv par n A"
  shows "status A 0 \<noteq> Waiting w"
    and "0 < c \<Longrightarrow> c < n \<Longrightarrow> channel_ok par A c"
    and "0 < c \<Longrightarrow> c < n \<Longrightarrow> status A c \<noteq> Unknown \<Longrightarrow> up A c = [] \<Longrightarrow> status A (par c) \<noteq> Unknown"
    and "waiter_ok par n A s" and "status A s \<noteq> Unknown \<Longrightarrow> claim A s \<noteq> -1"
    and "client_answers_ok A s nc" and "\<not> (0 < c \<and> c < n) \<Longrightarrow> down A c = []" and "one_selected A"
  using assms by (auto simp: site_inv_def)

lemma site_invI:
  assumes "\<And>w. status A 0 \<noteq> Waiting w"
    and "\<And>c. 0 < c \<Longrightarrow> c < n \<Longrightarrow> channel_ok par A c"
    and "\<And>c. 0 < c \<Longrightarrow> c < n \<Longrightarrow> status A c \<noteq> Unknown \<Longrightarrow> up A c = [] \<Longrightarrow> status A (par c) \<noteq> Unknown"
    and "\<And>s. waiter_ok par n A s" and "\<And>s. status A s \<noteq> Unknown \<Longrightarrow> claim A s \<noteq> -1"
    and "\<And>s nc. client_answers_ok A s nc" and "\<And>c. \<not> (0 < c \<and> c < n) \<Longrightarrow> down A c = []" and "one_selected A"
  shows "site_inv par n A"
  using assms by (simp add: site_inv_def)

lemma inv_report_first:
  assumes inv: "site_inv par n A" and "tree par n" and "asked A (s, nc) = None" and "r \<noteq> -1" and "status A s = Unknown" and "0 < s" "s < n"
  shows "site_inv par n (A\<lparr>asked := (asked A)((s, nc) \<mapsto> r), claim := (claim A)(s := r),
    status := (status A)(s := Waiting (Local_Client nc r)), up := (up A)(s := up A s @ [r])\<rparr>)" (is "site_inv par n ?A")
proof (rule site_invI)
  have p: "par s < s" using assms(2,6,7) by (simp add: tree_def)
  have noans: "answers A (s, nc) = []" using site_invD(6) [OF inv, of s nc] assms(3) by (simp add: client_answers_ok_def)
  fix t m
  show "status ?A 0 \<noteq> Waiting w" for w using site_invD(1) [OF inv] assms(6) by simp
  show "channel_ok par ?A c" if "0 < c" "c < n" for c
    using site_invD(2) [OF inv that] assms(5) p
    by (cases "c = s"; cases "par c = s") (auto simp: channel_ok_def asked_parent_def split: site_status.splits)
  show "status ?A (par c) \<noteq> Unknown" if "0 < c" "c < n" "status ?A c \<noteq> Unknown" "up ?A c = []" for c
    using site_invD(3) [OF inv, of c] that by (simp split: if_splits)
  show "waiter_ok par n ?A t"
    using site_invD(4) [OF inv, of t] noans assms(3,5)
    by (auto simp: waiter_ok_def split: site_status.splits site_waiter.splits)
  show "claim ?A t \<noteq> -1" if "status ?A t \<noteq> Unknown" using site_invD(5) [OF inv, of t] that assms(4) by (simp split: if_splits)
  show "client_answers_ok ?A t m"
    using site_invD(6) [OF inv, of t m] noans assms(3,4,5) by (auto simp: client_answers_ok_def split: option.splits)
  show "down ?A c = []" if "\<not> (0 < c \<and> c < n)" for c using site_invD(7) [OF inv that] by simp
  show "one_selected ?A"
    using site_invD(8) [OF inv] assms(6) by (auto simp: one_selected_def)
qed

lemma channel_up:
  assumes "channel_ok par A c" "up A c = r # rs"
  shows "rs = []" "r = claim A c" "down A c = []" "\<exists>w. status A c = Waiting w" "\<not> asked_parent par A c"
  using assms by (auto simp: channel_ok_def split: site_status.splits)

lemma channel_down:
  assumes "channel_ok par A c" "down A c = x # xs"
  shows "xs = []" "x = claim A c \<or> x = -1" "up A c = []" "\<not> asked_parent par A c"
  using assms by (auto simp: channel_ok_def split: site_status.splits)

lemma inv_up_known:
  assumes inv: "site_inv par n A" and tree: "tree par n" and c: "0 < c" "c < n" and u: "up A c = r # rs" and "status A (par c) \<noteq> Unknown"
  shows "site_inv par n (tell (par c) (Child_Server c) (-1) (A\<lparr>up := (up A)(c := rs)\<rparr>))" (is "site_inv par n ?A")
proof (rule site_invI)
  note ch = channel_up [OF site_invD(2) [OF inv c] u]
  show "status ?A 0 \<noteq> Waiting w" for w using site_invD(1) [OF inv] by simp
  show "channel_ok par ?A d" if "0 < d" "d < n" for d
    using site_invD(2) [OF inv that] ch by (cases "d = c") (auto simp: channel_ok_def asked_parent_def tell_down split: site_status.splits)
  show "status ?A (par d) \<noteq> Unknown" if "0 < d" "d < n" "status ?A d \<noteq> Unknown" "up ?A d = []" for d
    using site_invD(3) [OF inv, of d] that assms(6) by (simp split: if_splits)
  show "waiter_ok par n ?A t" for t
    using site_invD(4) [OF inv, of t] by (simp add: waiter_ok_def tell_answers split: site_status.splits site_waiter.splits)
  show "claim ?A t \<noteq> -1" if "status ?A t \<noteq> Unknown" for t using site_invD(5) [OF inv, of t] that by simp
  show "client_answers_ok ?A t m" for t m
    using site_invD(6) [OF inv, of t m] by (simp add: client_answers_ok_def tell_answers split: option.splits)
  show "down ?A d = []" if "\<not> (0 < d \<and> d < n)" for d using site_invD(7) [OF inv that] c that by (auto simp: tell_down)
  show "one_selected ?A" using site_invD(8) [OF inv] by (auto simp: one_selected_def tell_selected)
qed

lemma inv_up_root:
  assumes inv: "site_inv par n A" and tree: "tree par n" and c: "0 < c" "c < n" and u: "up A c = r # rs"
    and root: "par c = 0" "status A 0 = Unknown"
  shows "site_inv par n (tell 0 (Child_Server c) r (A\<lparr>up := (up A)(c := rs), claim := (claim A)(0 := r), status := (status A)(0 := Decided)\<rparr>))"
    (is "site_inv par n ?A")
proof (rule site_invI)
  note ch = channel_up [OF site_invD(2) [OF inv c] u]
  have r: "r \<noteq> -1" using ch(2,4) site_invD(5) [OF inv, of c] by auto
  show "status ?A 0 \<noteq> Waiting w" for w by simp
  show "channel_ok par ?A d" if "0 < d" "d < n" for d
    using site_invD(2) [OF inv that] ch c root that
    by (cases "d = c") (auto simp: channel_ok_def asked_parent_def tell_down split: site_status.splits)
  show "status ?A (par d) \<noteq> Unknown" if "0 < d" "d < n" "status ?A d \<noteq> Unknown" "up ?A d = []" for d
    using site_invD(3) [OF inv, of d] that root by (simp split: if_splits)
  show "waiter_ok par n ?A t" for t
    using site_invD(4) [OF inv, of t] by (auto simp: waiter_ok_def tell_answers split: site_status.splits site_waiter.splits)
  show "claim ?A t \<noteq> -1" if "status ?A t \<noteq> Unknown" for t using site_invD(5) [OF inv, of t] that r by (simp split: if_splits)
  show "client_answers_ok ?A t m" for t m
    using site_invD(6) [OF inv, of t m] root by (auto simp: client_answers_ok_def tell_answers split: option.splits)
  show "down ?A d = []" if "\<not> (0 < d \<and> d < n)" for d using site_invD(7) [OF inv that] c that by (auto simp: tell_down)
  show "one_selected ?A" using site_invD(8) [OF inv] root r by (simp add: one_selected_def tell_selected)
qed

lemma inv_up_first:
  assumes inv: "site_inv par n A" and tree: "tree par n" and c: "0 < c" "c < n" and u: "up A c = r # rs"
    and p: "0 < par c" "status A (par c) = Unknown"
  shows "site_inv par n (A\<lparr>claim := (claim A)(par c := r), status := (status A)(par c := Waiting (Child_Server c)),
    up := ((up A)(c := rs))(par c := up A (par c) @ [r])\<rparr>)" (is "site_inv par n ?A")
proof (rule site_invI)
  note ch = channel_up [OF site_invD(2) [OF inv c] u]
  have lt: "par c < c" using tree c by (simp add: tree_def)
  with tree c p have "par (par c) < par c" by (simp add: tree_def)
  note lt = lt this
  have r: "r \<noteq> -1" using ch(2,4) site_invD(5) [OF inv, of c] by auto
  show "status ?A 0 \<noteq> Waiting w" for w using site_invD(1) [OF inv] p by simp
  show "channel_ok par ?A d" if "0 < d" "d < n" for d
    using site_invD(2) [OF inv that] ch lt p that
    by (cases "d = c"; cases "d = par c"; cases "par d = par c") (auto simp: channel_ok_def asked_parent_def split: site_status.splits)
  show "status ?A (par d) \<noteq> Unknown" if "0 < d" "d < n" "status ?A d \<noteq> Unknown" "up ?A d = []" for d
    using site_invD(3) [OF inv, of d] that lt by (auto split: if_splits)
  show "waiter_ok par n ?A t" for t
    using site_invD(4) [OF inv, of t] c by (auto simp: waiter_ok_def split: site_status.splits site_waiter.splits)
  show "claim ?A t \<noteq> -1" if "status ?A t \<noteq> Unknown" for t using site_invD(5) [OF inv, of t] that r by (simp split: if_splits)
  show "client_answers_ok ?A t m" for t m
    using site_invD(6) [OF inv, of t m] p by (auto simp: client_answers_ok_def split: option.splits)
  show "down ?A d = []" if "\<not> (0 < d \<and> d < n)" for d using site_invD(7) [OF inv that] by simp
  show "one_selected ?A" using site_invD(8) [OF inv] p by (auto simp: one_selected_def)
qed

lemma tree_less: "tree par n \<Longrightarrow> 0 < c \<Longrightarrow> c < n \<Longrightarrow> par c < c"
  by (simp add: tree_def)

lemma selecting_taken: "selecting (A\<lparr>status := st, down := (down A)(c := [])\<rparr>) = selecting A - {c}"
  by (auto simp: selecting_def)

lemma selecting_head: "down A c = [x] \<Longrightarrow> c \<in> selecting A \<longleftrightarrow> x \<noteq> -1"
  by (auto simp: selecting_def)

lemma inv_down_local:
  assumes inv: "site_inv par n A" and c: "0 < c" "c < n" and dn: "down A c = x # xs" and st: "status A c = Waiting (Local_Client nc r)"
  shows "site_inv par n (tell c (Local_Client nc r) x (A\<lparr>status := (status A)(c := Decided), down := (down A)(c := xs)\<rparr>))"
    (is "site_inv par n ?A")
proof (rule site_invI)
  note ch = channel_down [OF site_invD(2) [OF inv c] dn]
  have w: "asked A (c, nc) = Some r" "claim A c = r" "answers A (c, nc) = []"
    using site_invD(4) [OF inv, of c] st by (simp_all add: waiter_ok_def)
  show "status ?A 0 \<noteq> Waiting v" for v using site_invD(1) [OF inv] c by simp
  show "channel_ok par ?A d" if "0 < d" "d < n" for d
    using site_invD(2) [OF inv that] ch st
    by (cases "d = c") (auto simp: channel_ok_def asked_parent_def tell_down split: site_status.splits)
  show "status ?A (par d) \<noteq> Unknown" if "0 < d" "d < n" "status ?A d \<noteq> Unknown" "up ?A d = []" for d
    using site_invD(3) [OF inv, of d] that st by (auto split: if_splits)
  show "waiter_ok par n ?A t" for t
    using site_invD(4) [OF inv, of t] by (auto simp: waiter_ok_def tell_answers split: site_status.splits site_waiter.splits)
  show "claim ?A t \<noteq> -1" if "status ?A t \<noteq> Unknown" for t using site_invD(5) [OF inv, of t] that st by (simp split: if_splits)
  show "client_answers_ok ?A t m" for t m
    using site_invD(6) [OF inv, of t m] w ch(2) st
    by (cases "t = c") (auto simp: client_answers_ok_def tell_answers split: option.splits)
  show "down ?A d = []" if "\<not> (0 < d \<and> d < n)" for d using site_invD(7) [OF inv that] c that by (auto simp: tell_down)
  have dn': "down A c = [x]" using dn ch(1) by simp
  show "one_selected ?A"
    using site_invD(8) [OF inv] c selecting_head [OF dn'] unfolding ch(1)
    by (auto simp: one_selected_def tell_selected selecting_taken split: if_splits)
qed

lemma inv_down_child:
  assumes inv: "site_inv par n A" and tree: "tree par n" and c: "0 < c" "c < n" and dn: "down A c = x # xs" and st: "status A c = Waiting (Child_Server d)"
  shows "site_inv par n (tell c (Child_Server d) x (A\<lparr>status := (status A)(c := Decided), down := (down A)(c := xs)\<rparr>))"
    (is "site_inv par n ?A")
proof (rule site_invI)
  note ch = channel_down [OF site_invD(2) [OF inv c] dn]
  have d: "0 < d" "d < n" "par d = c" using site_invD(4) [OF inv, of c] st by (simp_all add: waiter_ok_def)
  have dc: "d \<noteq> c" using tree_less [OF tree d(1,2)] d(3) by simp
  have chd: "down A d = []" "claim A c = claim A d" "\<exists>w. status A d = Waiting w" "up A d = []"
    using site_invD(2) [OF inv d(1,2)] st d(3) by (auto simp: channel_ok_def asked_parent_def split: site_status.splits)
  show "status ?A 0 \<noteq> Waiting v" for v using site_invD(1) [OF inv] c by simp
  show "channel_ok par ?A e" if "0 < e" "e < n" for e
    using site_invD(2) [OF inv that] ch st d chd dc
    by (cases "e = c"; cases "e = d") (auto simp: channel_ok_def asked_parent_def tell_down split: site_status.splits)
  show "status ?A (par e) \<noteq> Unknown" if "0 < e" "e < n" "status ?A e \<noteq> Unknown" "up ?A e = []" for e
    using site_invD(3) [OF inv, of e] that st by (auto split: if_splits)
  show "waiter_ok par n ?A t" for t
    using site_invD(4) [OF inv, of t] by (auto simp: waiter_ok_def tell_answers split: site_status.splits site_waiter.splits)
  show "claim ?A t \<noteq> -1" if "status ?A t \<noteq> Unknown" for t using site_invD(5) [OF inv, of t] that st by (simp split: if_splits)
  show "client_answers_ok ?A t m" for t m
    using site_invD(6) [OF inv, of t m] st
    by (cases "t = c") (auto simp: client_answers_ok_def tell_answers split: option.splits)
  show "down ?A e = []" if "\<not> (0 < e \<and> e < n)" for e using site_invD(7) [OF inv that] c d that by (auto simp: tell_down)
  have dn': "down A c = [x]" using dn ch(1) by simp
  show "one_selected ?A"
    using site_invD(8) [OF inv] c selecting_head [OF dn'] dc unfolding ch(1)
    by (auto simp: one_selected_def tell_selected selecting_taken split: if_splits)
qed

lemma site_inv_step:
  assumes "site_step par n A A'" and "tree par n" and "site_inv par n A"
  shows "site_inv par n A'"
  using assms
proof cases
  case (report s nc r)
  show ?thesis
  proof (cases "status A s = Unknown")
    case True
    then show ?thesis
      using report assms inv_report_root [of par n A nc r] inv_report_first [of par n A s nc r]
      by (cases "s = 0") (simp_all add: take_report_def Let_def)
  next
    case False
    then show ?thesis using report assms inv_report_known [of par n A s nc r] by (simp add: take_report_def)
  qed
next
  case (upwards c r rs)
  show ?thesis
  proof (cases "status A (par c) = Unknown")
    case True
    have "par c \<noteq> c" using tree_less [OF assms(2) upwards(2,3)] by simp
    then show ?thesis
      using True upwards assms inv_up_root [of par n A c r rs] inv_up_first [of par n A c r rs]
      by (cases "par c = 0") (simp_all add: take_report_def Let_def)
  next
    case False
    then show ?thesis using upwards assms inv_up_known [of par n A c r rs] by (simp add: take_report_def)
  qed
next
  case (downwards c x xs w)
  then show ?thesis
    using assms inv_down_local [of par n A c x xs] inv_down_child [of par n A c x xs] by (cases w) simp_all
qed

lemma site_reachable_inv: "site_reachable par n A \<Longrightarrow> tree par n \<Longrightarrow> site_inv par n A"
  by (induction rule: site_reachable.induct) (auto intro: site_inv_start site_inv_step)

section \<open>Consequences\<close>

lemma answers_bound:
  assumes "site_inv par n A"
  shows "answers A (s, nc) = [] \<or> (\<exists>r. asked A (s, nc) = Some r \<and> (answers A (s, nc) = [-1] \<or> answers A (s, nc) = [r]))"
  using site_invD(6) [OF assms, of s nc] by (auto simp: client_answers_ok_def split: option.splits)

lemma one_winner:
  assumes "site_inv par n A" and "x \<in> set (answers A p)" "x \<noteq> -1" and "y \<in> set (answers A q)" "y \<noteq> -1"
  shows "p = q"
proof -
  have "p \<in> selected A" "q \<in> selected A" using assms by (auto simp: selected_def)
  then show ?thesis using site_invD(8) [OF assms(1)] by (auto simp: one_selected_def split: if_splits)
qed

definition quiet :: "nat \<Rightarrow> site_state \<Rightarrow> bool" where
  "quiet n A \<longleftrightarrow> (\<forall>c. 0 < c \<longrightarrow> c < n \<longrightarrow> up A c = [] \<and> down A c = [])"

lemma quiet_not_waiting:
  assumes inv: "site_inv par n A" and tree: "tree par n" and quiet: "quiet n A"
  shows "c < n \<Longrightarrow> status A c \<noteq> Waiting w"
proof (induction c arbitrary: w rule: less_induct)
  case (less c)
  show ?case
  proof (cases "c = 0")
    case False
    then have "par c < c" using tree less.prems by (simp add: tree_def)
    then have "\<not> asked_parent par A c" using less by (simp add: asked_parent_def)
    then show ?thesis using site_invD(2) [OF inv, of c] False less.prems quiet by (auto simp: channel_ok_def quiet_def)
  qed (simp add: site_invD(1) [OF inv])
qed

lemma quiet_root_knows:
  assumes inv: "site_inv par n A" and tree: "tree par n" and quiet: "quiet n A"
  shows "c < n \<Longrightarrow> status A c \<noteq> Unknown \<Longrightarrow> status A 0 \<noteq> Unknown"
proof (induction c rule: less_induct)
  case (less c)
  show ?case
  proof (cases "c = 0")
    case False
    then have "par c < c" using tree less.prems by (simp add: tree_def)
    moreover have "status A (par c) \<noteq> Unknown"
      using site_invD(3) [OF inv] False less.prems quiet by (simp add: quiet_def)
    ultimately show ?thesis using less by simp
  qed (use less in simp)
qed

lemma quiet_answered:
  assumes inv: "site_inv par n A" and tree: "tree par n" and quiet: "quiet n A" and s: "s < n" and asked: "asked A (s, nc) = Some r"
  shows "\<exists>t m v. asked A (t, m) = Some v \<and> answers A (t, m) = [v] \<and>
    (\<forall>p u. fst p < n \<longrightarrow> asked A p = Some u \<longrightarrow> p \<noteq> (t, m) \<longrightarrow> answers A p = [-1])"
proof -
  have "status A s \<noteq> Unknown" using site_invD(6) [OF inv, of s nc] asked by (simp add: client_answers_ok_def)
  then have "status A 0 \<noteq> Unknown" using quiet_root_knows [OF inv tree quiet s] by simp
  moreover have "selecting A = {}"
  proof -
    have "down A c = []" for c using quiet site_invD(7) [OF inv] by (cases "0 < c \<and> c < n") (auto simp: quiet_def)
    then show ?thesis by (simp add: selecting_def)
  qed
  ultimately obtain t m where sel: "selected A = {(t, m)}" using site_invD(8) [OF inv] by (auto simp: one_selected_def)
  then obtain v where "v \<in> set (answers A (t, m))" "v \<noteq> -1" by (auto simp: selected_def)
  then have win: "asked A (t, m) = Some v" "answers A (t, m) = [v]" using answers_bound [OF inv, of t m] by auto
  have "answers A (a, b) = [-1]" if "a < n" "asked A (a, b) = Some u" "(a, b) \<noteq> (t, m)" for a b u
  proof -
    have "u \<noteq> -1 \<and> (answers A (a, b) = [-1] \<or> answers A (a, b) = [u])"
      using site_invD(6) [OF inv, of a b] quiet_not_waiting [OF inv tree quiet that(1)] that(2)
      by (auto simp: client_answers_ok_def)
    moreover have "(a, b) \<notin> selected A" using that(3) sel by simp
    ultimately show ?thesis by (auto simp: selected_def)
  qed
  then have "\<forall>p u. fst p < n \<longrightarrow> asked A p = Some u \<longrightarrow> p \<noteq> (t, m) \<longrightarrow> answers A p = [-1]" by auto
  with win show ?thesis by blast
qed

lemma take_report_asked [simp]: "asked (take_report s w r A) = asked A"
  by (simp add: take_report_def Let_def)

lemma asked_member: "site_reachable par n A \<Longrightarrow> asked A p \<noteq> None \<Longrightarrow> fst p < n"
proof (induction rule: site_reachable.induct)
  case (step A A')
  from step(2) show ?case by cases (use step in \<open>auto split: if_splits\<close>)
qed (simp add: site_start_def)

lemma unasked_start: "site_reachable par n A \<Longrightarrow> asked A = Map.empty \<Longrightarrow> A = site_start"
proof (induction rule: site_reachable.induct)
  case (step A A')
  from step(2) show ?case
  proof cases
    case (report s nc r)
    then have "asked A' (s, nc) = Some r" by simp
    then show ?thesis using step(4) by simp
  next
    case (upwards c r rs)
    then have "A = site_start" using step by simp
    then show ?thesis using upwards by (simp add: site_start_def)
  next
    case (downwards c x xs w)
    then have "A = site_start" using step by simp
    then show ?thesis using downwards by (simp add: site_start_def)
  qed
qed simp

section \<open>Delivery ends\<close>

definition weight :: "site_state \<Rightarrow> nat \<Rightarrow> nat" where
  "weight A c = (case status A c of Unknown \<Rightarrow> 3 | Waiting w \<Rightarrow> if up A c = [] then 1 else 2 | Decided \<Rightarrow> 0)"

definition effort :: "nat \<Rightarrow> site_state \<Rightarrow> nat" where
  "effort n A = (\<Sum>c<n. weight A c)"

lemma effort_bound: "effort n A \<le> 3 * n"
proof -
  have "weight A c \<le> 3" for c by (simp add: weight_def split: site_status.split)
  then show ?thesis using sum_bounded_above [of "{..<n}" "weight A" 3] by (simp add: effort_def)
qed

lemma effort_less:
  assumes "c < n" "weight A' c < weight A c" and "\<And>d. d \<noteq> c \<Longrightarrow> weight A' d \<le> weight A d"
  shows "effort n A' < effort n A"
proof -
  have "weight A' d \<le> weight A d" for d using assms(2,3) by (cases "d = c") simp_all
  then show ?thesis unfolding effort_def using assms(1,2) by (intro sum_strict_mono_ex1) auto
qed

lemma effort_step:
  assumes inv: "site_inv par n A" and tree: "tree par n" and c: "0 < c" "c < n"
  shows "up A c = r # rs \<Longrightarrow> effort n (take_report (par c) (Child_Server c) r (A\<lparr>up := (up A)(c := rs)\<rparr>)) < effort n A"
    and "down A c = x # xs \<Longrightarrow> status A c = Waiting w \<Longrightarrow>
      effort n (tell c w x (A\<lparr>status := (status A)(c := Decided), down := (down A)(c := xs)\<rparr>)) < effort n A"
proof -
  assume u: "up A c = r # rs"
  have "par c < c" by (rule tree_less [OF tree c])
  then show "effort n (take_report (par c) (Child_Server c) r (A\<lparr>up := (up A)(c := rs)\<rparr>)) < effort n A"
    using channel_up [OF site_invD(2) [OF inv c] u] c u
    by (intro effort_less [of c]) (auto simp: weight_def take_report_def Let_def split: site_status.splits if_splits)
next
  assume "down A c = x # xs" "status A c = Waiting w"
  then show "effort n (tell c w x (A\<lparr>status := (status A)(c := Decided), down := (down A)(c := xs)\<rparr>)) < effort n A"
    using c by (intro effort_less [of c]) (auto simp: weight_def split: site_status.splits)
qed

end
