(* ===== verification/Crash_Net.thy ===== *)
theory Crash_Net
  imports Handlers_Net Crash_Spec "HOL-Library.Multiset"
begin

text \<open>
  The crash handlers of a tree of servers, connected by FIFO channels. A step is a message of a
  client or the delivery of a message between two servers, handled by the dispatchers of
  \<open>Handlers_Net\<close>; what a handler sends is appended to the channels. The steps simulate the
  abstract machine of \<open>Crash_Spec\<close> for every crash site.
\<close>

section \<open>Packets\<close>

definition i32 :: "int \<Rightarrow> bool" where
  "i32 i \<longleftrightarrow> - (2 ^ 31) \<le> i \<and> i < 2 ^ 31"

lemma le_val_bound: "le_val bs < 256 ^ length bs"
proof (induction bs)
  case (Cons b bs)
  have sum: "a < 256 \<Longrightarrow> 256 * (v + 1) \<le> y \<Longrightarrow> a + 256 * v < y" for a v y :: nat by simp
  have "of_char b < (256::nat)" by (metis of_char_mod_256 mod_less_divisor zero_less_numeral)
  moreover from Cons have "256 * (le_val bs + 1) \<le> 256 * 256 ^ length bs" by (intro mult_left_mono) auto
  ultimately show ?case unfolding le_val.simps list.size add_Suc_right add_0_right power_Suc by (rule sum)
qed simp

lemma i32_get_i32 [simp]: "i32 (get_i32 bs)"
proof -
  have "get_u32 bs < 256 ^ length (take 4 bs)" unfolding get_u32_def by (rule le_val_bound)
  also have "\<dots> \<le> 256 ^ 4" by (intro power_increasing) auto
  finally show ?thesis by (simp add: i32_def get_i32_def Let_def)
qed

lemma get_put_i32': "i32 i \<Longrightarrow> get_i32 (put_i32 i @ rest) = i" "i32 i \<Longrightarrow> get_i32 (put_i32 i) = i"
  using get_put_i32 [of i "[]"] by (simp_all add: i32_def codec_simps)

definition key_ok :: "byte list \<Rightarrow> bool" where
  "key_ok k \<longleftrightarrow> 0 < length k \<and> length k < 2 ^ 30"

definition corepath_ok :: "string option \<Rightarrow> bool" where
  "corepath_ok cp \<longleftrightarrow> (case cp of None \<Rightarrow> True | Some c \<Rightarrow> nul_free c \<and> length c < 2 ^ 30)"

definition report_msg :: "int \<Rightarrow> int \<Rightarrow> byte list \<Rightarrow> string option \<Rightarrow> ldcs_message_t" where
  "report_msg r d k cp = mk_msg LDCS_MSG_CRASH_REPORT (crash_pack_report r d k cp)"

definition response_msg :: "int \<Rightarrow> byte list \<Rightarrow> ldcs_message_t" where
  "response_msg x k = mk_msg LDCS_MSG_CRASH_RESPONSE (crash_pack x k)"

lemma i32_nat: "n < 2 ^ 31 \<Longrightarrow> i32 (int n)"
  by (simp add: i32_def)

lemma parse_report_msg:
  assumes "i32 r" "i32 d" "key_ok k" "corepath_ok cp"
  shows "crash_parse_report (report_msg r d k cp) = Some (r, d, k, cp)"
proof (cases cp)
  case None
  have "i32 (int (length k))" "i32 0" using assms(3) by (simp_all add: key_ok_def i32_def)
  with assms None show ?thesis
    by (simp add: crash_parse_report_def report_msg_def crash_pack_report_def get_put_i32' key_ok_def Let_def)
next
  case (Some c)
  have "i32 (int (length k))" "i32 (int (length c + 1))" using assms(3,4) Some by (simp_all add: key_ok_def i32_def corepath_ok_def)
  with assms Some show ?thesis
    by (simp add: crash_parse_report_def report_msg_def crash_pack_report_def get_put_i32' key_ok_def Let_def corepath_ok_def codec_simps)
      (simp add: cstr_def nth_append)
qed

lemma parse_response_msg:
  assumes "i32 x" "key_ok k"
  shows "crash_parse_response (response_msg x k) = Some (x, k)"
proof -
  have "i32 (int (length k))" using assms(2) by (simp add: key_ok_def i32_def)
  with assms show ?thesis by (simp add: crash_parse_response_def response_msg_def crash_pack_def get_put_i32' key_ok_def Let_def)
qed

section \<open>Rows of the log\<close>

definition row_ok :: "crash_log_rank_t \<Rightarrow> bool" where
  "row_ok r \<longleftrightarrow> i32 (row_rank r) \<and> i32 (row_pid r) \<and> - (2 ^ 63) \<le> row_timestamp r \<and> row_timestamp r < 2 ^ 63 \<and>
     length (row_hostname r) < 2 ^ 30"

definition log_msg :: "byte list \<Rightarrow> crash_log_rank_t \<Rightarrow> ldcs_message_t" where
  "log_msg k row = mk_msg LDCS_MSG_CRASH_LOG (put_i32 1 @ put_i32 (int (length k)) @ k @ put_i32 (-1) @ put_i32 1 @ crash_log_row_pack row)"

lemma get_put_i64: "- (2 ^ 63) \<le> t \<Longrightarrow> t < 2 ^ 63 \<Longrightarrow> get_i64 (put_u64 (nat (t mod 2 ^ 64)) @ rest) = t"
proof -
  assume t: "- (2 ^ 63) \<le> t" "t < (2 ^ 63 :: int)"
  have "get_u64 (put_u64 (nat (t mod 2 ^ 64)) @ rest) = nat (t mod 2 ^ 64)"
    by (rule get_put_u64) (simp add: nat_less_iff)
  then have n: "int (get_u64 (put_u64 (nat (t mod 2 ^ 64)) @ rest)) = t mod 2 ^ 64" by simp
  show ?thesis
  proof (cases "0 \<le> t")
    case True
    with t have "t mod 2 ^ 64 = t" by simp
    with n t show ?thesis by (simp add: get_i64_def)
  next
    case False
    with t have "(t + 2 ^ 64) mod 2 ^ 64 = t + 2 ^ 64" by (intro mod_pos_pos_trivial) auto
    then have "t mod 2 ^ 64 = t + 2 ^ 64" by simp
    with n t False show ?thesis by (simp add: get_i64_def)
  qed
qed

lemma parse_row:
  assumes "row_ok r"
  shows "crash_log_parse_row (crash_log_row_pack r) = Some (r, [])"
proof -
  have "i32 (int (length (row_hostname r)))" using assms by (simp add: row_ok_def i32_def)
  moreover have "get_i64 (put_u64 (nat (row_timestamp r mod 2 ^ 64)) @ rest) = row_timestamp r" for rest
    using assms by (intro get_put_i64) (simp_all add: row_ok_def)
  ultimately show ?thesis
    using assms unfolding crash_log_parse_row_def crash_log_row_pack_def Let_def by (simp add: get_put_i32' row_ok_def)
qed

lemma parse_log_entry:
  assumes "key_ok k" "row_ok r"
  shows "crash_log_parse_entry (put_i32 (int (length k)) @ k @ put_i32 (-1) @ put_i32 1 @ crash_log_row_pack r) =
    Some (\<lparr>ent_site = k, ent_exemplar = -1, ent_rows = [r]\<rparr>, [])"
proof -
  have "i32 (int (length k))" "i32 (-1)" "i32 1" using assms(1) by (simp_all add: key_ok_def i32_def)
  with assms show ?thesis
    by (simp add: crash_log_parse_entry_def get_put_i32' key_ok_def Let_def parse_row)
qed

section \<open>The table of sites\<close>

definition the_site :: "crash_site_entry_t list \<Rightarrow> byte list \<Rightarrow> crash_site_entry_t option" where
  "the_site sites k = find (\<lambda>e. site e = k) sites"

lemma crash_site_find_Cons: "crash_site_find (e # es) k = (if site e = k then Some 0 else map_option Suc (crash_site_find es k))"
  by (simp add: crash_site_find_def Let_def)

lemma the_site_find:
  "crash_site_find sites k = None \<longleftrightarrow> the_site sites k = None"
  "crash_site_find sites k = Some i \<Longrightarrow> i < length sites \<and> the_site sites k = Some (sites ! i) \<and> site (sites ! i) = k"
proof -
  show "crash_site_find sites k = None \<longleftrightarrow> the_site sites k = None"
    by (induction sites) (simp_all add: crash_site_find_Cons the_site_def, simp_all add: crash_site_find_def)
  show "crash_site_find sites k = Some i \<Longrightarrow> i < length sites \<and> the_site sites k = Some (sites ! i) \<and> site (sites ! i) = k"
  proof (induction sites arbitrary: i)
    case (Cons e es)
    then show ?case by (auto simp: crash_site_find_Cons the_site_def split: if_splits)
  qed (simp add: crash_site_find_def)
qed

lemma the_site_append: "the_site (sites @ [e]) k = (case the_site sites k of None \<Rightarrow> if site e = k then Some e else None | Some e' \<Rightarrow> Some e')"
  by (induction sites) (simp_all add: the_site_def)

lemma the_site_update:
  assumes "crash_site_find sites k = Some i" and "\<And>e. site (f e) = site e"
  shows "the_site (sites[i := f (sites ! i)]) k' = (if k' = k then Some (f (sites ! i)) else the_site sites k')"
  using assms(1)
proof (induction sites arbitrary: i)
  case (Cons e es)
  then show ?case using assms(2) by (cases i) (auto simp: crash_site_find_Cons the_site_def split: if_splits)
qed (simp add: crash_site_find_def)

lemma crash_site_find_new: "crash_site_find sites k = None \<Longrightarrow> site e = k \<Longrightarrow> crash_site_find (sites @ [e]) k = Some (length sites)"
  by (induction sites) (auto simp: crash_site_find_Cons split: if_splits)

lemma crash_site_find_update: "(\<And>e. site (f e) = site e) \<Longrightarrow> crash_site_find (sites[i := f (sites ! i)]) k = crash_site_find sites k"
proof (induction sites arbitrary: i)
  case (Cons e es)
  then show ?case by (cases i) (simp_all add: crash_site_find_Cons)
qed simp

text \<open>What a server knows about a site.\<close>

definition waiter_of :: "crash_waiter_t \<Rightarrow> site_waiter" where
  "waiter_of w = (case w_kind w of
     CRASH_WAITER_LOCAL \<Rightarrow> Local_Client (nat (w_nc w)) (w_global_rank w)
   | CRASH_WAITER_CHILD \<Rightarrow> Child_Server (case w_peer w of Peer c \<Rightarrow> c | _ \<Rightarrow> 0))"

definition status_of :: "ldcs_process_data_t \<Rightarrow> byte list \<Rightarrow> site_status" where
  "status_of pd k = (case the_site (crash_sites pd) k of
     None \<Rightarrow> Unknown
   | Some e \<Rightarrow> if resolved e then Decided else Waiting (waiter_of (waiter e)))"

section \<open>Servers and channels\<close>

record crash_net =
  srv :: "nat \<Rightarrow> ldcs_process_data_t"
  chan_up :: "nat \<Rightarrow> ldcs_message_t list"
  chan_down :: "nat \<Rightarrow> ldcs_message_t list"
  reported :: "nat \<times> nat \<rightharpoonup> byte list \<times> int"
  logged :: "(byte list \<times> crash_log_rank_t) list"

text \<open>The messages that a handler has sent to a destination.\<close>

definition newly_sent :: "ldcs_process_data_t \<Rightarrow> ldcs_process_data_t \<Rightarrow> node_peer_t \<Rightarrow> ldcs_message_t list" where
  "newly_sent pd pd' d = drop (length (sent_stream (msgbundle pd) d)) (sent_stream (msgbundle pd') d)"

definition is_child :: "(nat \<Rightarrow> nat) \<Rightarrow> nat \<Rightarrow> nat \<Rightarrow> nat \<Rightarrow> bool" where
  "is_child par n s c \<longleftrightarrow> 0 < c \<and> c < n \<and> par c = s"

definition moved :: "(nat \<Rightarrow> nat) \<Rightarrow> nat \<Rightarrow> nat \<Rightarrow> ldcs_process_data_t \<Rightarrow> crash_net \<Rightarrow> crash_net" where
  "moved par n s pd' C = C\<lparr>
     srv := (srv C)(s := pd'),
     chan_up := (chan_up C)(s := chan_up C s @ newly_sent (srv C s) pd' PARENT),
     chan_down := (\<lambda>c. chan_down C c @ (if is_child par n s c then newly_sent (srv C s) pd' (Peer c) else []))\<rparr>"

text \<open>A report of a client: a rank other than -1, a site, and the strings that were sent ahead of
  it, within the sizes that the packets can express.\<close>

definition crash_key :: "env_t \<Rightarrow> ldcs_process_data_t \<Rightarrow> nat \<Rightarrow> ldcs_message_t \<Rightarrow> (byte list \<times> int \<times> crash_log_rank_t) option" where
  "crash_key env pd nc m = do {
     (r, d, s, _) \<leftarrow> crash_parse_report m;
     exe \<leftarrow> crash_exe (the_client pd nc);
     key \<leftarrow> crash_build_key pd exe s;
     Some (key, r, \<lparr>row_rank = d, row_pid = remote_pid (the_client pd nc), row_timestamp = env_time env,
       row_hostname = hostname pd\<rparr>)
   }"

definition reporting :: "ldcs_process_data_t \<Rightarrow> env_t \<Rightarrow> nat \<Rightarrow> ldcs_message_t \<Rightarrow> byte list \<Rightarrow> int \<Rightarrow> crash_log_rank_t \<Rightarrow> bool" where
  "reporting pd env nc m key r row \<longleftrightarrow>
     msg_type (msg_header m) = LDCS_MSG_CRASH_REPORT \<and>
     crash_key env pd nc m = Some (key, r, row) \<and>
     r \<noteq> -1 \<and> key_ok key \<and> corepath_ok (crash_corepath (the_client pd nc)) \<and> row_ok row \<and>
     nc < length (client_table pd) \<and> client_state (the_client pd nc) = LDCS_CLIENT_STATUS_ACTIVE \<and> 0 \<le> connid (the_client pd nc)"

definition note_report :: "nat \<Rightarrow> nat \<Rightarrow> byte list \<Rightarrow> int \<Rightarrow> crash_log_rank_t \<Rightarrow> crash_net \<Rightarrow> crash_net" where
  "note_report s nc key r row C = C\<lparr>reported := (reported C)((s, nc) \<mapsto> (key, r)),
     logged := logged C @ (if bit (opts (srv C s)) OPT_CRASH_LOG then [(key, row)] else [])\<rparr>"

inductive deliver_step :: "(nat \<Rightarrow> nat) \<Rightarrow> nat \<Rightarrow> crash_net \<Rightarrow> crash_net \<Rightarrow> bool" for par n where
  deliver_up: "0 < c \<Longrightarrow> c < n \<Longrightarrow> chan_up C c = m # ms \<Longrightarrow>
    handle_server_message depth env (Peer c) m (srv C (par c)) = Some (res, pd') \<Longrightarrow>
    deliver_step par n C (moved par n (par c) pd' (C\<lparr>chan_up := (chan_up C)(c := ms)\<rparr>))"
| deliver_down: "0 < c \<Longrightarrow> c < n \<Longrightarrow> chan_down C c = m # ms \<Longrightarrow>
    handle_server_message depth env (Peer (par c)) m (srv C c) = Some (res, pd') \<Longrightarrow>
    deliver_step par n C (moved par n c pd' (C\<lparr>chan_down := (chan_down C)(c := ms)\<rparr>))"

inductive crash_step :: "(nat \<Rightarrow> nat) \<Rightarrow> nat \<Rightarrow> crash_net \<Rightarrow> crash_net \<Rightarrow> bool" for par n where
  client_string: "s < n \<Longrightarrow> msg_type (msg_header m) \<in> {LDCS_MSG_CRASH_EXE, LDCS_MSG_CRASH_COREPATH} \<Longrightarrow>
    handle_client_message env nc m (srv C s) = Some (res, pd') \<Longrightarrow> crash_step par n C (moved par n s pd' C)"
| client_report: "s < n \<Longrightarrow> reported C (s, nc) = None \<Longrightarrow> reporting (srv C s) env nc m key r row \<Longrightarrow>
    handle_client_message env nc m (srv C s) = Some (res, pd') \<Longrightarrow>
    crash_step par n C (note_report s nc key r row (moved par n s pd' C))"
| delivery: "deliver_step par n C C' \<Longrightarrow> crash_step par n C C'"

section \<open>Effects of the handlers on one server\<close>

definition same_server :: "ldcs_process_data_t \<Rightarrow> ldcs_process_data_t \<Rightarrow> bool" where
  "same_server pd pd' \<longleftrightarrow> md_rank pd' = md_rank pd \<and> md_parent pd' = md_parent pd \<and> opts pd' = opts pd \<and> hostname pd' = hostname pd \<and>
     crash_log pd' = crash_log pd \<and>
     map (\<lambda>c. (connid c, client_state c)) (client_table pd') = map (\<lambda>c. (connid c, client_state c)) (client_table pd)"

definition effect :: "ldcs_process_data_t \<Rightarrow> ldcs_process_data_t \<Rightarrow> ldcs_message_t list \<Rightarrow> (nat \<Rightarrow> ldcs_message_t list) \<Rightarrow>
    (int \<times> ldcs_message_t) list \<Rightarrow> bool" where
  "effect pd pd' ups downs outs \<longleftrightarrow> same_server pd pd' \<and> bundle_inv (msgbundle pd') \<and>
     sent_stream (msgbundle pd') PARENT = sent_stream (msgbundle pd) PARENT @ ups \<and>
     (\<forall>c. sent_stream (msgbundle pd') (Peer c) = sent_stream (msgbundle pd) (Peer c) @ downs c) \<and>
     client_out pd' = client_out pd @ outs"

lemma same_server_refl [simp]: "same_server pd pd"
  by (simp add: same_server_def)

lemma effect_refl: "bundle_inv (msgbundle pd) \<Longrightarrow> effect pd pd [] (\<lambda>_. []) []"
  by (simp add: effect_def)

lemma effect_trans: "effect pd pd1 u d ot \<Longrightarrow> effect pd1 pd2 u' d' ot' \<Longrightarrow> effect pd pd2 (u @ u') (\<lambda>c. d c @ d' c) (ot @ ot')"
  by (simp add: effect_def same_server_def)

lemma effect_sites [simp]: "effect pd (pd'\<lparr>crash_sites := cs\<rparr>) u d ot = effect pd pd' u d ot" "effect (pd\<lparr>crash_sites := cs\<rparr>) pd' u d ot = effect pd pd' u d ot"
  by (simp_all add: effect_def same_server_def)

lemma effect_newly_sent: "effect pd pd' u d ot \<Longrightarrow> newly_sent pd pd' PARENT = u \<and> newly_sent pd pd' (Peer c) = d c"
  by (simp add: effect_def newly_sent_def)

lemma same_client:
  assumes "same_server pd pd'"
  shows "length (client_table pd') = length (client_table pd)"
    and "nc < length (client_table pd) \<Longrightarrow> connid (the_client pd' nc) = connid (the_client pd nc) \<and> client_state (the_client pd' nc) = client_state (the_client pd nc)"
proof -
  have m: "map (\<lambda>c. (connid c, client_state c)) (client_table pd') = map (\<lambda>c. (connid c, client_state c)) (client_table pd)"
    using assms by (simp add: same_server_def)
  then show len: "length (client_table pd') = length (client_table pd)" by (rule map_eq_imp_length_eq)
  show "connid (the_client pd' nc) = connid (the_client pd nc) \<and> client_state (the_client pd' nc) = client_state (the_client pd nc)"
    if "nc < length (client_table pd)"
    using arg_cong [OF m, of "\<lambda>l. l ! nc"] that len by (simp add: the_client_def)
qed

lemma send_one:
  assumes "bundle_inv b" "msg_ok m" "d \<noteq> BROADCAST"
  shows "\<exists>b'. spindle_send b m d = Some b' \<and> bundle_inv b' \<and> sent_stream b' = (sent_stream b)(d := sent_stream b d @ [m])"
proof -
  have "msg_ok (full_msg m [])" using assms(2) by (simp add: full_msg_Nil)
  from send_noncontig_laws [OF assms(1) this] assms(3) show ?thesis
    by (auto simp: spindle_send_eq [OF assms(2)] full_msg_Nil [OF assms(2)])
qed

lemma send_up_effect:
  assumes "bundle_inv (msgbundle pd)" "msg_ok m"
  shows "\<exists>pd'. net_send (\<lambda>b. spindle_forward_query b m) pd = Some (0, pd') \<and> effect pd pd' [m] (\<lambda>_. []) [] \<and> crash_sites pd' = crash_sites pd"
  using send_one [OF assms, of PARENT] by (auto simp: net_send_def spindle_forward_query_def effect_def same_server_def)

lemma send_child_effect:
  assumes "bundle_inv (msgbundle pd)" "msg_ok m"
  shows "\<exists>pd'. net_send (\<lambda>b. spindle_send b m (Peer c)) pd = Some (0, pd') \<and> effect pd pd' [] (\<lambda>d. if d = c then [m] else []) [] \<and>
    crash_sites pd' = crash_sites pd"
  using send_one [OF assms, of "Peer c"] by (auto simp: net_send_def effect_def same_server_def)

text \<open>Telling a waiter.\<close>

definition waiter_valid :: "ldcs_process_data_t \<Rightarrow> crash_waiter_t \<Rightarrow> bool" where
  "waiter_valid pd w \<longleftrightarrow> (case w_kind w of
     CRASH_WAITER_LOCAL \<Rightarrow> nat (w_nc w) < length (client_table pd) \<and>
       client_state (the_client pd (nat (w_nc w))) = LDCS_CLIENT_STATUS_ACTIVE \<and> 0 \<le> connid (the_client pd (nat (w_nc w)))
   | CRASH_WAITER_CHILD \<Rightarrow> (\<exists>c. w_peer w = Peer c))"

definition tell_downs :: "site_waiter \<Rightarrow> int \<Rightarrow> byte list \<Rightarrow> nat \<Rightarrow> ldcs_message_t list" where
  "tell_downs w x k c = (if w = Child_Server c then [response_msg x k] else [])"

definition tell_outs :: "ldcs_process_data_t \<Rightarrow> site_waiter \<Rightarrow> int \<Rightarrow> (int \<times> ldcs_message_t) list" where
  "tell_outs pd w x = (case w of
     Local_Client nc _ \<Rightarrow> [(connid (the_client pd nc), mk_msg LDCS_MSG_CRASH_RESPONSE (put_i32 x))]
   | Child_Server _ \<Rightarrow> [])"

lemma tell_effect:
  assumes "bundle_inv (msgbundle pd)" "waiter_valid pd w" "key_ok k"
  shows "\<exists>pd'. send_crash_response_to_waiter w x k pd = Some pd' \<and>
    effect pd pd' [] (tell_downs (waiter_of w) x k) (tell_outs pd (waiter_of w) x) \<and> crash_sites pd' = crash_sites pd"
proof (cases "w_kind w")
  case CRASH_WAITER_LOCAL
  then show ?thesis using assms
    by (auto simp: send_crash_response_to_waiter_def waiter_valid_def waiter_of_def tell_downs_def tell_outs_def ldcs_send_msg_def
        effect_def same_server_def Let_def)
next
  case CRASH_WAITER_CHILD
  then obtain c where c: "w_peer w = Peer c" using assms(2) by (auto simp: waiter_valid_def)
  have "msg_ok (response_msg x k)" using assms(3) by (simp add: msg_ok_def response_msg_def crash_pack_def key_ok_def)
  from send_child_effect [OF assms(1) this, of c] obtain pd' where
    "net_send (\<lambda>b. spindle_send b (response_msg x k) (Peer c)) pd = Some (0, pd')"
    "effect pd pd' [] (\<lambda>d. if d = c then [response_msg x k] else []) []" "crash_sites pd' = crash_sites pd" by blast
  moreover have "(\<lambda>d. if d = c then [response_msg x k] else []) = tell_downs (Child_Server c) x k"
    by (auto simp: tell_downs_def)
  ultimately show ?thesis using CRASH_WAITER_CHILD c
    by (simp add: send_crash_response_to_waiter_def waiter_of_def tell_outs_def response_msg_def)
qed

definition plain_sites :: "ldcs_process_data_t \<Rightarrow> bool" where
  "plain_sites pd \<longleftrightarrow> (\<forall>e \<in> set (crash_sites pd). exemplar_rank e = -1 \<and> log_ranks e = [])"

definition rows_of :: "ldcs_process_data_t \<Rightarrow> (byte list \<times> crash_log_rank_t) multiset" where
  "rows_of pd = (\<Sum>e\<leftarrow>crash_sites pd. mset (map (Pair (site e)) (log_ranks e)))"

lemma no_rows: "\<forall>e \<in> set es. log_ranks e = [] \<Longrightarrow> (\<Sum>e\<leftarrow>es. mset (map (Pair (site e)) (log_ranks e))) = {#}"
  by (induction es) auto

lemma plain_rows: "plain_sites pd \<Longrightarrow> rows_of pd = {#}"
  unfolding plain_sites_def rows_of_def by (rule no_rows) simp

lemma sites_update [simp]:
  "the_client (pd\<lparr>crash_sites := cs\<rparr>) nc = the_client pd nc" "waiter_valid (pd\<lparr>crash_sites := cs\<rparr>) w = waiter_valid pd w"
  "tell_outs (pd\<lparr>crash_sites := cs\<rparr>) w' x = tell_outs pd w' x"
  by (simp_all add: the_client_def waiter_valid_def tell_outs_def cong: crash_waiter_kind_t.case_cong site_waiter.case_cong)

text \<open>A report at a server: who is told what, what is sent on, and what the table says after it.\<close>

definition report_ups :: "ldcs_process_data_t \<Rightarrow> int \<Rightarrow> int \<Rightarrow> byte list \<Rightarrow> string option \<Rightarrow> ldcs_message_t list" where
  "report_ups pd r d k cp = (if status_of pd k = Unknown \<and> md_rank pd \<noteq> 0 then [report_msg r d k cp] else [])"

definition report_tells :: "ldcs_process_data_t \<Rightarrow> int \<Rightarrow> byte list \<Rightarrow> int option" where
  "report_tells pd r k = (if status_of pd k \<noteq> Unknown then Some (-1) else if md_rank pd = 0 then Some r else None)"

definition report_status :: "ldcs_process_data_t \<Rightarrow> site_waiter \<Rightarrow> byte list \<Rightarrow> byte list \<Rightarrow> site_status" where
  "report_status pd w k k' = (if k' = k \<and> status_of pd k = Unknown
     then if md_rank pd = 0 then Decided else Waiting w else status_of pd k')"

lemma status_Unknown: "status_of pd k = Unknown \<longleftrightarrow> crash_site_find (crash_sites pd) k = None"
  by (simp add: status_of_def the_site_find split: option.split)

lemma report_common_effect:
  assumes b: "bundle_inv (msgbundle pd)" and w: "waiter_valid pd w" and k: "key_ok k" and cp: "corepath_ok cp"
  shows "\<exists>res i pd'. crash_report_common w r d k cp pd = Some ((res, i), pd') \<and>
    effect pd pd' (report_ups pd r d k cp)
      (\<lambda>c. case report_tells pd r k of None \<Rightarrow> [] | Some x \<Rightarrow> tell_downs (waiter_of w) x k c)
      (case report_tells pd r k of None \<Rightarrow> [] | Some x \<Rightarrow> tell_outs pd (waiter_of w) x) \<and>
    (\<forall>k'. status_of pd' k' = report_status pd (waiter_of w) k k') \<and>
    crash_site_find (crash_sites pd') k = Some i \<and> rows_of pd' = rows_of pd \<and>
    (md_rank pd \<noteq> 0 \<longrightarrow> plain_sites pd \<longrightarrow> plain_sites pd')"
proof (cases "crash_site_find (crash_sites pd) k")
  case (Some i)
  then have "status_of pd k \<noteq> Unknown" by (simp add: status_Unknown)
  with tell_effect [OF b w k, of "-1"] Some show ?thesis
    by (auto simp: crash_report_common_def report_ups_def report_tells_def report_status_def status_of_def rows_of_def plain_sites_def)
next
  case None
  let ?i = "length (crash_sites pd)"
  let ?e = "\<lparr>site = k, resolved = False, waiter = w, exemplar_rank = -1, exemplar_corepath = None, log_ranks = []\<rparr>"
  let ?pd1 = "pd\<lparr>crash_sites := crash_sites pd @ [?e]\<rparr>"
  have unk: "status_of pd k = Unknown" using None by (simp add: status_Unknown)
  have ts: "the_site (crash_sites pd) k = None" using None by (simp add: the_site_find)
  have ins: "set_site ?i (\<lambda>e. e\<lparr>waiter := w\<rparr>) (crash_site_insert k pd) = ?pd1"
    by (simp add: set_site_def crash_site_insert_def)
  show ?thesis
  proof (cases "md_rank pd = 0")
    case False
    have "length (crash_pack_report r d k cp) < 2 ^ 64"
      using k cp by (simp add: crash_pack_report_def key_ok_def corepath_ok_def split: option.splits)
    then have "msg_ok (report_msg r d k cp)" by (simp add: msg_ok_def report_msg_def)
    from send_up_effect [of ?pd1, OF _ this] b obtain pd' where
      "net_send (\<lambda>b. spindle_forward_query b (report_msg r d k cp)) ?pd1 = Some (0, pd')"
      "effect pd pd' [report_msg r d k cp] (\<lambda>_. []) []" "crash_sites pd' = crash_sites pd @ [?e]" by auto
    with None False unk ins ts show ?thesis
      by (auto simp: crash_report_common_def forward_crash_query_up_def report_msg_def [symmetric] report_ups_def report_tells_def
          report_status_def status_of_def rows_of_def plain_sites_def ldcs_audit_server_md_is_responsible_def Let_def
          the_site_append crash_site_find_new split: option.splits)
  next
    case True
    define f where "f e = (if bit (opts pd) OPT_CRASH_LOG then e\<lparr>exemplar_rank := d, exemplar_corepath := cp\<rparr> else e)" for e :: crash_site_entry_t
    let ?pd2 = "pd\<lparr>crash_sites := crash_sites pd @ [f ?e]\<rparr>"
    have fe: "site (f ?e) = k" "waiter (f ?e) = w" "log_ranks (f ?e) = []" by (simp_all add: f_def)
    obtain pd' where pd': "send_crash_response_to_waiter w r k ?pd2 = Some pd'"
      "effect pd pd' [] (tell_downs (waiter_of w) r k) (tell_outs pd (waiter_of w) r)" "crash_sites pd' = crash_sites pd @ [f ?e]"
      using tell_effect [of ?pd2 w k r] b w k by auto
    have res: "crash_resolve ?i r ?pd2 = Some (0, pd'\<lparr>crash_sites := crash_sites pd @ [(f ?e)\<lparr>resolved := True\<rparr>]\<rparr>)"
      using pd' fe by (simp add: crash_resolve_def set_site_def)
    define pd3 where "pd3 = pd'\<lparr>crash_sites := crash_sites pd @ [(f ?e)\<lparr>resolved := True\<rparr>]\<rparr>"
    have "status_of pd3 k' = report_status pd (waiter_of w) k k'" for k'
      using ts unk True fe by (simp add: pd3_def status_of_def report_status_def the_site_append split: option.split)
    moreover have "crash_report_common w r d k cp pd = Some ((0, ?i), pd3)"
      using None True res unfolding pd3_def [symmetric]
      by (cases "bit (opts pd) OPT_CRASH_LOG") (simp_all add: crash_report_common_def ldcs_audit_server_md_is_responsible_def Let_def
          set_site_def crash_site_insert_def f_def)
    moreover have "crash_site_find (crash_sites pd3) k = Some ?i" using None fe by (simp add: pd3_def crash_site_find_new)
    moreover have "rows_of pd3 = rows_of pd" using fe by (simp add: pd3_def rows_of_def)
    ultimately show ?thesis
      using True unk pd'(2) by (intro exI [of _ 0] exI [of _ ?i] exI [of _ pd3]) (simp add: report_ups_def report_tells_def pd3_def)
  qed
qed

lemma rows_update:
  assumes "i < length es" and "log_ranks e' = log_ranks (es ! i) @ [row]" and "site e' = site (es ! i)"
  shows "(\<Sum>e\<leftarrow>es[i := e']. mset (map (Pair (site e)) (log_ranks e))) =
    (\<Sum>e\<leftarrow>es. mset (map (Pair (site e)) (log_ranks e))) + {#(site (es ! i), row)#}"
  using assms
proof (induction es arbitrary: i)
  case (Cons e es)
  then show ?case by (cases i) simp_all
qed simp

lemma filter_one:
  assumes "i < length es" and "\<forall>e \<in> set es. log_ranks e = []" and "log_ranks e' \<noteq> []"
  shows "filter (\<lambda>e. log_ranks e \<noteq> []) (es[i := e']) = [e']"
  using assms
proof (induction es arbitrary: i)
  case (Cons e es)
  then show ?case by (cases i) (simp_all add: filter_empty_conv)
qed simp

lemma clear_one:
  assumes "i < length es" and "\<forall>e \<in> set es. log_ranks e = []" and "e'\<lparr>log_ranks := []\<rparr> = es ! i"
  shows "map (\<lambda>e. e\<lparr>log_ranks := []\<rparr>) (es[i := e']) = es"
proof -
  have "map (\<lambda>e. e\<lparr>log_ranks := []\<rparr>) es = es" using assms(2) by (intro map_idI) (auto intro: crash_site_entry_t.equality)
  then show ?thesis using assms by (simp add: map_update)
qed

lemma log_effect:
  assumes b: "bundle_inv (msgbundle pd)" and i: "crash_site_find (crash_sites pd) k = Some i" and k: "key_ok k" and row: "row_ok row"
    and log: "bit (opts pd) OPT_CRASH_LOG" and plain: "md_rank pd \<noteq> 0 \<Longrightarrow> plain_sites pd"
  shows "\<exists>pd'. crash_log_flush_to_parent (crash_log_append_rank i row pd) = Some pd' \<and>
    effect pd pd' (if md_rank pd = 0 then [] else [log_msg k row]) (\<lambda>_. []) [] \<and> (\<forall>k'. status_of pd' k' = status_of pd k') \<and>
    (md_rank pd \<noteq> 0 \<longrightarrow> plain_sites pd') \<and> (md_rank pd = 0 \<longrightarrow> rows_of pd' = rows_of pd + {#(k, row)#})"
proof -
  let ?f = "\<lambda>e. e\<lparr>log_ranks := log_ranks e @ [row]\<rparr>"
  let ?e = "crash_sites pd ! i"
  let ?pd1 = "pd\<lparr>crash_sites := (crash_sites pd)[i := ?f ?e]\<rparr>"
  have ix: "i < length (crash_sites pd)" "site ?e = k" "the_site (crash_sites pd) k = Some ?e" using the_site_find(2) [OF i] by simp_all
  have app: "crash_log_append_rank i row pd = ?pd1" by (simp add: crash_log_append_rank_def set_site_def)
  show ?thesis
  proof (cases "md_rank pd = 0")
    case True
    have "status_of ?pd1 k' = status_of pd k'" for k'
      using the_site_update [OF i, of ?f k'] ix by (simp add: status_of_def)
    moreover have "rows_of ?pd1 = rows_of pd + {#(k, row)#}"
      using rows_update [OF ix(1), of "?f ?e" row] ix by (simp add: rows_of_def)
    ultimately show ?thesis using True log b app
      by (simp add: crash_log_flush_to_parent_def ldcs_audit_server_md_is_responsible_def effect_refl)
  next
    case False
    have p: "\<forall>e \<in> set (crash_sites pd). log_ranks e = []" "log_ranks ?e = []" "exemplar_rank ?e = -1"
      using plain [OF False] ix(1) by (simp_all add: plain_sites_def)
    have pend: "pending_sites ?pd1 = [?f ?e]" using filter_one [OF ix(1) p(1), of "?f ?e"] by (simp add: pending_sites_def)
    have msg: "mk_msg LDCS_MSG_CRASH_LOG (put_i32 (int (length (pending_sites ?pd1))) @ concat (map crash_log_entry_pack (pending_sites ?pd1))) = log_msg k row"
      unfolding pend using p ix by (simp add: crash_log_entry_pack_def log_msg_def)
    have "msg_ok (log_msg k row)" using k row by (simp add: msg_ok_def log_msg_def crash_log_row_pack_def key_ok_def row_ok_def)
    from send_up_effect [of ?pd1, OF _ this] b obtain pd' where pd': "net_send (\<lambda>b. spindle_forward_query b (log_msg k row)) ?pd1 = Some (0, pd')"
      "effect pd pd' [log_msg k row] (\<lambda>_. []) []" "crash_sites pd' = (crash_sites pd)[i := ?f ?e]" by auto
    have clear: "crash_log_clear_pending pd' = pd'\<lparr>crash_sites := crash_sites pd\<rparr>"
      using clear_one [OF ix(1) p(1), of "?f ?e"] pd'(3) p(2) by (simp add: crash_log_clear_pending_def)
    have "crash_log_flush_to_parent ?pd1 = Some (pd'\<lparr>crash_sites := crash_sites pd\<rparr>)"
      unfolding crash_log_flush_to_parent_def msg using log False pend pd'(1) clear by (simp add: ldcs_audit_server_md_is_responsible_def)
    then show ?thesis using app False pd'(2) plain [OF False] by (simp add: status_of_def plain_sites_def)
  qed
qed

lemma handle_log_effect:
  assumes b: "bundle_inv (msgbundle pd)" and i: "status_of pd k \<noteq> Unknown" and k: "key_ok k" and row: "row_ok row"
    and log: "bit (opts pd) OPT_CRASH_LOG" and plain: "md_rank pd \<noteq> 0 \<Longrightarrow> plain_sites pd" and peer: "peer \<noteq> md_parent pd"
  shows "\<exists>pd'. handle_server_message depth env peer (log_msg k row) pd = Some (0, pd') \<and>
    effect pd pd' (if md_rank pd = 0 then [] else [log_msg k row]) (\<lambda>_. []) [] \<and> (\<forall>k'. status_of pd' k' = status_of pd k') \<and>
    (md_rank pd \<noteq> 0 \<longrightarrow> plain_sites pd') \<and> (md_rank pd = 0 \<longrightarrow> rows_of pd' = rows_of pd + {#(k, row)#})"
proof -
  obtain i where i: "crash_site_find (crash_sites pd) k = Some i" using i by (auto simp: status_Unknown)
  have "get_i32 (put_i32 1 @ rest) = 1" for rest by (rule get_put_i32') (simp add: i32_def)
  moreover have "merge_entries 1 (put_i32 (int (length k)) @ k @ put_i32 (-1) @ put_i32 1 @ crash_log_row_pack row) pd = Inr (crash_log_append_rank i row pd)"
    using i by (simp add: parse_log_entry [OF k row] crash_log_merge_entry_def)
  ultimately have "handle_crash_log_recv peer (log_msg k row) pd = map_option (Pair 0) (crash_log_flush_to_parent (crash_log_append_rank i row pd))"
    using peer by (simp add: handle_crash_log_recv_def log_msg_def ldcs_audit_server_md_is_parent_def map_option_case)
  then have "handle_server_message depth env peer (log_msg k row) pd = map_option (Pair 0) (crash_log_flush_to_parent (crash_log_append_rank i row pd))"
    by (cases depth) (simp_all add: handle_single_message_def log_msg_def)
  with log_effect [OF b i k row log plain] show ?thesis by auto
qed

lemma effect_set_client:
  assumes "effect pd pd' u d ot" and "\<And>c. connid (f c) = connid c" "\<And>c. client_state (f c) = client_state c"
  shows "effect pd (set_client nc f pd') u d ot"
proof -
  let ?g = "\<lambda>c. (connid c, client_state c)"
  have "map ?g ((client_table pd')[nc := f (client_table pd' ! nc)]) = map ?g (client_table pd')"
    by (cases "nc < length (client_table pd')") (simp_all add: map_update assms(2,3) list_update_same_conv list_update_beyond)
  then show ?thesis using assms(1) by (simp add: effect_def same_server_def set_client_def)
qed

lemma set_client_views [simp]:
  "status_of (set_client nc f pd) k = status_of pd k" "rows_of (set_client nc f pd) = rows_of pd" "plain_sites (set_client nc f pd) = plain_sites pd"
  by (simp_all add: set_client_def status_of_def rows_of_def plain_sites_def)

lemma client_string_effect:
  assumes "bundle_inv (msgbundle pd)" and "msg_type (msg_header m) \<in> {LDCS_MSG_CRASH_EXE, LDCS_MSG_CRASH_COREPATH}"
    and "handle_client_message env nc m pd = Some (res, pd')"
  shows "effect pd pd' [] (\<lambda>_. []) [] \<and> (\<forall>k. status_of pd' k = status_of pd k) \<and> rows_of pd' = rows_of pd \<and> plain_sites pd' = plain_sites pd"
proof -
  have "handle_client_crash_string nc m pd = Some (res, pd')" using assms(2,3) by (auto simp: handle_client_message_def)
  then show ?thesis
    using assms(1) by (auto simp: handle_client_crash_string_def Let_def split: if_splits intro!: effect_set_client effect_refl)
qed

lemma case_option_Nil [simp]: "(case v of None \<Rightarrow> [] | Some _ \<Rightarrow> []) = []"
  by (cases v) simp_all

lemma crash_msg_types [simp]:
  "msg_type (msg_header (report_msg r d k cp)) = LDCS_MSG_CRASH_REPORT"
  "msg_type (msg_header (response_msg x k)) = LDCS_MSG_CRASH_RESPONSE" "msg_type (msg_header (log_msg k row)) = LDCS_MSG_CRASH_LOG"
  by (simp_all add: report_msg_def response_msg_def log_msg_def)

lemma client_report_effect:
  assumes b: "bundle_inv (msgbundle pd)" and rep: "reporting pd env nc m key r row" and h: "bit (opts pd) OPT_CRASH_HANDLER"
    and plain: "md_rank pd \<noteq> 0 \<Longrightarrow> plain_sites pd"
  shows "\<exists>res pd' d cp. handle_client_message env nc m pd = Some (res, pd') \<and> i32 r \<and> i32 d \<and> corepath_ok cp \<and>
    effect pd pd' (report_ups pd r d key cp @ (if bit (opts pd) OPT_CRASH_LOG \<and> md_rank pd \<noteq> 0 then [log_msg key row] else [])) (\<lambda>_. [])
      (case report_tells pd r key of None \<Rightarrow> [] | Some x \<Rightarrow> tell_outs pd (Local_Client nc r) x) \<and>
    (\<forall>k'. status_of pd' k' = report_status pd (Local_Client nc r) key k') \<and> (md_rank pd \<noteq> 0 \<longrightarrow> plain_sites pd') \<and>
    (md_rank pd = 0 \<longrightarrow> rows_of pd' = rows_of pd + (if bit (opts pd) OPT_CRASH_LOG then {#(key, row)#} else {#}))"
proof -
  let ?cp = "crash_corepath (the_client pd nc)"
  from rep obtain d s cp' exe where p: "crash_parse_report m = Some (r, d, s, cp')" "crash_exe (the_client pd nc) = Some exe"
    "crash_build_key pd exe s = Some key"
    and row: "row = \<lparr>row_rank = d, row_pid = remote_pid (the_client pd nc), row_timestamp = env_time env, row_hostname = hostname pd\<rparr>"
    by (auto simp: reporting_def crash_key_def bind_eq_Some_conv)
  have ok: "key_ok key" "corepath_ok ?cp" "row_ok row" "msg_type (msg_header m) = LDCS_MSG_CRASH_REPORT"
    using rep by (simp_all add: reporting_def)
  have rd: "i32 r" "i32 d" using p(1) by (auto simp: crash_parse_report_def Let_def split: if_splits)
  let ?w = "\<lparr>w_kind = CRASH_WAITER_LOCAL, w_nc = int nc, w_global_rank = r, w_peer = NODE_PEER_NULL\<rparr>"
  have w: "waiter_valid pd ?w" "waiter_of ?w = Local_Client nc r" using rep by (simp_all add: waiter_valid_def waiter_of_def reporting_def)
  from report_common_effect [OF b w(1) ok(1,2), of r d] obtain res i pd1 where
    c1: "crash_report_common ?w r d key ?cp pd = Some ((res, i), pd1)" and
    e1: "effect pd pd1 (report_ups pd r d key ?cp) (\<lambda>_. []) (case report_tells pd r key of None \<Rightarrow> [] | Some x \<Rightarrow> tell_outs pd (Local_Client nc r) x)" and
    s1: "\<forall>k'. status_of pd1 k' = report_status pd (Local_Client nc r) key k'" "crash_site_find (crash_sites pd1) key = Some i"
      "rows_of pd1 = rows_of pd" "md_rank pd \<noteq> 0 \<Longrightarrow> plain_sites pd1"
    using plain unfolding w(2) by (auto simp: tell_downs_def cong: option.case_cong)
  have same: "md_rank pd1 = md_rank pd" "opts pd1 = opts pd" "hostname pd1 = hostname pd" "bundle_inv (msgbundle pd1)"
    using e1 by (simp_all add: effect_def same_server_def)
  obtain pd2 where c2: "(if bit (opts pd1) OPT_CRASH_LOG then crash_log_flush_to_parent (crash_log_append_rank i
      \<lparr>row_rank = d, row_pid = remote_pid (the_client pd nc), row_timestamp = env_time env, row_hostname = hostname pd1\<rparr> pd1) else Some pd1) = Some pd2"
    and e2: "effect pd1 pd2 (if bit (opts pd) OPT_CRASH_LOG \<and> md_rank pd \<noteq> 0 then [log_msg key row] else []) (\<lambda>_. []) []"
    and s2: "\<forall>k'. status_of pd2 k' = status_of pd1 k'" "md_rank pd \<noteq> 0 \<longrightarrow> plain_sites pd2"
      "md_rank pd = 0 \<longrightarrow> rows_of pd2 = rows_of pd1 + (if bit (opts pd) OPT_CRASH_LOG then {#(key, row)#} else {#})"
    using log_effect [OF same(4) s1(2) ok(1,3)] same s1(4) effect_refl [OF same(4)] row
    by (cases "bit (opts pd) OPT_CRASH_LOG"; cases "md_rank pd = 0") auto
  have "handle_client_message env nc m pd = Some (res, crash_free_client_stash nc pd2)"
    using ok(4) h p c1 c2 by (simp add: handle_client_message_def handle_client_crash_report_def Let_def)
  moreover have "effect pd (crash_free_client_stash nc pd2) (report_ups pd r d key ?cp @ (if bit (opts pd) OPT_CRASH_LOG \<and> md_rank pd \<noteq> 0 then [log_msg key row] else []))
      (\<lambda>_. []) (case report_tells pd r key of None \<Rightarrow> [] | Some x \<Rightarrow> tell_outs pd (Local_Client nc r) x)"
    unfolding crash_free_client_stash_def using effect_trans [OF e1 e2] by (intro effect_set_client) simp_all
  ultimately show ?thesis
    using rd ok(2) s1 s2
    by (intro exI [of _ res] exI [of _ "crash_free_client_stash nc pd2"] exI [of _ d] exI [of _ ?cp]) (simp add: crash_free_client_stash_def)
qed

lemma handle_report_effect:
  assumes b: "bundle_inv (msgbundle pd)" and k: "i32 r" "i32 d" "key_ok k" "corepath_ok cp" and peer: "Peer c \<noteq> md_parent pd"
  shows "\<exists>res pd'. handle_server_message depth env (Peer c) (report_msg r d k cp) pd = Some (res, pd') \<and>
    effect pd pd' (report_ups pd r d k cp) (\<lambda>c'. case report_tells pd r k of None \<Rightarrow> [] | Some x \<Rightarrow> tell_downs (Child_Server c) x k c') [] \<and>
    (\<forall>k'. status_of pd' k' = report_status pd (Child_Server c) k k') \<and> rows_of pd' = rows_of pd \<and>
    (md_rank pd \<noteq> 0 \<longrightarrow> plain_sites pd \<longrightarrow> plain_sites pd')"
proof -
  let ?w = "\<lparr>w_kind = CRASH_WAITER_CHILD, w_nc = -1, w_global_rank = -1, w_peer = Peer c\<rparr>"
  have w: "waiter_valid pd ?w" "waiter_of ?w = Child_Server c" by (simp_all add: waiter_valid_def waiter_of_def)
  have "handle_server_message depth env (Peer c) (report_msg r d k cp) pd =
      map_option (\<lambda>((result, _), pd). (result, pd)) (crash_report_common ?w r d k cp pd)"
    using parse_report_msg [OF k] peer
    by (cases depth) (simp_all add: handle_single_message_def handle_crash_report_recv_def ldcs_audit_server_md_is_parent_def)
  with report_common_effect [OF b w(1) k(3,4), of r d] show ?thesis
    unfolding w(2) by (auto simp: tell_outs_def cong: option.case_cong)
qed

lemma handle_response_effect:
  assumes b: "bundle_inv (msgbundle pd)" and k: "i32 x" "key_ok k" and st: "status_of pd k = Waiting w" and peer: "peer = md_parent pd"
    and valid: "\<And>e. the_site (crash_sites pd) k = Some e \<Longrightarrow> waiter_valid pd (waiter e)"
  shows "\<exists>res pd'. handle_server_message depth env peer (response_msg x k) pd = Some (res, pd') \<and>
    effect pd pd' [] (tell_downs w x k) (tell_outs pd w x) \<and>
    (\<forall>k'. status_of pd' k' = (if k' = k then Decided else status_of pd k')) \<and> rows_of pd' = rows_of pd \<and>
    (plain_sites pd \<longrightarrow> plain_sites pd')"
proof -
  obtain i where i: "crash_site_find (crash_sites pd) k = Some i" using st status_Unknown [of pd k] by auto
  let ?e = "crash_sites pd ! i"
  let ?f = "\<lambda>e. e\<lparr>resolved := True\<rparr>"
  have ix: "i < length (crash_sites pd)" "the_site (crash_sites pd) k = Some ?e" "site ?e = k" using the_site_find(2) [OF i] by simp_all
  have e: "\<not> resolved ?e" "waiter_of (waiter ?e) = w" using st ix by (simp_all add: status_of_def split: if_splits)
  from tell_effect [OF b valid [OF ix(2)] k(2), of x] obtain pd1 where
    pd1: "send_crash_response_to_waiter (waiter ?e) x k pd = Some pd1" "effect pd pd1 [] (tell_downs w x k) (tell_outs pd w x)"
      "crash_sites pd1 = crash_sites pd" unfolding e(2) by blast
  let ?pd2 = "pd1\<lparr>crash_sites := (crash_sites pd)[i := ?f ?e]\<rparr>"
  have "handle_server_message depth env peer (response_msg x k) pd = crash_resolve i x pd"
    using parse_response_msg [OF k] peer i e
    by (cases depth) (simp_all add: handle_single_message_def handle_crash_response_recv_def ldcs_audit_server_md_is_parent_def)
  also have "\<dots> = Some (0, ?pd2)" using pd1 ix by (simp add: crash_resolve_def set_site_def)
  finally have call: "handle_server_message depth env peer (response_msg x k) pd = Some (0, ?pd2)" .
  have "status_of ?pd2 k' = (if k' = k then Decided else status_of pd k')" for k'
    using the_site_update [OF i, of ?f k'] by (simp add: status_of_def)
  moreover have "rows_of ?pd2 = rows_of pd"
  proof -
    have "map (\<lambda>e. mset (map (Pair (site e)) (log_ranks e))) ((crash_sites pd)[i := ?f ?e]) = map (\<lambda>e. mset (map (Pair (site e)) (log_ranks e))) (crash_sites pd)"
      using ix(1) by (simp add: map_update list_update_same_conv)
    then show ?thesis unfolding rows_of_def by simp
  qed
  moreover have "plain_sites pd \<longrightarrow> plain_sites ?pd2"
    using ix(1) by (auto simp: plain_sites_def dest!: set_update_subset_insert [THEN subsetD])
  ultimately show ?thesis using call pd1(2) by (intro exI [of _ 0] exI [of _ ?pd2]) simp
qed

section \<open>The simulation\<close>

definition reports :: "byte list \<Rightarrow> ldcs_message_t list \<Rightarrow> int list" where
  "reports k ms = concat (map (\<lambda>m. if msg_type (msg_header m) = LDCS_MSG_CRASH_REPORT
     then case crash_parse_report m of Some (r, _, s, _) \<Rightarrow> if s = k then [r] else [] | None \<Rightarrow> [] else []) ms)"

definition responses :: "byte list \<Rightarrow> ldcs_message_t list \<Rightarrow> int list" where
  "responses k ms = concat (map (\<lambda>m. case crash_parse_response m of Some (x, s) \<Rightarrow> if s = k then [x] else [] | None \<Rightarrow> []) ms)"

definition answers_to :: "int \<Rightarrow> (int \<times> ldcs_message_t) list \<Rightarrow> int list" where
  "answers_to conn ot = map (\<lambda>(_, m). get_i32 (msg_data m)) (filter (\<lambda>(c, m). c = conn \<and> msg_type (msg_header m) = LDCS_MSG_CRASH_RESPONSE) ot)"

definition client_answers :: "ldcs_process_data_t \<Rightarrow> nat \<Rightarrow> int list" where
  "client_answers pd nc = answers_to (connid (the_client pd nc)) (client_out pd)"

lemma stream_simps [simp]:
  "reports k [] = []" "reports k (ms @ ms') = reports k ms @ reports k ms'" "responses k [] = []" "responses k (ms @ ms') = responses k ms @ responses k ms'"
  "answers_to conn [] = []" "answers_to conn (ot @ ot') = answers_to conn ot @ answers_to conn ot'"
  "reports k [log_msg k' row] = []"
  by (simp_all add: reports_def responses_def answers_to_def)

lemma reports_msg: "i32 r \<Longrightarrow> i32 d \<Longrightarrow> key_ok k' \<Longrightarrow> corepath_ok cp \<Longrightarrow> reports k [report_msg r d k' cp] = (if k' = k then [r] else [])"
  by (simp add: reports_def parse_report_msg)

lemma responses_msg: "i32 x \<Longrightarrow> key_ok k' \<Longrightarrow> responses k [response_msg x k'] = (if k' = k then [x] else [])"
  by (simp add: responses_def parse_response_msg)

lemma answers_to_msg: "i32 x \<Longrightarrow> answers_to conn [(c, mk_msg LDCS_MSG_CRASH_RESPONSE (put_i32 x))] = (if c = conn then [x] else [])"
  by (simp add: answers_to_def get_put_i32')

definition asked_in :: "crash_net \<Rightarrow> byte list \<Rightarrow> nat \<times> nat \<Rightarrow> int option" where
  "asked_in C k p = (case reported C p of Some (k', r) \<Rightarrow> if k' = k then Some r else None | None \<Rightarrow> None)"

definition simulates :: "nat \<Rightarrow> byte list \<Rightarrow> crash_net \<Rightarrow> site_state \<Rightarrow> bool" where
  "simulates n k C A \<longleftrightarrow>
     (\<forall>s < n. status A s = status_of (srv C s) k) \<and>
     (\<forall>c. 0 < c \<longrightarrow> c < n \<longrightarrow> up A c = reports k (chan_up C c) \<and> down A c = responses k (chan_down C c)) \<and>
     (\<forall>s < n. \<forall>nc. asked A (s, nc) = asked_in C k (s, nc)) \<and>
     (\<forall>s < n. \<forall>nc. asked A (s, nc) \<noteq> None \<longrightarrow> answers A (s, nc) = client_answers (srv C s) nc)"

lemma moved_effect:
  assumes "effect (srv C s) pd' u d ot"
  shows "srv (moved par n s pd' C) = (srv C)(s := pd')"
    and "chan_up (moved par n s pd' C) = (chan_up C)(s := chan_up C s @ u)"
    and "chan_down (moved par n s pd' C) c = chan_down C c @ (if is_child par n s c then d c else [])"
    and "reported (moved par n s pd' C) = reported C" and "logged (moved par n s pd' C) = logged C"
  using effect_newly_sent [OF assms] by (simp_all add: moved_def)

lemma simulates_moved:
  assumes sim: "simulates n k C A" and s: "s < n" and eff: "effect (srv C s) pd' u d ot"
    and clients: "\<And>nc. reported C (s, nc) \<noteq> None \<Longrightarrow> nc < length (client_table (srv C s))"
    and st: "status A' = (status A)(s := status_of pd' k)"
    and up: "\<And>c. 0 < c \<Longrightarrow> up A' c = up A c @ (if c = s then reports k u else [])"
    and down: "\<And>c. 0 < c \<Longrightarrow> c < n \<Longrightarrow> down A' c = down A c @ (if par c = s then responses k (d c) else [])"
    and asked: "asked A' = asked A"
    and ans: "\<And>t nc. t < n \<Longrightarrow> asked A (t, nc) \<noteq> None \<Longrightarrow>
      answers A' (t, nc) = answers A (t, nc) @ (if t = s then answers_to (connid (the_client (srv C s) nc)) ot else [])"
  shows "simulates n k (moved par n s pd' C) A'"
proof -
  note m = moved_effect [OF eff, of par n]
  have "client_answers pd' nc = client_answers (srv C s) nc @ answers_to (connid (the_client (srv C s) nc)) ot"
    if "asked A (s, nc) \<noteq> None" for nc
  proof -
    have "reported C (s, nc) \<noteq> None" using that sim s by (auto simp: simulates_def asked_in_def split: option.splits)
    then have "nc < length (client_table (srv C s))" by (rule clients)
    then have "connid (the_client pd' nc) = connid (the_client (srv C s) nc)"
      using eff same_client(2) by (simp add: effect_def)
    then show ?thesis using eff by (simp add: client_answers_def effect_def)
  qed
  then show ?thesis
    using sim st up down asked ans unfolding simulates_def asked_in_def m
    by (auto simp: is_child_def)
qed

text \<open>The addressee of an answer: a client that has reported the site, or a child.\<close>

definition addressee :: "(nat \<Rightarrow> nat) \<Rightarrow> nat \<Rightarrow> nat \<Rightarrow> byte list \<Rightarrow> crash_net \<Rightarrow> site_waiter \<Rightarrow> bool" where
  "addressee par n s key C w = (case w of
     Local_Client nc r \<Rightarrow> reported C (s, nc) = Some (key, r)
   | Child_Server c \<Rightarrow> is_child par n s c)"

definition reporters_ok :: "nat \<Rightarrow> crash_net \<Rightarrow> bool" where
  "reporters_ok s C \<longleftrightarrow>
     (\<forall>nc. reported C (s, nc) \<noteq> None \<longrightarrow> nc < length (client_table (srv C s)) \<and>
        client_state (the_client (srv C s) nc) = LDCS_CLIENT_STATUS_ACTIVE \<and> 0 \<le> connid (the_client (srv C s) nc)) \<and>
     (\<forall>nc nc'. reported C (s, nc) \<noteq> None \<longrightarrow> reported C (s, nc') \<noteq> None \<longrightarrow>
        connid (the_client (srv C s) nc) = connid (the_client (srv C s) nc') \<longrightarrow> nc = nc')"

lemma answers_to_tell:
  assumes "reporters_ok s C" "addressee par n s key C w" "i32 x" "reported C (s, nc) \<noteq> None"
  shows "answers_to (connid (the_client (srv C s) nc)) (tell_outs (srv C s) w x) = (if \<exists>r. w = Local_Client nc r then [x] else [])"
proof (cases w)
  case (Local_Client nc' r)
  then have "reported C (s, nc') \<noteq> None" using assms(2) by (simp add: addressee_def)
  then have "connid (the_client (srv C s) nc') = connid (the_client (srv C s) nc) \<longleftrightarrow> nc' = nc"
    using assms(1,4) unfolding reporters_ok_def by blast
  then show ?thesis using Local_Client assms(3) by (simp add: tell_outs_def answers_to_msg)
qed (simp add: tell_outs_def)

lemma responses_tell: "i32 x \<Longrightarrow> key_ok key \<Longrightarrow> responses k (tell_downs w x key c) = (if w = Child_Server c \<and> k = key then [x] else [])"
  by (simp add: tell_downs_def responses_msg)

lemma simulates_tell:
  assumes sim: "simulates n k C A" and s: "s < n" and eff: "effect (srv C s) pd' u (tell_downs w x key) (tell_outs (srv C s) w x)"
    and x: "i32 x" "key_ok key" and w: "addressee par n s key C w" and ok: "reporters_ok s C"
    and st: "\<And>t. status A' t = (if t = s then status_of pd' k else status A t)" and up: "\<And>c. reports k u = []" "up A' = up A"
    and rest: "asked A' = asked A" "down A' = down A" "answers A' = answers A"
  shows "simulates n k (moved par n s pd' C) (if k = key then tell s w x A' else A')"
proof -
  have clients: "reported C (s, nc) \<noteq> None \<Longrightarrow> nc < length (client_table (srv C s))" for nc
    using ok by (simp add: reporters_ok_def)
  have asked: "reported C (s, nc) \<noteq> None" "w = Local_Client nc r \<Longrightarrow> k = key" if "asked A (s, nc) \<noteq> None" for nc r
    using that sim s w by (auto simp: simulates_def asked_in_def addressee_def split: option.splits if_splits)
  show ?thesis
  proof (rule simulates_moved [OF sim s eff clients])
    show "status (if k = key then tell s w x A' else A') = (status A)(s := status_of pd' k)" using st by auto
    show "up (if k = key then tell s w x A' else A') c = up A c @ (if c = s then reports k u else [])" for c using up by simp
    show "down (if k = key then tell s w x A' else A') c = down A c @ (if par c = s then responses k (tell_downs w x key c) else [])"
      if "0 < c" "c < n" for c
      using rest w x by (auto simp: responses_tell tell_down addressee_def is_child_def split: site_waiter.splits)
    show "asked (if k = key then tell s w x A' else A') = asked A" using rest by simp
    show "answers (if k = key then tell s w x A' else A') (t, nc) =
        answers A (t, nc) @ (if t = s then answers_to (connid (the_client (srv C s) nc)) (tell_outs (srv C s) w x) else [])"
      if "t < n" "asked A (t, nc) \<noteq> None" for t nc
      using answers_to_tell [OF ok w x(1), of nc] asked [of nc] that rest
      by (cases "t = s") (auto simp: tell_answers split: site_waiter.splits)
  qed
qed

lemma sim_report:
  assumes sim: "simulates n k C A" and s: "s < n" and rank: "md_rank (srv C s) = s" and x: "i32 r" "i32 d" "key_ok key" "corepath_ok cp"
    and eff: "effect (srv C s) pd' (report_ups (srv C s) r d key cp @ ex)
      (\<lambda>c. case report_tells (srv C s) r key of None \<Rightarrow> [] | Some x \<Rightarrow> tell_downs w x key c)
      (case report_tells (srv C s) r key of None \<Rightarrow> [] | Some x \<Rightarrow> tell_outs (srv C s) w x)"
    and ex: "reports k ex = []" and st: "\<And>k'. status_of pd' k' = report_status (srv C s) w key k'"
    and w: "addressee par n s key C w" and ok: "reporters_ok s C"
  shows "simulates n k (moved par n s pd' C) (if k = key then take_report s w r A else A)"
proof -
  have sA: "status A t = status_of (srv C t) k" if "t < n" for t using sim that by (simp add: simulates_def)
  have neg: "i32 (-1)" by (simp add: i32_def)
  show ?thesis
  proof (cases "report_tells (srv C s) r key")
    case None
    then have unk: "status_of (srv C s) key = Unknown" "0 < s" using rank by (simp_all add: report_tells_def split: if_splits)
    have clients: "reported C (s, nc) \<noteq> None \<Longrightarrow> nc < length (client_table (srv C s))" for nc
      using ok by (simp add: reporters_ok_def)
    have eff': "effect (srv C s) pd' (report_msg r d key cp # ex) (\<lambda>_. []) []"
      using eff None unk rank by (simp add: report_ups_def)
    have rep: "reports k (report_msg r d key cp # ex) = (if k = key then [r] else [])"
      using reports_msg [OF x, of k] ex stream_simps(2) [of k "[report_msg r d key cp]" ex] by simp
    show ?thesis
      by (rule simulates_moved [OF sim s eff' clients])
        (use unk rank st rep sA [OF s] in \<open>auto simp: take_report_def report_status_def fun_eq_iff\<close>)
  next
    case (Some y)
    then have y: "y = (if status_of (srv C s) key = Unknown then r else -1)" "status_of (srv C s) key = Unknown \<Longrightarrow> s = 0"
      using rank by (auto simp: report_tells_def split: if_splits)
    define A' where "A' = (if k = key \<and> status_of (srv C s) key = Unknown
      then A\<lparr>claim := (claim A)(s := r), status := (status A)(s := Decided)\<rparr> else A)"
    have "simulates n k (moved par n s pd' C) (if k = key then tell s w y A' else A')"
    proof (rule simulates_tell [OF sim s _ _ x(3) w ok])
      show "effect (srv C s) pd' ex (tell_downs w y key) (tell_outs (srv C s) w y)"
        using eff Some y rank by (cases "status_of (srv C s) key = Unknown") (simp_all add: report_ups_def)
      show "i32 y" using y x neg by simp
      show "status A' t = (if t = s then status_of pd' k else status A t)" for t
        using st sA [OF s] y rank by (simp add: A'_def report_status_def)
    qed (simp_all add: A'_def ex)
    also have "(if k = key then tell s w y A' else A') = (if k = key then take_report s w r A else A)"
      using sA [OF s] y by (auto simp: A'_def take_report_def Let_def)
    finally show ?thesis .
  qed
qed

section \<open>The invariant of the network\<close>

definition server_good :: "(nat \<Rightarrow> nat) \<Rightarrow> nat \<Rightarrow> ldcs_process_data_t \<Rightarrow> bool" where
  "server_good par s pd \<longleftrightarrow> md_rank pd = s \<and> md_parent pd = (if s = 0 then NODE_PEER_NULL else Peer (par s)) \<and>
     bundle_inv (msgbundle pd) \<and> bit (opts pd) OPT_CRASH_HANDLER \<and> (s \<noteq> 0 \<longrightarrow> plain_sites pd) \<and>
     (\<forall>i < length (client_table pd). \<forall>j < length (client_table pd). client_state (the_client pd i) = LDCS_CLIENT_STATUS_ACTIVE \<longrightarrow>
        client_state (the_client pd j) = LDCS_CLIENT_STATUS_ACTIVE \<longrightarrow> connid (the_client pd i) = connid (the_client pd j) \<longrightarrow> i = j)"

definition unasked_silent :: "nat \<Rightarrow> crash_net \<Rightarrow> bool" where
  "unasked_silent s C \<longleftrightarrow> (\<forall>nc < length (client_table (srv C s)). client_state (the_client (srv C s) nc) = LDCS_CLIENT_STATUS_ACTIVE \<longrightarrow>
     reported C (s, nc) = None \<longrightarrow> client_answers (srv C s) nc = [])"

definition servers_inv :: "(nat \<Rightarrow> nat) \<Rightarrow> nat \<Rightarrow> crash_net \<Rightarrow> bool" where
  "servers_inv par n C \<longleftrightarrow> (\<forall>s < n. server_good par s (srv C s) \<and> opts (srv C s) = opts (srv C 0) \<and> reporters_ok s C \<and> unasked_silent s C)"

definition report_fmt :: "ldcs_message_t \<Rightarrow> bool" where
  "report_fmt m \<longleftrightarrow> (\<exists>r d k cp. m = report_msg r d k cp \<and> i32 r \<and> i32 d \<and> key_ok k \<and> corepath_ok cp)"

definition log_fmt :: "ldcs_message_t \<Rightarrow> bool" where
  "log_fmt m \<longleftrightarrow> (\<exists>k row. m = log_msg k row \<and> key_ok k \<and> row_ok row)"

definition response_fmt :: "ldcs_message_t \<Rightarrow> bool" where
  "response_fmt m \<longleftrightarrow> (\<exists>x k. m = response_msg x k \<and> i32 x \<and> key_ok k)"

definition channels_inv :: "nat \<Rightarrow> crash_net \<Rightarrow> bool" where
  "channels_inv n C \<longleftrightarrow> (\<forall>c. 0 < c \<longrightarrow> c < n \<longrightarrow>
     (\<forall>m \<in> set (chan_up C c). report_fmt m \<or> log_fmt m \<and> bit (opts (srv C 0)) OPT_CRASH_LOG) \<and>
     (\<forall>m \<in> set (chan_down C c). response_fmt m))"

text \<open>A row of the log follows the report of its site.\<close>

fun follows :: "(byte list \<Rightarrow> bool) \<Rightarrow> ldcs_message_t list \<Rightarrow> bool" where
  "follows known [] = True"
| "follows known (m # ms) \<longleftrightarrow> (\<forall>k row. m = log_msg k row \<longrightarrow> key_ok k \<longrightarrow> row_ok row \<longrightarrow> known k) \<and>
     follows (\<lambda>k. known k \<or> reports k [m] \<noteq> []) ms"

definition logs_follow :: "(nat \<Rightarrow> nat) \<Rightarrow> nat \<Rightarrow> crash_net \<Rightarrow> bool" where
  "logs_follow par n C \<longleftrightarrow> (\<forall>c. 0 < c \<longrightarrow> c < n \<longrightarrow> follows (\<lambda>k. status_of (srv C (par c)) k \<noteq> Unknown) (chan_up C c))"

definition logs :: "ldcs_message_t list \<Rightarrow> (byte list \<times> crash_log_rank_t) list" where
  "logs ms = concat (map (\<lambda>m. if msg_type (msg_header m) = LDCS_MSG_CRASH_LOG
     then case crash_log_parse_entry (drop 4 (msg_data m)) of Some (ent, _) \<Rightarrow> map (Pair (ent_site ent)) (ent_rows ent) | None \<Rightarrow> [] else []) ms)"

definition rows_inv :: "nat \<Rightarrow> crash_net \<Rightarrow> bool" where
  "rows_inv n C \<longleftrightarrow> mset (logged C) = rows_of (srv C 0) + (\<Sum>c \<in> {1..<n}. mset (logs (chan_up C c)))"

definition sites_inv :: "(nat \<Rightarrow> nat) \<Rightarrow> nat \<Rightarrow> crash_net \<Rightarrow> bool" where
  "sites_inv par n C \<longleftrightarrow> (\<forall>k. \<exists>A. site_reachable par n A \<and> simulates n k C A)"

definition net_inv :: "(nat \<Rightarrow> nat) \<Rightarrow> nat \<Rightarrow> crash_net \<Rightarrow> bool" where
  "net_inv par n C \<longleftrightarrow> servers_inv par n C \<and> channels_inv n C \<and> sites_inv par n C \<and> logs_follow par n C \<and> rows_inv n C"

lemma logs_simps [simp]: "logs [] = []" "logs (ms @ ms') = logs ms @ logs ms'" "logs [report_msg r d k cp] = []"
  by (simp_all add: logs_def)

lemma logs_msg: "key_ok k \<Longrightarrow> row_ok row \<Longrightarrow> logs [log_msg k row] = [(k, row)]"
  by (simp add: logs_def parse_log_entry log_msg_def)

lemma logs_Cons: "logs (m # ms) = logs [m] @ logs ms"
  using logs_simps(2) [of "[m]" ms] by simp

lemma reports_Cons: "reports k (m # ms) = reports k [m] @ reports k ms"
  using stream_simps(2) [of k "[m]" ms] by simp

lemma good_effect:
  assumes "server_good par s pd" "effect pd pd' u d ot" "s \<noteq> 0 \<Longrightarrow> plain_sites pd'"
  shows "server_good par s pd'"
proof -
  have same: "same_server pd pd'" "bundle_inv (msgbundle pd')" using assms(2) by (simp_all add: effect_def)
  show ?thesis using assms(1,3) same(2) same_client [OF same(1)] same(1) unfolding server_good_def same_server_def by simp
qed

lemma servers_moved:
  assumes inv: "servers_inv par n C" and s: "s < n" and eff: "effect (srv C s) pd' u d ot" and plain: "s \<noteq> 0 \<Longrightarrow> plain_sites pd'"
    and ot: "ot = [] \<or> (\<exists>w x key. ot = tell_outs (srv C s) w x \<and> addressee par n s key C w \<and> i32 x)"
  shows "servers_inv par n (moved par n s pd' C)"
proof -
  note m = moved_effect [OF eff, of par n]
  have sg: "server_good par s (srv C s)" "reporters_ok s C" "unasked_silent s C" using inv s by (simp_all add: servers_inv_def)
  have same: "same_server (srv C s) pd'" using eff by (simp add: effect_def)
  note cl = same_client [OF same]
  have "answers_to (connid (the_client (srv C s) nc)) ot = []"
    if "nc < length (client_table (srv C s))" "client_state (the_client (srv C s) nc) = LDCS_CLIENT_STATUS_ACTIVE" "reported C (s, nc) = None" for nc
  proof -
    have "connid (the_client (srv C s) nc') \<noteq> connid (the_client (srv C s) nc)" if "reported C (s, nc') \<noteq> None" for nc'
    proof -
      have "nc' < length (client_table (srv C s))" "client_state (the_client (srv C s) nc') = LDCS_CLIENT_STATUS_ACTIVE" "nc' \<noteq> nc"
        using sg(2) that \<open>reported C (s, nc) = None\<close> by (auto simp: reporters_ok_def)
      then show ?thesis using sg(1) \<open>nc < _\<close> \<open>client_state (the_client (srv C s) nc) = _\<close> unfolding server_good_def by blast
    qed
    note other = this
    have "answers_to (connid (the_client (srv C s) nc)) (tell_outs (srv C s) w x) = []" if "addressee par n s key C w" "i32 x" for w x key
      using that other by (cases w) (simp_all add: addressee_def tell_outs_def answers_to_msg)
    then show ?thesis using ot by auto
  qed
  then have "unasked_silent s (moved par n s pd' C)"
    using sg(3) eff cl unfolding unasked_silent_def m by (simp add: client_answers_def effect_def)
  moreover have "reporters_ok s (moved par n s pd' C)" using sg(2) cl unfolding reporters_ok_def m by simp
  moreover have "opts pd' = opts (srv C s)" using same by (simp add: same_server_def)
  moreover have "unasked_silent t (moved par n s pd' C) = unasked_silent t C" "reporters_ok t (moved par n s pd' C) = reporters_ok t C" if "t \<noteq> s" for t
    using that by (simp_all add: unasked_silent_def reporters_ok_def m)
  ultimately show ?thesis
    using inv good_effect [OF sg(1) eff plain] unfolding servers_inv_def m by (metis fun_upd_apply)
qed

lemma channels_moved:
  assumes inv: "channels_inv n C" and s: "s < n" and eff: "effect (srv C s) pd' u d ot"
    and u: "0 < s \<Longrightarrow> \<forall>m \<in> set u. report_fmt m \<or> log_fmt m \<and> bit (opts (srv C 0)) OPT_CRASH_LOG" and d: "\<And>c. \<forall>m \<in> set (d c). response_fmt m"
  shows "channels_inv n (moved par n s pd' C)"
proof -
  note m = moved_effect [OF eff, of par n]
  have "opts (srv (moved par n s pd' C) 0) = opts (srv C 0)" using eff by (simp add: m effect_def same_server_def)
  then show ?thesis using inv u d unfolding channels_inv_def m by auto
qed

lemma rows_moved:
  assumes eff: "effect (srv C s) pd' u d ot" and s: "s < n"
  shows "rows_of (srv (moved par n s pd' C) 0) + (\<Sum>c \<in> {1..<n}. mset (logs (chan_up (moved par n s pd' C) c))) =
    (if s = 0 then rows_of pd' else rows_of (srv C 0)) + (\<Sum>c \<in> {1..<n}. mset (logs (chan_up C c))) + (if s = 0 then {#} else mset (logs u))"
proof (cases "s = 0")
  case False
  note m = moved_effect [OF eff, of par n]
  let ?f = "\<lambda>c. mset (logs (chan_up C c))"
  have "(\<Sum>c \<in> {1..<n}. mset (logs (chan_up (moved par n s pd' C) c))) = (\<Sum>c \<in> {1..<n}. ?f c + (if c = s then mset (logs u) else {#}))"
    by (intro sum.cong) (simp_all add: m)
  also have "\<dots> = (\<Sum>c \<in> {1..<n}. ?f c) + mset (logs u)"
    using False s by (simp add: sum.distrib)
  finally show ?thesis using False by (simp add: m)
next
  case True
  then show ?thesis using moved_effect [OF eff, of par n] by (auto intro!: sum.cong)
qed

lemma follows_mono: "follows known ms \<Longrightarrow> (\<And>k. known k \<Longrightarrow> known' k) \<Longrightarrow> follows known' ms"
proof (induction ms arbitrary: known known')
  case (Cons m ms)
  from Cons.prems have "follows (\<lambda>k. known' k \<or> reports k [m] \<noteq> []) ms" by (auto intro: Cons.IH)
  with Cons.prems show ?case by auto
qed simp

lemma follows_append: "follows known (ms @ ms') \<longleftrightarrow> follows known ms \<and> follows (\<lambda>k. known k \<or> reports k ms \<noteq> []) ms'"
proof (induction ms arbitrary: known)
  case (Cons m ms)
  have "reports k (m # ms) = reports k [m] @ reports k ms" for k by (rule reports_Cons)
  then show ?case by (simp add: Cons.IH disj_assoc)
qed simp

lemma follows_reports: "\<forall>m \<in> set ms. report_fmt m \<Longrightarrow> follows known ms"
proof (induction ms arbitrary: known)
  case (Cons m ms)
  then have "m \<noteq> log_msg k row" for k row by (auto simp: report_fmt_def report_msg_def log_msg_def mk_msg_def)
  with Cons show ?case by simp
qed simp

lemma knows_upwards:
  assumes "sites_inv par n C" "tree par n" "0 < s" "s < n" "status_of (srv C s) k \<noteq> Unknown"
  shows "status_of (srv C (par s)) k \<noteq> Unknown \<or> reports k (chan_up C s) \<noteq> []"
proof -
  obtain A where A: "site_reachable par n A" "simulates n k C A" using assms(1) by (auto simp: sites_inv_def)
  have "par s < n" using tree_less [OF assms(2-4)] assms(4) by simp
  then have "status A s = status_of (srv C s) k" "status A (par s) = status_of (srv C (par s)) k" "up A s = reports k (chan_up C s)"
    using A(2) assms(3,4) by (simp_all add: simulates_def)
  then show ?thesis using site_invD(3) [OF site_reachable_inv [OF A(1) assms(2)] assms(3,4)] assms(5) by auto
qed

lemma logs_follow_moved:
  assumes old: "\<And>c. 0 < c \<Longrightarrow> c < n \<Longrightarrow> follows (\<lambda>k. status_of (srv (moved par n s pd' C) (par c)) k \<noteq> Unknown) (chan_up C c)"
    and eff: "effect (srv C s) pd' (u @ v) d ot" and u: "\<forall>m \<in> set u. report_fmt m" and tree: "tree par n"
    and v: "v = [] \<or> (\<exists>key row. v = [log_msg key row] \<and> key_ok key \<and> row_ok row \<and> status_of pd' key \<noteq> Unknown)"
    and inv: "sites_inv par n (moved par n s pd' C)"
  shows "logs_follow par n (moved par n s pd' C)"
proof -
  let ?C = "moved par n s pd' C"
  note m = moved_effect [OF eff, of par n]
  have "follows (\<lambda>k. status_of (srv ?C (par s)) k \<noteq> Unknown) (chan_up ?C s)" if s: "0 < s" "s < n"
  proof (cases "v = []")
    case True
    then show ?thesis using old [OF s] u by (simp add: m(2) follows_append follows_reports)
  next
    case False
    then obtain key row where v: "v = [log_msg key row]" "key_ok key" "row_ok row" "status_of pd' key \<noteq> Unknown" using v by blast
    have "status_of (srv ?C s) key \<noteq> Unknown" using v(4) by (simp add: m(1))
    from knows_upwards [OF inv tree s this]
    have known: "status_of (srv ?C (par s)) key \<noteq> Unknown \<or> reports key (chan_up C s) \<noteq> [] \<or> reports key u \<noteq> []"
      unfolding m(2) v(1) by simp
    have key: "log_msg key row = log_msg k row' \<Longrightarrow> key_ok k \<Longrightarrow> row_ok row' \<Longrightarrow> k = key" for k row'
      using logs_msg [OF v(2,3)] logs_msg [of k row'] by (metis list.inject prod.inject)
    have "follows (\<lambda>k. (status_of (srv ?C (par s)) k \<noteq> Unknown \<or> reports k (chan_up C s) \<noteq> []) \<or> reports k u \<noteq> []) v"
      unfolding v(1) follows.simps using known by (blast dest: key)
    then show ?thesis using old [OF s] u by (simp add: m(2) follows_append follows_reports)
  qed
  moreover have "chan_up ?C c = chan_up C c" if "c \<noteq> s" for c using that by (simp add: m(2))
  ultimately have "follows (\<lambda>k. status_of (srv ?C (par c)) k \<noteq> Unknown) (chan_up ?C c)" if "0 < c" "c < n" for c
    using old [OF that] that by (cases "c = s") simp_all
  then show ?thesis by (simp add: logs_follow_def)
qed

lemma logs_reports: "\<forall>m \<in> set ms. report_fmt m \<Longrightarrow> logs ms = []"
  by (induction ms) (auto simp: logs_def report_fmt_def)

lemma fmtI:
  "key_ok k \<Longrightarrow> row_ok row \<Longrightarrow> log_fmt (log_msg k row)" "i32 x \<Longrightarrow> key_ok k \<Longrightarrow> response_fmt (response_msg x k)"
  "i32 r \<Longrightarrow> i32 d \<Longrightarrow> key_ok k \<Longrightarrow> corepath_ok cp \<Longrightarrow> report_fmt (report_msg r d k cp)"
  unfolding log_fmt_def response_fmt_def report_fmt_def by blast+

lemma net_inv_moved:
  assumes srvs: "servers_inv par n C" and chans: "channels_inv n C" and s: "s < n" and tree: "tree par n"
    and eff: "effect (srv C s) pd' (u @ v) d ot" and plain: "s \<noteq> 0 \<Longrightarrow> plain_sites pd'"
    and ot: "ot = [] \<or> (\<exists>w x key. ot = tell_outs (srv C s) w x \<and> addressee par n s key C w \<and> i32 x)"
    and u: "\<forall>m \<in> set u. report_fmt m" and d: "\<And>c. \<forall>m \<in> set (d c). response_fmt m"
    and v: "v = [] \<or> (\<exists>key row. v = [log_msg key row] \<and> key_ok key \<and> row_ok row \<and> status_of pd' key \<noteq> Unknown \<and> bit (opts (srv C s)) OPT_CRASH_LOG)"
    and sims: "\<And>k. \<exists>A. site_reachable par n A \<and> simulates n k (moved par n s pd' C) A"
    and old: "\<And>c. 0 < c \<Longrightarrow> c < n \<Longrightarrow> follows (\<lambda>k. status_of (srv (moved par n s pd' C) (par c)) k \<noteq> Unknown) (chan_up C c)"
    and rows: "mset (logged C) = (if s = 0 then rows_of pd' else rows_of (srv C 0)) + (\<Sum>c \<in> {1..<n}. mset (logs (chan_up C c))) +
      (if s = 0 then {#} else mset (logs v))"
  shows "net_inv par n (moved par n s pd' C)"
proof -
  have sites: "sites_inv par n (moved par n s pd' C)" using sims by (simp add: sites_inv_def)
  have "opts (srv C s) = opts (srv C 0)" using srvs s unfolding servers_inv_def by blast
  then have "\<forall>m \<in> set (u @ v). report_fmt m \<or> log_fmt m \<and> bit (opts (srv C 0)) OPT_CRASH_LOG"
    using u v by (auto intro: fmtI)
  then have "channels_inv n (moved par n s pd' C)" by (intro channels_moved [OF chans s eff _ d])
  moreover have "logs_follow par n (moved par n s pd' C)"
    by (rule logs_follow_moved [OF old eff u tree _ sites]) (use v in blast)+
  moreover have "rows_inv n (moved par n s pd' C)"
    unfolding rows_inv_def rows_moved [OF eff s] moved_effect(5) [OF eff] by (simp add: rows logs_reports [OF u])
  ultimately show ?thesis using servers_moved [OF srvs s eff plain ot] sites by (simp add: net_inv_def)
qed

lemma simulates_same:
  assumes "simulates n k C A" "s < n" "effect (srv C s) pd' v (\<lambda>_. []) []" "reports k v = []" "status_of pd' k = status_of (srv C s) k" "reporters_ok s C"
  shows "simulates n k (moved par n s pd' C) A"
proof (rule simulates_moved [OF assms(1-3)])
  show "status A = (status A)(s := status_of pd' k)" using assms(1,2,5) by (auto simp: simulates_def)
qed (use assms(4,6) in \<open>simp_all add: reporters_ok_def\<close>)

lemma net_invD:
  assumes "net_inv par n C"
  shows "servers_inv par n C" "channels_inv n C" "sites_inv par n C" "logs_follow par n C" "rows_inv n C"
    and "s < n \<Longrightarrow> server_good par s (srv C s) \<and> opts (srv C s) = opts (srv C 0) \<and> reporters_ok s C \<and> unasked_silent s C"
  using assms unfolding net_inv_def servers_inv_def by blast+

lemma inv_client_string:
  assumes inv: "net_inv par n C" and tree: "tree par n" and s: "s < n"
    and eff: "effect (srv C s) pd' [] (\<lambda>_. []) []" and st: "\<And>k. status_of pd' k = status_of (srv C s) k"
    and rows: "rows_of pd' = rows_of (srv C s)" "plain_sites pd' = plain_sites (srv C s)"
  shows "net_inv par n (moved par n s pd' C)"
proof (rule net_inv_moved [OF net_invD(1,2) [OF inv] s tree, where u = "[]" and v = "[]"])
  have r: "reporters_ok s C" "server_good par s (srv C s)" using net_invD(6) [OF inv s] by simp_all
  show "\<exists>A. site_reachable par n A \<and> simulates n k (moved par n s pd' C) A" for k
  proof -
    obtain A where "site_reachable par n A" "simulates n k C A" using net_invD(3) [OF inv] by (auto simp: sites_inv_def)
    then show ?thesis using simulates_same [OF _ s eff _ st r(1)] by auto
  qed
  show "s \<noteq> 0 \<Longrightarrow> plain_sites pd'" using r(2) rows(2) by (simp add: server_good_def)
  show "follows (\<lambda>k. status_of (srv (moved par n s pd' C) (par c)) k \<noteq> Unknown) (chan_up C c)" if "0 < c" "c < n" for c
    using net_invD(4) [OF inv] that st by (auto simp: logs_follow_def moved_effect(1) [OF eff])
qed (use eff rows net_invD(5) [OF inv] in \<open>auto simp: rows_inv_def\<close>)

lemma report_status_mono: "status_of pd k \<noteq> Unknown \<Longrightarrow> report_status pd w key k \<noteq> Unknown"
  by (auto simp: report_status_def)

lemma report_tells_i32: "i32 r \<Longrightarrow> report_tells pd r key = Some x \<Longrightarrow> i32 x"
  by (auto simp: report_tells_def i32_def split: if_splits)

lemma report_ups_fmt: "i32 r \<Longrightarrow> i32 d \<Longrightarrow> key_ok key \<Longrightarrow> corepath_ok cp \<Longrightarrow> \<forall>m \<in> set (report_ups pd r d key cp). report_fmt m"
  by (auto simp: report_ups_def intro: fmtI)

lemma tell_downs_fmt: "i32 x \<Longrightarrow> key_ok key \<Longrightarrow> \<forall>m \<in> set (tell_downs w x key c). response_fmt m"
  by (auto simp: tell_downs_def intro: fmtI)

lemma noted_servers:
  assumes inv: "servers_inv par n C" and s: "s < n" and rep: "reporting (srv C s) env nc m key r row"
  shows "servers_inv par n (note_report s nc key r row C)"
proof -
  let ?C = "note_report s nc key r row C"
  have sg: "server_good par s (srv C s)" "reporters_ok s C" "unasked_silent s C" using inv s unfolding servers_inv_def by blast+
  have act: "nc < length (client_table (srv C s))" "client_state (the_client (srv C s) nc) = LDCS_CLIENT_STATUS_ACTIVE" "0 \<le> connid (the_client (srv C s) nc)"
    using rep by (simp_all add: reporting_def)
  have live: "i < length (client_table (srv C s)) \<and> client_state (the_client (srv C s) i) = LDCS_CLIENT_STATUS_ACTIVE \<and> 0 \<le> connid (the_client (srv C s) i)"
    if "reported ?C (s, i) \<noteq> None" for i
    using that sg(2) act by (cases "i = nc") (auto simp: note_report_def reporters_ok_def)
  have "reporters_ok s ?C"
    unfolding reporters_ok_def
  proof (intro conjI allI impI)
    fix i j
    assume r: "reported ?C (s, i) \<noteq> None" "reported ?C (s, j) \<noteq> None" "connid (the_client (srv ?C s) i) = connid (the_client (srv ?C s) j)"
    have "srv ?C s = srv C s" by (simp add: note_report_def)
    with r live [OF r(1)] live [OF r(2)] sg(1) show "i = j" unfolding server_good_def by metis
  qed (use live in \<open>auto simp: note_report_def\<close>)
  moreover have "unasked_silent s ?C" using sg(3) by (simp add: unasked_silent_def note_report_def)
  moreover have "reporters_ok t ?C = reporters_ok t C" "unasked_silent t ?C = unasked_silent t C" if "t \<noteq> s" for t
    using that by (simp_all add: reporters_ok_def unasked_silent_def note_report_def)
  moreover have "srv ?C = srv C" by (simp add: note_report_def)
  ultimately show ?thesis using inv unfolding servers_inv_def by metis
qed

lemma noted_simulates:
  assumes sim: "simulates n k C A" and s: "s < n" and new: "reported C (s, nc) = None" and silent: "client_answers (srv C s) nc = []"
    and A: "site_inv par n A"
  shows "simulates n k (note_report s nc key r row C) (if k = key then A\<lparr>asked := (asked A)((s, nc) \<mapsto> r)\<rparr> else A)"
proof -
  have "asked A (s, nc) = None" using sim s new by (simp add: simulates_def asked_in_def)
  then have "answers A (s, nc) = []" using site_invD(6) [OF A, of s nc] by (simp add: client_answers_ok_def)
  then show ?thesis using sim silent new by (auto simp: simulates_def note_report_def asked_in_def split: if_splits)
qed

lemma inv_client_report:
  assumes inv: "net_inv par n C" and tree: "tree par n" and s: "s < n" and new: "reported C (s, nc) = None"
    and rep: "reporting (srv C s) env nc m key r row" and call: "handle_client_message env nc m (srv C s) = Some (res, pd')"
  shows "net_inv par n (note_report s nc key r row (moved par n s pd' C))"
proof -
  let ?pd = "srv C s" and ?w = "Local_Client nc r"
  have good: "server_good par s ?pd" "unasked_silent s C" using net_invD(6) [OF inv s] by simp_all
  then have pd: "bundle_inv (msgbundle ?pd)" "bit (opts ?pd) OPT_CRASH_HANDLER" "md_rank ?pd = s" "s \<noteq> 0 \<Longrightarrow> plain_sites ?pd"
    by (simp_all add: server_good_def)
  let ?v = "if bit (opts ?pd) OPT_CRASH_LOG \<and> md_rank ?pd \<noteq> 0 then [log_msg key row] else []"
  let ?outs = "case report_tells ?pd r key of None \<Rightarrow> [] | Some x \<Rightarrow> tell_outs ?pd ?w x"
  from client_report_effect [OF pd(1) rep pd(2)] pd(3,4) call obtain d cp where
    x: "i32 r" "i32 d" "corepath_ok cp" and eff: "effect ?pd pd' (report_ups ?pd r d key cp @ ?v) (\<lambda>_. []) ?outs"
    and st: "\<And>k'. status_of pd' k' = report_status ?pd ?w key k'" and plain: "s \<noteq> 0 \<Longrightarrow> plain_sites pd'"
    and rows: "s = 0 \<Longrightarrow> rows_of pd' = rows_of ?pd + (if bit (opts ?pd) OPT_CRASH_LOG then {#(key, row)#} else {#})" by auto
  have ok: "key_ok key" "row_ok row" "r \<noteq> -1" and act: "nc < length (client_table ?pd)" "client_state (the_client ?pd nc) = LDCS_CLIENT_STATUS_ACTIVE"
    using rep by (simp_all add: reporting_def)
  define C0 where "C0 = note_report s nc key r row C"
  have C0: "srv C0 = srv C" "chan_up C0 = chan_up C" "chan_down C0 = chan_down C" "reported C0 (s, nc) = Some (key, r)"
    "logged C0 = logged C @ (if bit (opts ?pd) OPT_CRASH_LOG then [(key, row)] else [])" by (simp_all add: C0_def note_report_def)
  have "opts pd' = opts ?pd" using eff by (simp add: effect_def same_server_def)
  then have "note_report s nc key r row (moved par n s pd' C) = moved par n s pd' C0"
    by (intro crash_net.equality) (simp_all add: C0_def note_report_def moved_def fun_eq_iff)
  moreover have "net_inv par n (moved par n s pd' C0)"
  proof (rule net_inv_moved [where u = "report_ups ?pd r d key cp" and v = ?v])
    show S0: "servers_inv par n C0" unfolding C0_def by (rule noted_servers [OF net_invD(1) [OF inv] s rep])
    then have r0: "reporters_ok s C0" using s unfolding servers_inv_def by blast
    show "channels_inv n C0" using net_invD(2) [OF inv] by (simp add: channels_inv_def C0)
    have w: "addressee par n s key C0 ?w" by (simp add: addressee_def C0)
    show "effect (srv C0 s) pd' (report_ups ?pd r d key cp @ ?v) (\<lambda>_. []) ?outs" using eff by (simp add: C0)
    have eff0: "effect (srv C0 s) pd' (report_ups (srv C0 s) r d key cp @ ?v)
        (\<lambda>c. case report_tells (srv C0 s) r key of None \<Rightarrow> [] | Some x \<Rightarrow> tell_downs ?w x key c)
        (case report_tells (srv C0 s) r key of None \<Rightarrow> [] | Some x \<Rightarrow> tell_outs (srv C0 s) ?w x)"
      using eff by (simp add: C0 tell_downs_def cong: option.case_cong)
    show "?outs = [] \<or> (\<exists>w x key. ?outs = tell_outs (srv C0 s) w x \<and> addressee par n s key C0 w \<and> i32 x)"
      using w report_tells_i32 [OF x(1)] by (cases "report_tells ?pd r key") (simp_all add: C0, blast)
    show "\<exists>A. site_reachable par n A \<and> simulates n k (moved par n s pd' C0) A" for k
    proof -
      obtain A where A: "site_reachable par n A" "simulates n k C A" using net_invD(3) [OF inv] by (auto simp: sites_inv_def)
      note iA = site_reachable_inv [OF A(1) tree]
      have "client_answers ?pd nc = []" using good(2) act new by (simp add: unasked_silent_def)
      note sim0 = noted_simulates [OF A(2) s new this iA, of key r row, folded C0_def]
      have sim1: "simulates n k (moved par n s pd' C0) (if k = key then take_report s ?w r (A\<lparr>asked := (asked A)((s, nc) \<mapsto> r)\<rparr>) else A)"
        using sim_report [OF sim0 s _ x(1,2) ok(1) x(3) eff0 _ _ w r0] st pd(3) by (cases "k = key") (simp_all add: C0)
      have "asked A (s, nc) = None" using A(2) s new by (simp add: simulates_def asked_in_def)
      then have "site_step par n A (take_report s ?w r (A\<lparr>asked := (asked A)((s, nc) \<mapsto> r)\<rparr>))"
        using s ok(3) by (intro site_step.report)
      with A(1) have "site_reachable par n (if k = key then take_report s ?w r (A\<lparr>asked := (asked A)((s, nc) \<mapsto> r)\<rparr>) else A)"
        by (auto intro: site_reachable.step)
      then show ?thesis using sim1 by blast
    qed
    show "follows (\<lambda>k. status_of (srv (moved par n s pd' C0) (par c)) k \<noteq> Unknown) (chan_up C0 c)" if "0 < c" "c < n" for c
    proof -
      have "follows (\<lambda>k. status_of (srv C (par c)) k \<noteq> Unknown) (chan_up C c)" using net_invD(4) [OF inv] that by (simp add: logs_follow_def)
      then show ?thesis unfolding C0(2) by (rule follows_mono) (auto simp: moved_def C0 st dest: report_status_mono)
    qed
    show "mset (logged C0) = (if s = 0 then rows_of pd' else rows_of (srv C0 0)) + (\<Sum>c\<in>{1..<n}. mset (logs (chan_up C0 c))) +
      (if s = 0 then {#} else mset (logs ?v))"
      using net_invD(5) [OF inv] rows pd(3) logs_msg [OF ok(1,2)] by (auto simp: rows_inv_def C0)
  qed (use s tree plain x ok st pd(3) in \<open>auto simp: report_ups_fmt report_status_def C0\<close>)
  ultimately show ?thesis by simp
qed

abbreviation pop_up :: "nat \<Rightarrow> ldcs_message_t list \<Rightarrow> crash_net \<Rightarrow> crash_net" where
  "pop_up c ms C \<equiv> C\<lparr>chan_up := (chan_up C)(c := ms)\<rparr>"

abbreviation pop_down :: "nat \<Rightarrow> ldcs_message_t list \<Rightarrow> crash_net \<Rightarrow> crash_net" where
  "pop_down c ms C \<equiv> C\<lparr>chan_down := (chan_down C)(c := ms)\<rparr>"

lemma servers_cong: "srv C' = srv C \<Longrightarrow> reported C' = reported C \<Longrightarrow> servers_inv par n C' = servers_inv par n C"
  by (simp add: servers_inv_def reporters_ok_def unasked_silent_def)

lemma popped_inv:
  assumes "net_inv par n C"
  shows "chan_up C c = m # ms \<Longrightarrow> servers_inv par n (pop_up c ms C) \<and> channels_inv n (pop_up c ms C)"
    and "chan_down C c = m # ms \<Longrightarrow> servers_inv par n (pop_down c ms C) \<and> channels_inv n (pop_down c ms C)"
  using net_invD(1,2) [OF assms] servers_cong [of "pop_up c ms C" C par n] servers_cong [of "pop_down c ms C" C par n]
  by (auto simp: channels_inv_def)

lemma popped_rows:
  assumes "rows_inv n C" "chan_up C c = m # ms" "0 < c" "c < n"
  shows "mset (logged C) = rows_of (srv C 0) + (\<Sum>d \<in> {1..<n}. mset (logs (chan_up (pop_up c ms C) d))) + mset (logs [m])"
proof -
  have "(\<Sum>d \<in> {1..<n}. mset (logs (chan_up C d))) =
    (\<Sum>d \<in> {1..<n}. mset (logs (chan_up (pop_up c ms C) d)) + (if d = c then mset (logs [m]) else {#}))"
    by (intro sum.cong) (auto simp: assms(2) logs_Cons [of m ms])
  also have "\<dots> = (\<Sum>d \<in> {1..<n}. mset (logs (chan_up (pop_up c ms C) d))) + mset (logs [m])"
    using assms(3,4) by (simp add: sum.distrib)
  finally show ?thesis using assms(1) by (simp add: rows_inv_def)
qed

lemma popped_follows:
  assumes inv: "net_inv par n C" and ch: "chan_up C c = m # ms" and d: "0 < d" "d < n"
    and mono: "\<And>t k. status_of (srv C t) k \<noteq> Unknown \<Longrightarrow> status_of (S t) k \<noteq> Unknown"
    and taken: "\<And>k. reports k [m] \<noteq> [] \<Longrightarrow> status_of (S (par c)) k \<noteq> Unknown"
  shows "follows (\<lambda>k. status_of (S (par d)) k \<noteq> Unknown) (chan_up (pop_up c ms C) d)"
proof -
  have old: "follows (\<lambda>k. status_of (srv C (par d)) k \<noteq> Unknown) (chan_up C d)"
    using net_invD(4) [OF inv] d by (simp add: logs_follow_def)
  show ?thesis
  proof (cases "d = c")
    case True
    with old ch have "follows (\<lambda>k. status_of (srv C (par c)) k \<noteq> Unknown \<or> reports k [m] \<noteq> []) ms" by simp
    then have "follows (\<lambda>k. status_of (S (par c)) k \<noteq> Unknown) ms"
      by (rule follows_mono) (use mono taken in blast)
    then show ?thesis using True by simp
  next
    case False
    have "follows (\<lambda>k. status_of (S (par d)) k \<noteq> Unknown) (chan_up C d)" by (rule follows_mono [OF old]) (rule mono)
    then show ?thesis using False by simp
  qed
qed

lemma child_not_parent:
  assumes "server_good par (par c) (srv C (par c))" "tree par n" "0 < c" "c < n"
  shows "Peer c \<noteq> md_parent (srv C (par c))"
  using assms(1) tree_less [OF assms(2-4)] tree_less [OF assms(2), of "par c"] assms(4) by (auto simp: server_good_def split: if_splits)

lemma up_report_effect:
  assumes inv: "net_inv par n C" and tree: "tree par n" and c: "0 < c" "c < n" and x: "i32 r" "i32 d" "key_ok key" "corepath_ok cp"
  shows "\<exists>res pd'. handle_server_message depth env (Peer c) (report_msg r d key cp) (srv C (par c)) = Some (res, pd') \<and>
    effect (srv C (par c)) pd' (report_ups (srv C (par c)) r d key cp)
      (\<lambda>c'. case report_tells (srv C (par c)) r key of None \<Rightarrow> [] | Some x \<Rightarrow> tell_downs (Child_Server c) x key c') [] \<and>
    (\<forall>k'. status_of pd' k' = report_status (srv C (par c)) (Child_Server c) key k') \<and> rows_of pd' = rows_of (srv C (par c)) \<and>
    (par c \<noteq> 0 \<longrightarrow> plain_sites pd')"
proof -
  have "par c < n" using tree_less [OF tree c] c by simp
  then have good: "server_good par (par c) (srv C (par c))" using net_invD(6) [OF inv] by blast
  from handle_report_effect [OF _ x child_not_parent [OF good tree c], of depth env] good show ?thesis
    by (auto simp: server_good_def)
qed

lemma up_report_sim:
  assumes inv: "net_inv par n C" and tree: "tree par n" and c: "0 < c" "c < n" and ch: "chan_up C c = report_msg r d key cp # ms"
    and x: "i32 r" "i32 d" "key_ok key" "corepath_ok cp"
    and call: "handle_server_message depth env (Peer c) (report_msg r d key cp) (srv C (par c)) = Some (res, pd')"
    and A: "simulates n k C A"
  shows "simulates n k (moved par n (par c) pd' (pop_up c ms C))
      (if k = key then take_report (par c) (Child_Server c) r (A\<lparr>up := (up A)(c := reports k ms)\<rparr>) else A)"
    and "k = key \<Longrightarrow> up A c = r # reports k ms"
proof -
  let ?s = "par c" and ?C = "pop_up c ms C" and ?w = "Child_Server c"
  have s: "?s < n" using tree_less [OF tree c] c by simp
  have good: "server_good par ?s (srv C ?s)" "reporters_ok ?s C" using net_invD(6) [OF inv s] by simp_all
  from up_report_effect [OF inv tree c x, of depth env] call obtain
    eff: "effect (srv C ?s) pd' (report_ups (srv C ?s) r d key cp) (\<lambda>c'. case report_tells (srv C ?s) r key of None \<Rightarrow> [] | Some x \<Rightarrow> tell_downs ?w x key c') []"
    and st: "\<And>k'. status_of pd' k' = report_status (srv C ?s) ?w key k'" by auto
  have eff0: "effect (srv ?C ?s) pd' (report_ups (srv ?C ?s) r d key cp @ [])
      (\<lambda>c'. case report_tells (srv ?C ?s) r key of None \<Rightarrow> [] | Some x \<Rightarrow> tell_downs ?w x key c')
      (case report_tells (srv ?C ?s) r key of None \<Rightarrow> [] | Some x \<Rightarrow> tell_outs (srv ?C ?s) ?w x)"
    using eff by (simp add: tell_outs_def cong: option.case_cong)
  have w: "addressee par n ?s key ?C ?w" using c by (simp add: addressee_def is_child_def)
  have r0: "reporters_ok ?s ?C" using good(2) by (simp add: reporters_ok_def)
  let ?A = "A\<lparr>up := (up A)(c := reports k ms)\<rparr>"
  have up: "up A c = reports k [report_msg r d key cp] @ reports k ms"
    using A c ch reports_Cons [of k "report_msg r d key cp" ms] by (simp add: simulates_def)
  then show "k = key \<Longrightarrow> up A c = r # reports k ms" using reports_msg [OF x, of k] by simp
  have "simulates n k ?C (if k = key then ?A else A)"
    using A up reports_msg [OF x, of k] by (auto simp: simulates_def asked_in_def)
  from sim_report [OF this s _ x eff0 _ _ w r0]
  show "simulates n k (moved par n ?s pd' ?C) (if k = key then take_report ?s ?w r ?A else A)"
    using st good(1) by (cases "k = key") (simp_all add: server_good_def)
qed

lemma inv_up_report:
  assumes inv: "net_inv par n C" and tree: "tree par n" and c: "0 < c" "c < n" and ch: "chan_up C c = report_msg r d key cp # ms"
    and x: "i32 r" "i32 d" "key_ok key" "corepath_ok cp"
    and call: "handle_server_message depth env (Peer c) (report_msg r d key cp) (srv C (par c)) = Some (res, pd')"
  shows "net_inv par n (moved par n (par c) pd' (pop_up c ms C))"
proof -
  let ?s = "par c" and ?C = "pop_up c ms C" and ?w = "Child_Server c"
  let ?pd = "srv C ?s"
  have s: "?s < n" using tree_less [OF tree c] c by simp
  from up_report_effect [OF inv tree c x, of depth env] call obtain
    eff: "effect ?pd pd' (report_ups ?pd r d key cp) (\<lambda>c'. case report_tells ?pd r key of None \<Rightarrow> [] | Some x \<Rightarrow> tell_downs ?w x key c') []"
    and st: "\<And>k'. status_of pd' k' = report_status ?pd ?w key k'" and rows: "rows_of pd' = rows_of ?pd" "?s \<noteq> 0 \<Longrightarrow> plain_sites pd'" by auto
  show ?thesis
  proof (rule net_inv_moved [where u = "report_ups ?pd r d key cp" and v = "[]" and ot = "[]", OF _ _ s tree])
    show "effect (srv ?C ?s) pd' (report_ups ?pd r d key cp @ []) (\<lambda>c'. case report_tells ?pd r key of None \<Rightarrow> [] | Some x \<Rightarrow> tell_downs ?w x key c') []"
      using eff by simp
    show "\<forall>m \<in> set (case report_tells ?pd r key of None \<Rightarrow> [] | Some x \<Rightarrow> tell_downs ?w x key c'). response_fmt m" for c'
      using tell_downs_fmt [OF report_tells_i32 [OF x(1)] x(3)] by (cases "report_tells ?pd r key") simp_all
    show "\<exists>A. site_reachable par n A \<and> simulates n k (moved par n ?s pd' ?C) A" for k
    proof -
      obtain A where A: "site_reachable par n A" "simulates n k C A" using net_invD(3) [OF inv] by (auto simp: sites_inv_def)
      note sim = up_report_sim [OF inv tree c ch x call A(2)]
      then show ?thesis using A(1) site_step.upwards [OF c, of A r "reports k ms" par] by (cases "k = key") (auto intro: site_reachable.step)
    qed
    show "follows (\<lambda>k. status_of (srv (moved par n ?s pd' ?C) (par e)) k \<noteq> Unknown) (chan_up ?C e)" if "0 < e" "e < n" for e
      by (rule popped_follows [OF inv ch that])
        (use st reports_msg [OF x] in \<open>auto simp: moved_def dest: report_status_mono, auto simp: report_status_def split: if_splits\<close>)
    show "mset (logged ?C) = (if ?s = 0 then rows_of pd' else rows_of (srv ?C 0)) + (\<Sum>d\<in>{1..<n}. mset (logs (chan_up ?C d))) +
      (if ?s = 0 then {#} else mset (logs []))"
      using popped_rows [OF net_invD(5) [OF inv] ch c] rows(1) by auto
  qed (use rows popped_inv(1) [OF inv ch] report_ups_fmt [OF x] in auto)
qed

lemma log_head_known:
  assumes inv: "net_inv par n C" and c: "0 < c" "c < n" and ch: "chan_up C c = log_msg key row # ms" and x: "key_ok key" "row_ok row"
  shows "status_of (srv C (par c)) key \<noteq> Unknown"
proof -
  have "follows (\<lambda>k. status_of (srv C (par c)) k \<noteq> Unknown) (chan_up C c)"
    using net_invD(4) [OF inv] c by (simp add: logs_follow_def)
  from this [unfolded ch follows.simps] show ?thesis using x by blast
qed

lemma up_log_effect:
  assumes inv: "net_inv par n C" and tree: "tree par n" and c: "0 < c" "c < n" and ch: "chan_up C c = log_msg key row # ms"
    and x: "key_ok key" "row_ok row" "bit (opts (srv C 0)) OPT_CRASH_LOG"
  shows "\<exists>pd'. handle_server_message depth env (Peer c) (log_msg key row) (srv C (par c)) = Some (0, pd') \<and>
    effect (srv C (par c)) pd' (if par c = 0 then [] else [log_msg key row]) (\<lambda>_. []) [] \<and>
    (\<forall>k'. status_of pd' k' = status_of (srv C (par c)) k') \<and> (par c \<noteq> 0 \<longrightarrow> plain_sites pd') \<and>
    (par c = 0 \<longrightarrow> rows_of pd' = rows_of (srv C (par c)) + {#(key, row)#})"
proof -
  have "par c < n" using tree_less [OF tree c] c by simp
  then have good: "server_good par (par c) (srv C (par c))" "opts (srv C (par c)) = opts (srv C 0)" using net_invD(6) [OF inv] by blast+
  then have "bit (opts (srv C (par c))) OPT_CRASH_LOG" using x(3) by simp
  from handle_log_effect [OF _ log_head_known [OF inv c ch x(1,2)] x(1,2) this _ child_not_parent [OF good(1) tree c], of depth env] good(1)
  show ?thesis by (auto simp: server_good_def)
qed

lemma up_log_sim:
  assumes inv: "net_inv par n C" and tree: "tree par n" and c: "0 < c" "c < n" and ch: "chan_up C c = log_msg key row # ms"
    and x: "key_ok key" "row_ok row" "bit (opts (srv C 0)) OPT_CRASH_LOG"
    and call: "handle_server_message depth env (Peer c) (log_msg key row) (srv C (par c)) = Some (res, pd')"
    and A: "simulates n k C A"
  shows "simulates n k (moved par n (par c) pd' (pop_up c ms C)) A"
proof -
  have s: "par c < n" using tree_less [OF tree c] c by simp
  have "reporters_ok (par c) C" using net_invD(6) [OF inv s] by simp
  then have r0: "reporters_ok (par c) (pop_up c ms C)" by (simp add: reporters_ok_def)
  have "simulates n k (pop_up c ms C) A" using A ch c reports_Cons [of k "log_msg key row" ms] by (auto simp: simulates_def asked_in_def)
  from simulates_same [OF this s _ _ _ r0, of pd' "if par c = 0 then [] else [log_msg key row]" par]
    up_log_effect [OF inv tree c ch x, of depth env] call show ?thesis by auto
qed

lemma inv_up_log:
  assumes inv: "net_inv par n C" and tree: "tree par n" and c: "0 < c" "c < n" and ch: "chan_up C c = log_msg key row # ms"
    and x: "key_ok key" "row_ok row" "bit (opts (srv C 0)) OPT_CRASH_LOG"
    and call: "handle_server_message depth env (Peer c) (log_msg key row) (srv C (par c)) = Some (res, pd')"
  shows "net_inv par n (moved par n (par c) pd' (pop_up c ms C))"
proof -
  let ?s = "par c" and ?C = "pop_up c ms C"
  let ?pd = "srv C ?s" and ?v = "if ?s = 0 then [] else [log_msg key row]"
  have s: "?s < n" using tree_less [OF tree c] c by simp
  have log: "bit (opts ?pd) OPT_CRASH_LOG" using net_invD(6) [OF inv s] x(3) by metis
  from up_log_effect [OF inv tree c ch x, of depth env] call obtain
    eff: "effect ?pd pd' ?v (\<lambda>_. []) []" and st: "\<And>k'. status_of pd' k' = status_of ?pd k'"
    and rows: "?s \<noteq> 0 \<Longrightarrow> plain_sites pd'" "?s = 0 \<Longrightarrow> rows_of pd' = rows_of ?pd + {#(key, row)#}" by auto
  show ?thesis
  proof (rule net_inv_moved [where u = "[]" and v = ?v and ot = "[]" and d = "\<lambda>_. []", OF _ _ s tree])
    show "\<exists>A. site_reachable par n A \<and> simulates n k (moved par n ?s pd' ?C) A" for k
      using net_invD(3) [OF inv] up_log_sim [OF inv tree c ch x call] unfolding sites_inv_def by blast
    show "follows (\<lambda>k. status_of (srv (moved par n ?s pd' ?C) (par e)) k \<noteq> Unknown) (chan_up ?C e)" if "0 < e" "e < n" for e
      by (rule popped_follows [OF inv ch that]) (use st in \<open>auto simp: moved_def\<close>)
    show "mset (logged ?C) = (if ?s = 0 then rows_of pd' else rows_of (srv ?C 0)) + (\<Sum>d\<in>{1..<n}. mset (logs (chan_up ?C d))) +
      (if ?s = 0 then {#} else mset (logs ?v))"
      using popped_rows [OF net_invD(5) [OF inv] ch c] rows(2) logs_msg [OF x(1,2)] by auto
  qed (use rows eff log_head_known [OF inv c ch x(1,2)] st x log popped_inv(1) [OF inv ch] in auto)
qed

lemma waiting_valid:
  assumes inv: "net_inv par n C" and tree: "tree par n" and s: "s < n" and site: "the_site (crash_sites (srv C s)) key = Some e" "\<not> resolved e"
  shows "waiter_valid (srv C s) (waiter e)" and "addressee par n s key C (waiter_of (waiter e))"
proof -
  obtain A where A: "site_reachable par n A" "simulates n key C A" using net_invD(3) [OF inv] by (auto simp: sites_inv_def)
  have "status A s = Waiting (waiter_of (waiter e))" using A(2) s site by (simp add: simulates_def status_of_def)
  then have ok: "waiter_ok par n A s" "status A s = Waiting (waiter_of (waiter e))" using site_invD(4) [OF site_reachable_inv [OF A(1) tree]] by auto
  have r: "reporters_ok s C" using net_invD(6) [OF inv s] by simp
  show "addressee par n s key C (waiter_of (waiter e))"
    using ok A(2) s by (auto simp: waiter_ok_def addressee_def simulates_def asked_in_def is_child_def split: site_waiter.splits option.splits if_splits)
  then show "waiter_valid (srv C s) (waiter e)"
    using r by (auto simp: addressee_def waiter_valid_def waiter_of_def reporters_ok_def is_child_def
        split: crash_waiter_kind_t.splits node_peer_t.splits)
qed

lemma response_waiting:
  assumes inv: "net_inv par n C" and tree: "tree par n" and c: "0 < c" "c < n" and ch: "chan_down C c = response_msg x key # ms"
    and x: "i32 x" "key_ok key"
  shows "\<exists>w. status_of (srv C c) key = Waiting w \<and> addressee par n c key C w"
proof -
  obtain A where A: "site_reachable par n A" "simulates n key C A" using net_invD(3) [OF inv] by (auto simp: sites_inv_def)
  have "down A c = x # responses key ms"
    using A(2) c ch responses_msg [OF x, of key] stream_simps(4) [of key "[response_msg x key]" ms] by (simp add: simulates_def)
  then obtain w where "status_of (srv C c) key = Waiting w"
    using site_invD(2) [OF site_reachable_inv [OF A(1) tree] c] A(2) c by (auto simp: channel_ok_def simulates_def split: site_status.splits)
  then show ?thesis using waiting_valid(2) [OF inv tree c(2)] by (auto simp: status_of_def split: option.splits if_splits)
qed

lemma down_response_effect:
  assumes inv: "net_inv par n C" and tree: "tree par n" and c: "0 < c" "c < n" and x: "i32 x" "key_ok key"
    and w: "status_of (srv C c) key = Waiting w"
  shows "\<exists>res pd'. handle_server_message depth env (Peer (par c)) (response_msg x key) (srv C c) = Some (res, pd') \<and>
    effect (srv C c) pd' [] (tell_downs w x key) (tell_outs (srv C c) w x) \<and>
    (\<forall>k'. status_of pd' k' = (if k' = key then Decided else status_of (srv C c) k')) \<and> rows_of pd' = rows_of (srv C c) \<and> plain_sites pd'"
proof -
  have good: "server_good par c (srv C c)" using net_invD(6) [OF inv c(2)] by blast
  have "waiter_valid (srv C c) (waiter e)" if "the_site (crash_sites (srv C c)) key = Some e" for e
    using waiting_valid(1) [OF inv tree c(2) that] w that by (simp add: status_of_def split: if_splits)
  from handle_response_effect [OF _ x w _ this, of "Peer (par c)" depth env] good c show ?thesis by (auto simp: server_good_def)
qed

lemma down_response_sim:
  assumes inv: "net_inv par n C" and tree: "tree par n" and c: "0 < c" "c < n" and ch: "chan_down C c = response_msg x key # ms"
    and x: "i32 x" "key_ok key" and w: "status_of (srv C c) key = Waiting w"
    and call: "handle_server_message depth env (Peer (par c)) (response_msg x key) (srv C c) = Some (res, pd')"
    and A: "simulates n k C A"
  shows "simulates n k (moved par n c pd' (pop_down c ms C))
      (if k = key then tell c w x (A\<lparr>status := (status A)(c := Decided), down := (down A)(c := responses k ms)\<rparr>) else A)"
    and "k = key \<Longrightarrow> down A c = x # responses k ms \<and> status A c = Waiting w"
proof -
  let ?C = "pop_down c ms C"
  have split: "responses k (response_msg x key # ms) = (if key = k then [x] else []) @ responses k ms"
    using responses_msg [OF x, of k] stream_simps(4) [of k "[response_msg x key]" ms] by simp
  then have dn: "down A c = (if key = k then [x] else []) @ responses k ms" using A c ch by (simp add: simulates_def)
  then show "k = key \<Longrightarrow> down A c = x # responses k ms \<and> status A c = Waiting w" using A c w by (simp add: simulates_def)
  have "reporters_ok c C" using net_invD(6) [OF inv c(2)] by blast
  then have r0: "reporters_ok c ?C" by (simp add: reporters_ok_def)
  have adr: "addressee par n c key ?C w" using response_waiting [OF inv tree c ch x] w by (auto simp: addressee_def split: site_waiter.splits)
  from down_response_effect [OF inv tree c x w, of depth env] call obtain
    eff: "effect (srv C c) pd' [] (tell_downs w x key) (tell_outs (srv C c) w x)"
    and st: "\<And>k'. status_of pd' k' = (if k' = key then Decided else status_of (srv C c) k')" by auto
  let ?A0 = "A\<lparr>down := (down A)(c := responses k ms)\<rparr>"
  let ?A1 = "if k = key then A\<lparr>status := (status A)(c := Decided), down := (down A)(c := responses k ms)\<rparr> else ?A0"
  have "simulates n k ?C ?A0" using A by (auto simp: simulates_def asked_in_def)
  from simulates_tell [OF this c(2) _ x adr r0, of pd' "[]" ?A1] eff st A c
  have sim: "simulates n k (moved par n c pd' ?C) (if k = key then tell c w x ?A1 else ?A1)" by (auto simp: simulates_def)
  show "simulates n k (moved par n c pd' ?C) (if k = key then tell c w x (A\<lparr>status := (status A)(c := Decided), down := (down A)(c := responses k ms)\<rparr>) else A)"
  proof (cases "k = key")
    case False
    then have "responses k ms = down A c" using dn by simp
    then have "?A0 = A" by simp
    then show ?thesis using sim False by simp
  qed (use sim in simp)
qed

lemma inv_down_response:
  assumes inv: "net_inv par n C" and tree: "tree par n" and c: "0 < c" "c < n" and ch: "chan_down C c = response_msg x key # ms"
    and x: "i32 x" "key_ok key" and call: "handle_server_message depth env (Peer (par c)) (response_msg x key) (srv C c) = Some (res, pd')"
  shows "net_inv par n (moved par n c pd' (pop_down c ms C))"
proof -
  let ?C = "pop_down c ms C" and ?pd = "srv C c"
  obtain w where w: "status_of ?pd key = Waiting w" "addressee par n c key C w" using response_waiting [OF inv tree c ch x] by blast
  then have adr: "addressee par n c key ?C w" by (simp add: addressee_def cong: site_waiter.case_cong)
  note w = w(1)
  from down_response_effect [OF inv tree c x w, of depth env] call obtain
    eff: "effect ?pd pd' [] (tell_downs w x key) (tell_outs ?pd w x)" and st: "\<And>k'. status_of pd' k' = (if k' = key then Decided else status_of ?pd k')"
    and rows: "rows_of pd' = rows_of ?pd" "plain_sites pd'" by auto
  show ?thesis
  proof (rule net_inv_moved [where u = "[]" and v = "[]" and ot = "tell_outs ?pd w x" and d = "tell_downs w x key", OF _ _ c(2) tree])
    show "\<exists>A. site_reachable par n A \<and> simulates n k (moved par n c pd' ?C) A" for k
    proof -
      obtain A where A: "site_reachable par n A" "simulates n k C A" using net_invD(3) [OF inv] by (auto simp: sites_inv_def)
      note sim = down_response_sim [OF inv tree c ch x w call A(2)]
      then show ?thesis using A(1) site_step.downwards [OF c, of A x "responses k ms" w par] by (cases "k = key") (auto intro: site_reachable.step)
    qed
    show "follows (\<lambda>k. status_of (srv (moved par n c pd' ?C) (par e)) k \<noteq> Unknown) (chan_up ?C e)" if "0 < e" "e < n" for e
    proof -
      have "follows (\<lambda>k. status_of (srv C (par e)) k \<noteq> Unknown) (chan_up C e)" using net_invD(4) [OF inv] that by (simp add: logs_follow_def)
      then have "follows (\<lambda>k. status_of (srv (moved par n c pd' ?C) (par e)) k \<noteq> Unknown) (chan_up C e)"
        by (rule follows_mono) (use st in \<open>auto simp: moved_def\<close>)
      then show ?thesis by simp
    qed
    show "mset (logged ?C) = (if c = 0 then rows_of pd' else rows_of (srv ?C 0)) + (\<Sum>d\<in>{1..<n}. mset (logs (chan_up ?C d))) +
      (if c = 0 then {#} else mset (logs []))"
      using net_invD(5) [OF inv] c by (simp add: rows_inv_def)
    show "tell_outs ?pd w x = [] \<or> (\<exists>w' x' key. tell_outs ?pd w x = tell_outs (srv ?C c) w' x' \<and> addressee par n c key ?C w' \<and> i32 x')"
      using adr x(1) by auto
  qed (use rows eff x popped_inv(2) [OF inv ch] tell_downs_fmt [OF x] in auto)
qed

definition crash_start :: "(nat \<Rightarrow> nat) \<Rightarrow> nat \<Rightarrow> crash_net \<Rightarrow> bool" where
  "crash_start par n C \<longleftrightarrow>
     (\<forall>s < n. server_good par s (srv C s) \<and> opts (srv C s) = opts (srv C 0) \<and> crash_sites (srv C s) = [] \<and>
        (\<forall>nc. client_answers (srv C s) nc = [])) \<and>
     (\<forall>c. chan_up C c = [] \<and> chan_down C c = []) \<and> reported C = Map.empty \<and> logged C = []"

inductive crash_reachable :: "(nat \<Rightarrow> nat) \<Rightarrow> nat \<Rightarrow> crash_net \<Rightarrow> bool" for par n where
  init: "crash_start par n C \<Longrightarrow> crash_reachable par n C"
| onwards: "crash_reachable par n C \<Longrightarrow> crash_step par n C C' \<Longrightarrow> crash_reachable par n C'"

lemma net_inv_start:
  assumes "crash_start par n C" "0 < n"
  shows "net_inv par n C"
proof -
  have st: "s < n \<Longrightarrow> crash_sites (srv C s) = []" "s < n \<Longrightarrow> client_answers (srv C s) nc = []" "chan_up C c = []" "chan_down C c = []"
    "reported C = Map.empty" "logged C = []" for s nc c
    using assms(1) unfolding crash_start_def by blast+
  have "simulates n k C site_start" for k
    by (simp add: st simulates_def site_start_def status_of_def the_site_def asked_in_def)
  then have "sites_inv par n C" unfolding sites_inv_def using site_reachable.start by blast
  moreover have "reporters_ok s C" "s < n \<Longrightarrow> unasked_silent s C" for s by (simp_all add: reporters_ok_def unasked_silent_def st)
  then have "servers_inv par n C" using assms(1) unfolding crash_start_def servers_inv_def by blast
  moreover have "rows_inv n C" using assms(2) by (simp add: rows_inv_def rows_of_def st)
  ultimately show ?thesis by (simp add: net_inv_def channels_inv_def logs_follow_def st)
qed

text \<open>The head of a channel, and that its delivery succeeds.\<close>

lemma head_up:
  assumes "net_inv par n C" "0 < c" "c < n" "chan_up C c = m # ms"
  shows "(\<exists>r d k cp. m = report_msg r d k cp \<and> i32 r \<and> i32 d \<and> key_ok k \<and> corepath_ok cp) \<or>
    (\<exists>k row. m = log_msg k row \<and> key_ok k \<and> row_ok row \<and> bit (opts (srv C 0)) OPT_CRASH_LOG)"
proof -
  have "report_fmt m \<or> log_fmt m \<and> bit (opts (srv C 0)) OPT_CRASH_LOG"
    using net_invD(2) [OF assms(1)] assms(2-4) by (simp add: channels_inv_def)
  then show ?thesis unfolding report_fmt_def log_fmt_def by blast
qed

lemma head_down:
  assumes "net_inv par n C" "0 < c" "c < n" "chan_down C c = m # ms"
  shows "\<exists>x k. m = response_msg x k \<and> i32 x \<and> key_ok k"
  using net_invD(2) [OF assms(1)] assms(2-4) by (auto simp: channels_inv_def response_fmt_def)

lemma net_inv_deliver:
  assumes "deliver_step par n C C'" "net_inv par n C" "tree par n"
  shows "net_inv par n C'"
  using assms(1)
proof cases
  case (deliver_up c m ms depth env res pd')
  from head_up [OF assms(2) deliver_up(2-4)] show ?thesis
  proof (elim disjE exE conjE)
    fix r d k cp
    assume "m = report_msg r d k cp" "i32 r" "i32 d" "key_ok k" "corepath_ok cp"
    with deliver_up show ?thesis by (auto intro: inv_up_report [OF assms(2,3)])
  next
    fix k row
    assume "m = log_msg k row" "key_ok k" "row_ok row" "bit (opts (srv C 0)) OPT_CRASH_LOG"
    with deliver_up show ?thesis by (auto intro: inv_up_log [OF assms(2,3)])
  qed
next
  case (deliver_down c m ms depth env res pd')
  from head_down [OF assms(2) deliver_down(2-4)] obtain x k where "m = response_msg x k" "i32 x" "key_ok k" by blast
  with deliver_down show ?thesis by (auto intro: inv_down_response [OF assms(2,3)])
qed

lemma net_inv_step:
  assumes "crash_step par n C C'" "net_inv par n C" "tree par n"
  shows "net_inv par n C'"
  using assms(1)
proof cases
  case (client_string s m env nc res pd')
  have "bundle_inv (msgbundle (srv C s))" using net_invD(6) [OF assms(2) client_string(2)] by (simp add: server_good_def)
  from client_string_effect [OF this client_string(3,4)] client_string(1,2) show ?thesis
    using inv_client_string [OF assms(2,3)] by simp
next
  case (client_report s nc env m key r row res pd')
  then show ?thesis using inv_client_report [OF assms(2,3)] by simp
qed (use assms net_inv_deliver in blast)

lemma reachable_net_inv: "crash_reachable par n C \<Longrightarrow> tree par n \<Longrightarrow> net_inv par n C"
  by (induction rule: crash_reachable.induct) (auto intro: net_inv_start net_inv_step simp: tree_def)

end
