(* ===== verification/Crash_Agreement.thy ===== *)
theory Crash_Agreement
  imports Crash_Net Server_Process Exit_Protocol
begin

text \<open>
  The contract of the crash reports over a tree of servers, from the simulation of
  \<open>Crash_Net\<close>: of the processes that crash at one site at most one is told to dump core, exactly
  one once all messages are delivered; the root's log holds a row for every crash; and the
  delivery of the messages ends.
\<close>

definition settled :: "nat \<Rightarrow> crash_net \<Rightarrow> bool" where
  "settled n C \<longleftrightarrow> (\<forall>c. 0 < c \<longrightarrow> c < n \<longrightarrow> chan_up C c = [] \<and> chan_down C c = [])"

definition reporters :: "crash_net \<Rightarrow> byte list \<Rightarrow> (nat \<times> nat) set" where
  "reporters C k = {p. \<exists>r. reported C p = Some (k, r)}"

definition told :: "crash_net \<Rightarrow> nat \<times> nat \<Rightarrow> int list" where
  "told C p = client_answers (srv C (fst p)) (snd p)"

lemma abstract_site:
  assumes "crash_reachable par n C" "tree par n"
  obtains A where "site_reachable par n A" "site_inv par n A" "simulates n k C A"
  using net_invD(3) [OF reachable_net_inv [OF assms]] site_reachable_inv assms(2) unfolding sites_inv_def by blast

lemma reported_member: "crash_reachable par n C \<Longrightarrow> reported C p \<noteq> None \<Longrightarrow> fst p < n"
proof (induction rule: crash_reachable.induct)
  case (onwards C C')
  from onwards(2) show ?case
    by cases (use onwards in \<open>auto simp: note_report_def moved_def elim!: deliver_step.cases split: if_splits\<close>)
qed (simp add: crash_start_def)

lemma simulates_told:
  assumes "crash_reachable par n C" "simulates n k C A" "reported C p = Some (k, r)"
  shows "asked A p = Some r" "answers A p = told C p"
proof -
  have "fst p < n" using reported_member [OF assms(1)] assms(3) by simp
  then show "asked A p = Some r" "answers A p = told C p"
    using assms(2,3) by (cases p, simp_all add: simulates_def asked_in_def told_def)+
qed

lemma simulates_reported: "site_reachable par n A \<Longrightarrow> simulates n k C A \<Longrightarrow> asked A p = Some r \<Longrightarrow> reported C p = Some (k, r)"
  using asked_member [of par n A p] by (cases p) (auto simp: simulates_def asked_in_def split: option.splits if_splits)

section \<open>Delivery\<close>

definition log_load :: "nat \<Rightarrow> crash_net \<Rightarrow> nat" where
  "log_load n C = (\<Sum>c \<in> {1..<n}. c * length (logs (chan_up C c)))"

definition site_load :: "nat \<Rightarrow> byte list \<Rightarrow> crash_net \<Rightarrow> nat" where
  "site_load n k C = (\<Sum>s < n. case status_of (srv C s) k of
     Unknown \<Rightarrow> 3 | Waiting w \<Rightarrow> if reports k (chan_up C s) = [] then 1 else 2 | Decided \<Rightarrow> 0)"

definition crash_sites_of :: "crash_net \<Rightarrow> byte list set" where
  "crash_sites_of C = fst ` ran (reported C)"

definition load :: "nat \<Rightarrow> crash_net \<Rightarrow> nat" where
  "load n C = (\<Sum>k \<in> crash_sites_of C. site_load n k C) + log_load n C"

lemma site_load_effort:
  assumes "simulates n k C A" "site_inv par n A"
  shows "site_load n k C = effort n A"
proof -
  have "(case status_of (srv C s) k of Unknown \<Rightarrow> 3 | Waiting w \<Rightarrow> if reports k (chan_up C s) = [] then 1 else 2 | Decided \<Rightarrow> 0) = weight A s" if "s < n" for s
    using that assms(1) site_invD(1) [OF assms(2)] by (cases "s = 0") (auto simp: simulates_def weight_def split: site_status.split)
  then show ?thesis by (simp add: site_load_def effort_def)
qed

lemma reported_deliver: "deliver_step par n C C' \<Longrightarrow> reported C' = reported C"
  by (auto elim!: deliver_step.cases simp: moved_def)

lemma reported_finite: "crash_reachable par n C \<Longrightarrow> finite (ran (reported C))"
proof (induction rule: crash_reachable.induct)
  case (onwards C C')
  have upd: "finite (ran (m(p \<mapsto> v)))" if "finite (ran m)" for m :: "nat \<times> nat \<rightharpoonup> byte list \<times> int" and p v
    by (rule finite_subset [of _ "insert v (ran m)"]) (use that in \<open>auto simp: ran_def split: if_splits\<close>)
  from onwards(2) show ?case
    by cases (use onwards(3) upd in \<open>simp_all add: note_report_def moved_def reported_deliver del: fun_upd_apply\<close>)
qed (simp add: crash_start_def)

lemma asked_site:
  assumes "site_reachable par n A" "simulates n k C A" "A \<noteq> site_start"
  shows "k \<in> crash_sites_of C"
proof -
  obtain p r where "asked A p = Some r" using unasked_start [OF assms(1)] assms(3) by fastforce
  then have "reported C p = Some (k, r)" by (rule simulates_reported [OF assms(1,2)])
  then have "(k, r) \<in> ran (reported C)" by (rule ranI)
  then show ?thesis unfolding crash_sites_of_def by (rule rev_image_eqI) simp
qed

text \<open>One delivery of a question or an answer makes progress at its site and leaves the other
  sites and the rows as they are; one delivery of a row takes the row a step up the tree.\<close>

lemma load_site_less:
  assumes "finite (crash_sites_of C)" "key \<in> crash_sites_of C" "crash_sites_of C' = crash_sites_of C"
    and "site_load n key C' < site_load n key C" "\<And>k. k \<noteq> key \<Longrightarrow> site_load n k C' = site_load n k C"
    and "log_load n C' \<le> log_load n C"
  shows "load n C' < load n C"
proof -
  have "(\<Sum>k \<in> crash_sites_of C. site_load n k C') < (\<Sum>k \<in> crash_sites_of C. site_load n k C)"
    using assms(1,2,4,5) by (intro sum_strict_mono_ex1) (auto intro: less_imp_le elim: eq_refl, metis eq_refl less_imp_le)
  then show ?thesis using assms(3,6) by (simp add: load_def)
qed

lemma load_log_less:
  assumes "crash_sites_of C' = crash_sites_of C" "\<And>k. site_load n k C' = site_load n k C" "log_load n C' < log_load n C"
  shows "load n C' < load n C"
  using assms by (simp add: load_def)

lemma load_report:
  assumes inv: "net_inv par n C" and fin: "finite (crash_sites_of C)" and tree: "tree par n" and c: "0 < c" "c < n"
    and ch: "chan_up C c = report_msg r d key cp # ms" and x: "i32 r" "i32 d" "key_ok key" "corepath_ok cp"
    and call: "handle_server_message depth env (Peer c) (report_msg r d key cp) (srv C (par c)) = Some (res, pd')"
  shows "load n (moved par n (par c) pd' (pop_up c ms C)) < load n C"
proof -
  let ?C = "moved par n (par c) pd' (pop_up c ms C)"
  have site: "k = key \<Longrightarrow> k \<in> crash_sites_of C \<and> site_load n k ?C < site_load n k C" "k \<noteq> key \<Longrightarrow> site_load n k ?C = site_load n k C" for k
  proof -
    obtain A where A: "site_reachable par n A" "simulates n k C A" using net_invD(3) [OF inv] by (auto simp: sites_inv_def)
    note sim = up_report_sim [OF inv tree c ch x call A(2)]
    note a = site_reachable_inv [OF A(1) tree] site_load_effort [OF A(2) site_reachable_inv [OF A(1) tree]]
    show "site_load n k ?C = site_load n k C" if "k \<noteq> key" using that sim(1) a site_load_effort [of n k ?C A par] by simp
    show "k \<in> crash_sites_of C \<and> site_load n k ?C < site_load n k C" if k: "k = key"
    proof
      have u: "up A c = r # reports k ms" by (rule sim(2) [OF k])
      then show "k \<in> crash_sites_of C" by (intro asked_site [OF A]) (auto simp: site_start_def)
      have "site_inv par n (take_report (par c) (Child_Server c) r (A\<lparr>up := (up A)(c := reports k ms)\<rparr>))"
        by (rule site_inv_step [OF site_step.upwards [OF c u] tree a(1)])
      then show "site_load n k ?C < site_load n k C"
        using site_load_effort sim(1) k effort_step(1) [OF a(1) tree c u] a(2) by fastforce
    qed
  qed
  from up_report_effect [OF inv tree c x, of depth env] call obtain D where
    eff: "effect (srv (pop_up c ms C) (par c)) pd' (report_ups (srv C (par c)) r d key cp) D []" by auto
  have "logs (report_ups (srv C (par c)) r d key cp) = []" by (rule logs_reports [OF report_ups_fmt [OF x]])
  then have "logs (chan_up ?C e) = logs (chan_up C e)" for e
    using moved_effect(2) [OF eff, of par n] ch logs_Cons [of "report_msg r d key cp" ms] by simp
  then have "log_load n ?C = log_load n C" by (simp add: log_load_def)
  with site fin show ?thesis by (intro load_site_less [of _ key]) (simp_all add: crash_sites_of_def moved_def)
qed

lemma load_log:
  assumes inv: "net_inv par n C" and tree: "tree par n" and c: "0 < c" "c < n" and ch: "chan_up C c = log_msg key row # ms"
    and x: "key_ok key" "row_ok row" "bit (opts (srv C 0)) OPT_CRASH_LOG"
    and call: "handle_server_message depth env (Peer c) (log_msg key row) (srv C (par c)) = Some (res, pd')"
  shows "load n (moved par n (par c) pd' (pop_up c ms C)) < load n C"
proof (rule load_log_less)
  let ?C = "moved par n (par c) pd' (pop_up c ms C)"
  show "crash_sites_of ?C = crash_sites_of C" by (simp add: crash_sites_of_def moved_def)
  show "site_load n k ?C = site_load n k C" for k
  proof -
    obtain A where A: "site_reachable par n A" "simulates n k C A" using net_invD(3) [OF inv] by (auto simp: sites_inv_def)
    then show ?thesis
      using site_load_effort [OF _ site_reachable_inv [OF A(1) tree]] up_log_sim [OF inv tree c ch x call A(2)] by simp
  qed
  have pc: "par c < c" by (rule tree_less [OF tree c])
  from up_log_effect [OF inv tree c ch x, of depth env] call
  have eff: "effect (srv (pop_up c ms C) (par c)) pd' (if par c = 0 then [] else [log_msg key row]) (\<lambda>_. []) []" by auto
  let ?g = "\<lambda>e. e * length (logs (chan_up ?C e))" and ?f = "\<lambda>e. e * length (logs (chan_up C e))"
  have up: "?g e + (if e = c then c else 0) = ?f e + (if e = par c then par c else 0)" for e
    using pc ch logs_Cons [of "log_msg key row" ms] logs_msg [OF x(1,2)] by (simp add: moved_effect(2) [OF eff])
  have "(\<Sum>e \<in> {1..<n}. ?g e) + (\<Sum>e \<in> {1..<n}. if e = c then c else 0) = (\<Sum>e \<in> {1..<n}. ?f e) + (\<Sum>e \<in> {1..<n}. if e = par c then par c else 0)"
    unfolding sum.distrib [symmetric] up ..
  moreover have "(\<Sum>e \<in> {1..<n}. if e = par c then par c else 0) = par c" using c pc by simp
  moreover have "(\<Sum>e \<in> {1..<n}. if e = c then c else 0) = c" using c by simp
  ultimately show "log_load n ?C < log_load n C" using pc unfolding log_load_def by linarith
qed

lemma load_response:
  assumes inv: "net_inv par n C" and fin: "finite (crash_sites_of C)" and tree: "tree par n" and c: "0 < c" "c < n"
    and ch: "chan_down C c = response_msg x key # ms" and x: "i32 x" "key_ok key"
    and call: "handle_server_message depth env (Peer (par c)) (response_msg x key) (srv C c) = Some (res, pd')"
  shows "load n (moved par n c pd' (pop_down c ms C)) < load n C"
proof -
  let ?C = "moved par n c pd' (pop_down c ms C)"
  obtain w where w: "status_of (srv C c) key = Waiting w" using response_waiting [OF inv tree c ch x] by blast
  have site: "k = key \<Longrightarrow> k \<in> crash_sites_of C \<and> site_load n k ?C < site_load n k C" "k \<noteq> key \<Longrightarrow> site_load n k ?C = site_load n k C" for k
  proof -
    obtain A where A: "site_reachable par n A" "simulates n k C A" using net_invD(3) [OF inv] by (auto simp: sites_inv_def)
    note sim = down_response_sim [OF inv tree c ch x w call A(2)]
    note a = site_reachable_inv [OF A(1) tree] site_load_effort [OF A(2) site_reachable_inv [OF A(1) tree]]
    show "site_load n k ?C = site_load n k C" if "k \<noteq> key" using that sim(1) a site_load_effort [of n k ?C A par] by simp
    show "k \<in> crash_sites_of C \<and> site_load n k ?C < site_load n k C" if k: "k = key"
    proof
      have u: "down A c = x # responses k ms" "status A c = Waiting w" using sim(2) [OF k] by blast+
      then show "k \<in> crash_sites_of C" by (intro asked_site [OF A]) (auto simp: site_start_def)
      have "site_inv par n (tell c w x (A\<lparr>status := (status A)(c := Decided), down := (down A)(c := responses k ms)\<rparr>))"
        by (rule site_inv_step [OF site_step.downwards [OF c u] tree a(1)])
      then show "site_load n k ?C < site_load n k C"
        using site_load_effort sim(1) k effort_step(2) [OF a(1) tree c u] a(2) by fastforce
    qed
  qed
  from down_response_effect [OF inv tree c x w, of depth env] call
  have "effect (srv (pop_down c ms C) c) pd' [] (tell_downs w x key) (tell_outs (srv C c) w x)" by auto
  from moved_effect(2) [OF this, of par n] have "log_load n ?C = log_load n C" by (simp add: log_load_def)
  with site fin show ?thesis by (intro load_site_less [of _ key]) (simp_all add: crash_sites_of_def moved_def)
qed

lemma load_deliver:
  assumes inv: "net_inv par n C" and fin: "finite (crash_sites_of C)" and tree: "tree par n" and "deliver_step par n C C'"
  shows "load n C' < load n C"
  using assms(4)
proof cases
  case (deliver_up c m ms depth env res pd')
  from head_up [OF inv deliver_up(2-4)] show ?thesis
  proof (elim disjE exE conjE)
    fix r d k cp
    assume "m = report_msg r d k cp" "i32 r" "i32 d" "key_ok k" "corepath_ok cp"
    with deliver_up show ?thesis by (auto intro: load_report [OF inv fin tree])
  next
    fix k row
    assume "m = log_msg k row" "key_ok k" "row_ok row" "bit (opts (srv C 0)) OPT_CRASH_LOG"
    with deliver_up show ?thesis by (auto intro: load_log [OF inv tree])
  qed
next
  case (deliver_down c m ms depth env res pd')
  from head_down [OF inv deliver_down(2-4)] obtain x k where "m = response_msg x k" "i32 x" "key_ok k" by blast
  with deliver_down show ?thesis by (auto intro: load_response [OF inv fin tree])
qed

lemma deliver_progress:
  assumes inv: "net_inv par n C" and tree: "tree par n" and "\<not> settled n C"
  shows "\<exists>C'. deliver_step par n C C'"
proof -
  obtain c where c: "0 < c" "c < n" "chan_up C c \<noteq> [] \<or> chan_down C c \<noteq> []" using assms(3) by (auto simp: settled_def)
  have "\<exists>C'. deliver_step par n C C'" if ch: "chan_up C c = m # ms" for m ms
    using head_up [OF inv c(1,2) ch]
  proof (elim disjE exE conjE)
    fix r d k cp
    assume m: "m = report_msg r d k cp" and x: "i32 r" "i32 d" "key_ok k" "corepath_ok cp"
    show ?thesis using up_report_effect [OF inv tree c(1,2) x] deliver_up [OF c(1,2) ch] unfolding m by blast
  next
    fix k row
    assume m: "m = log_msg k row" and x: "key_ok k" "row_ok row" "bit (opts (srv C 0)) OPT_CRASH_LOG"
    show ?thesis using up_log_effect [OF inv tree c(1,2) ch [unfolded m] x] deliver_up [OF c(1,2) ch] unfolding m by blast
  qed
  moreover have "\<exists>C'. deliver_step par n C C'" if ch: "chan_down C c = m # ms" for m ms
  proof -
    obtain x k where m: "m = response_msg x k" and x: "i32 x" "key_ok k" using head_down [OF inv c(1,2) ch] by blast
    obtain w where w: "status_of (srv C c) k = Waiting w" using response_waiting [OF inv tree c(1,2) ch [unfolded m] x] by blast
    show ?thesis using down_response_effect [OF inv tree c(1,2) x w] deliver_down [OF c(1,2) ch] unfolding m by blast
  qed
  ultimately show ?thesis using c(3) by (meson neq_Nil_conv)
qed

lemma reachable_sites_finite: "crash_reachable par n C \<Longrightarrow> finite (crash_sites_of C)"
  unfolding crash_sites_of_def by (intro finite_imageI reported_finite)

lemma deliver_same:
  assumes inv: "net_inv par n C" and tree: "tree par n" and "deliver_step par n C C'"
  shows "same_server (srv C s) (srv C' s)"
  using assms(3)
proof cases
  case (deliver_up c m ms depth env res pd')
  have "same_server (srv C (par c)) pd'"
    using head_up [OF inv deliver_up(2-4)]
  proof (elim disjE exE conjE)
    fix r d k cp
    assume "m = report_msg r d k cp" "i32 r" "i32 d" "key_ok k" "corepath_ok cp"
    with up_report_effect [OF inv tree deliver_up(2,3), of r d k cp depth env] deliver_up(5) show ?thesis by (auto simp: effect_def)
  next
    fix k row
    assume "m = log_msg k row" "key_ok k" "row_ok row" "bit (opts (srv C 0)) OPT_CRASH_LOG"
    with up_log_effect [OF inv tree deliver_up(2,3), of k row ms depth env] deliver_up(4,5) show ?thesis by (auto simp: effect_def)
  qed
  then show ?thesis by (simp add: deliver_up(1) moved_def)
next
  case (deliver_down c m ms depth env res pd')
  obtain x k where m: "m = response_msg x k" "i32 x" "key_ok k" using head_down [OF inv deliver_down(2-4)] by blast
  obtain w where w: "status_of (srv C c) k = Waiting w" using response_waiting [OF inv tree deliver_down(2,3)] deliver_down(4) m by blast
  from down_response_effect [OF inv tree deliver_down(2,3) m(2,3) w, of depth env] deliver_down(5) m(1)
  have "same_server (srv C c) pd'" by (auto simp: effect_def)
  then show ?thesis by (simp add: deliver_down(1) moved_def)
qed

lemma reach_deliver: "(deliver_step par n)\<^sup>*\<^sup>* C C' \<Longrightarrow> crash_reachable par n C \<Longrightarrow> tree par n \<Longrightarrow>
    crash_reachable par n C' \<and> reported C' = reported C \<and> logged C' = logged C \<and> same_server (srv C 0) (srv C' 0)"
proof (induction rule: rtranclp_induct)
  case (step C1 C2)
  have "logged C2 = logged C1" using step(2) by (auto elim!: deliver_step.cases simp: moved_def)
  moreover have "same_server (srv C1 0) (srv C2 0)" using deliver_same [OF reachable_net_inv _ step(2)] step by blast
  then have "same_server (srv C 0) (srv C2 0)" using step by (simp add: same_server_def)
  ultimately show ?case using step reported_deliver [OF step(2)] crash_step.delivery [OF step(2)] crash_reachable.onwards by metis
qed simp

lemma deliver_to_settled:
  assumes "crash_reachable par n C" "tree par n"
  shows "\<exists>C'. (deliver_step par n)\<^sup>*\<^sup>* C C' \<and> settled n C'"
  using assms(1)
proof (induction "load n C" arbitrary: C rule: less_induct)
  case less
  note inv = reachable_net_inv [OF less.prems assms(2)]
  show ?case
  proof (cases "settled n C")
    case False
    then obtain C1 where step: "deliver_step par n C C1" using deliver_progress [OF inv assms(2)] by blast
    have "crash_reachable par n C1" using less.prems step by (blast intro: crash_reachable.onwards crash_step.delivery)
    with less.hyps [OF load_deliver [OF inv reachable_sites_finite [OF less.prems] assms(2) step]]
    obtain C2 where "(deliver_step par n)\<^sup>*\<^sup>* C1 C2" "settled n C2" by blast
    then show ?thesis using step converse_rtranclp_into_rtranclp by metis
  qed auto
qed

section \<open>An example\<close>

text \<open>A root with two children, each with one client; the clients of the children crash at the
  same site.\<close>

definition crash_example_server :: "nat \<Rightarrow> ldcs_process_data_t" where
  "crash_example_server s = (start_state (example_args s 12884901920) LDCS_PUSH)
     \<lparr>md_parent := (if s = 0 then NODE_PEER_NULL else Peer 0),
      client_table := [(new_client 7 free_slot)\<lparr>remote_pid := 100 + int s, crash_exe := Some ''/bin/a''\<rparr>], client_table_used := 1, clients_live := 1\<rparr>"

definition crash_example :: crash_net where
  "crash_example = \<lparr>srv = crash_example_server, chan_up = (\<lambda>_. []), chan_down = (\<lambda>_. []), reported = Map.empty, logged = []\<rparr>"

definition crash_example_key :: "byte list" where
  "crash_example_key = ''/bin/a|abort:x'' @ [NUL]"

definition crash_example_row :: "nat \<Rightarrow> crash_log_rank_t" where
  "crash_example_row s = \<lparr>row_rank = int s, row_pid = 100 + int s, row_timestamp = 0, row_hostname = ''node''\<rparr>"

lemma crash_example_start: "crash_start (\<lambda>_. 0) 3 crash_example"
  by (simp add: crash_start_def crash_example_def server_good_def crash_example_server_def start_state_def example_args_def bundle_inv_def plain_sites_def
    client_answers_def answers_to_def OPT_CRASH_HANDLER_def bit_iff_odd_drop_bit drop_bit_eq_div)

lemma crash_example_tree: "tree (\<lambda>_. 0) 3"
  by (simp add: tree_def)

lemma crash_example_reporting:
  assumes "s < 3" "client_table pd = client_table (crash_example_server s)" "filemngt pd = filemngt (crash_example_server s)" "hostname pd = ''node''"
  shows "reporting pd example_env 0 (report_msg (int s) (int s) (''abort:x'' @ [NUL]) None) crash_example_key (int s) (crash_example_row s)"
proof -
  have "crash_parse_report (report_msg (int s) (int s) (''abort:x'' @ [NUL]) None) = Some (int s, int s, ''abort:x'' @ [NUL], None)"
    using assms(1) by (intro parse_report_msg) (simp_all add: i32_def key_ok_def corepath_ok_def)
  then show ?thesis using assms
    by (simp add: NUL_def reporting_def crash_key_def  crash_build_key_def crash_original_site_def crash_site_offset_def crash_original_path_def
      lookup_global_name_def parse_name_def ldcs_is_a_cachedfile_def the_client_def crash_example_server_def new_client_def start_state_def example_args_def
      crash_example_key_def c_str_def cstr_def crash_example_row_def example_env_def key_ok_def corepath_ok_def row_ok_def i32_def report_msg_def mk_msg_def)
qed
lemma client_report_exists:
  assumes "crash_reachable par n C" "tree par n" "s < n" "reported C (s, nc) = None" "reporting (srv C s) env nc m key r row"
  shows "\<exists>C'. crash_reachable par n C' \<and> reported C' = (reported C)((s, nc) \<mapsto> (key, r)) \<and> (\<forall>t. t \<noteq> s \<longrightarrow> srv C' t = srv C t) \<and>
    logged C' = logged C @ (if bit (opts (srv C s)) OPT_CRASH_LOG then [(key, row)] else []) \<and>
    (status_of (srv C s) key = Unknown \<longrightarrow> s \<noteq> 0 \<longrightarrow> chan_up C' s \<noteq> [])"
proof -
  have good: "server_good par s (srv C s)" using net_invD(6) [OF reachable_net_inv [OF assms(1,2)] assms(3)] by blast
  then have g: "bundle_inv (msgbundle (srv C s))" "bit (opts (srv C s)) OPT_CRASH_HANDLER" "md_rank (srv C s) = s" "s \<noteq> 0 \<Longrightarrow> plain_sites (srv C s)"
    by (simp_all add: server_good_def)
  from client_report_effect [OF g(1) assms(5) g(2)] g(3,4) obtain res pd' d cp where
    call: "handle_client_message env nc m (srv C s) = Some (res, pd')" and
    eff: "effect (srv C s) pd' (report_ups (srv C s) r d key cp @ (if bit (opts (srv C s)) OPT_CRASH_LOG \<and> md_rank (srv C s) \<noteq> 0 then [log_msg key row] else []))
      (\<lambda>_. []) (case report_tells (srv C s) r key of None \<Rightarrow> [] | Some x \<Rightarrow> tell_outs (srv C s) (Local_Client nc r) x)" by auto
  let ?C = "note_report s nc key r row (moved par n s pd' C)"
  have "opts pd' = opts (srv C s)" using eff by (simp add: effect_def same_server_def)
  then have "logged ?C = logged C @ (if bit (opts (srv C s)) OPT_CRASH_LOG then [(key, row)] else [])"
    "reported ?C = (reported C)((s, nc) \<mapsto> (key, r))" "\<forall>t. t \<noteq> s \<longrightarrow> srv ?C t = srv C t"
    by (simp_all add: note_report_def moved_def)
  moreover have "status_of (srv C s) key = Unknown \<Longrightarrow> s \<noteq> 0 \<Longrightarrow> chan_up ?C s \<noteq> []"
    using moved_effect(2) [OF eff, of par n] g(3) by (simp add: note_report_def report_ups_def)
  moreover have "crash_reachable par n ?C"
    by (rule crash_reachable.onwards [OF assms(1) crash_step.client_report [OF assms(3-5) call]])
  ultimately show ?thesis by blast
qed

lemma crash_example_run:
  "\<exists>C. crash_reachable (\<lambda>_. 0) 3 C \<and> reported C = [(1, 0) \<mapsto> (crash_example_key, 1), (2, 0) \<mapsto> (crash_example_key, 2)] \<and>
    logged C = [(crash_example_key, crash_example_row 1), (crash_example_key, crash_example_row 2)] \<and>
    srv C 0 = crash_example_server 0 \<and> \<not> settled 3 C"
proof -
  have srv: "srv crash_example s = crash_example_server s" for s by (simp add: crash_example_def)
  have log: "bit (opts (crash_example_server s)) OPT_CRASH_LOG" "hostname (crash_example_server s) = ''node''"
    "status_of (crash_example_server s) k = Unknown" for s k
    by (simp_all add: crash_example_server_def start_state_def example_args_def OPT_CRASH_LOG_def bit_iff_odd_drop_bit drop_bit_eq_div status_of_def the_site_def)
  let ?m = "\<lambda>s. report_msg (int s) (int s) (''abort:x'' @ [NUL]) None"
  have "reporting (srv crash_example 1) example_env 0 (?m 1) crash_example_key (int 1) (crash_example_row 1)"
    by (rule crash_example_reporting) (simp_all add: srv log)
  from client_report_exists [OF crash_reachable.init [OF crash_example_start] crash_example_tree _ _ this]
  obtain C1 where C1: "crash_reachable (\<lambda>_. 0) 3 C1" "reported C1 = [(1, 0) \<mapsto> (crash_example_key, 1)]"
    "srv C1 2 = crash_example_server 2" "srv C1 0 = crash_example_server 0" "logged C1 = [(crash_example_key, crash_example_row 1)]"
    unfolding srv log using numeral_eq_one_iff by (auto simp: log crash_example_def)
  have "reporting (srv C1 2) example_env 0 (?m 2) crash_example_key (int 2) (crash_example_row 2)"
    by (rule crash_example_reporting) (simp_all add: C1 log)
  from client_report_exists [OF C1(1) crash_example_tree _ _ this]
  obtain C2 where "crash_reachable (\<lambda>_. 0) 3 C2" "reported C2 = [(1, 0) \<mapsto> (crash_example_key, 1), (2, 0) \<mapsto> (crash_example_key, 2)]"
    "logged C2 = [(crash_example_key, crash_example_row 1), (crash_example_key, crash_example_row 2)]" "chan_up C2 2 \<noteq> []" "srv C2 0 = crash_example_server 0"
    by (auto simp: C1 log)
  moreover have "\<not> settled 3 C2" using \<open>chan_up C2 2 \<noteq> []\<close> unfolding settled_def by (metis less_2_cases_iff numeral_2_eq_2 numeral_3_eq_3 lessI zero_less_Suc)
  ultimately show ?thesis by blast
qed

lemma crash_example_settled:
  "\<exists>C. crash_reachable (\<lambda>_. 0) 3 C \<and> settled 3 C \<and> reported C = [(1, 0) \<mapsto> (crash_example_key, 1), (2, 0) \<mapsto> (crash_example_key, 2)] \<and>
    logged C = [(crash_example_key, crash_example_row 1), (crash_example_key, crash_example_row 2)] \<and> same_server (crash_example_server 0) (srv C 0)"
proof -
  obtain C where C: "crash_reachable (\<lambda>_. 0) 3 C" "reported C = [(1, 0) \<mapsto> (crash_example_key, 1), (2, 0) \<mapsto> (crash_example_key, 2)]"
    "logged C = [(crash_example_key, crash_example_row 1), (crash_example_key, crash_example_row 2)]" "srv C 0 = crash_example_server 0"
    using crash_example_run by blast
  then show ?thesis using deliver_to_settled [OF C(1) crash_example_tree] reach_deliver [OF _ C(1) crash_example_tree] by metis
qed

section \<open>The contract\<close>

lemma answered_at_most_once:
  assumes "crash_reachable par n C" "tree par n"
  shows "\<And>p r. reported C p = Some (k, r) \<Longrightarrow> told C p \<in> {[], [-1], [r]}"
    and "\<And>p q. p \<in> reporters C k \<Longrightarrow> q \<in> reporters C k \<Longrightarrow> told C p \<notin> {[], [-1]} \<Longrightarrow> told C q \<notin> {[], [-1]} \<Longrightarrow> p = q"
proof -
  obtain A where A: "site_inv par n A" "simulates n k C A" by (rule abstract_site [OF assms])
  show one: "told C p \<in> {[], [-1], [r]}" if "reported C p = Some (k, r)" for p r
    using answers_bound [OF A(1), of "fst p" "snd p"] simulates_told [OF assms(1) A(2) that] by auto
  show "p = q" if "p \<in> reporters C k" "q \<in> reporters C k" "told C p \<notin> {[], [-1]}" "told C q \<notin> {[], [-1]}" for p q
  proof -
    note given = that
    obtain r u where "reported C p = Some (k, r)" "reported C q = Some (k, u)" using given(1,2) by (auto simp: reporters_def)
    with one given(3,4) simulates_told(2) [OF assms(1) A(2)]
    have "r \<in> set (answers A p)" "r \<noteq> -1" "u \<in> set (answers A q)" "u \<noteq> -1" by fastforce+
    then show "p = q" by (rule one_winner [OF A(1)])
  qed
qed

lemma one_told_to_dump:
  assumes "crash_reachable par n C" "tree par n" "settled n C" and "reporters C k \<noteq> {}"
  shows "\<exists>!p. p \<in> reporters C k \<and> told C p \<noteq> [-1]"
    and "\<exists>p r. reported C p = Some (k, r) \<and> told C p = [r] \<and> (\<forall>q \<in> reporters C k. q \<noteq> p \<longrightarrow> told C q = [-1])"
proof -
  obtain A where A: "site_reachable par n A" "site_inv par n A" "simulates n k C A" by (rule abstract_site [OF assms(1,2)])
  obtain s nc r where p: "reported C (s, nc) = Some (k, r)" using assms(4) by (auto simp: reporters_def)
  have quiet: "quiet n A" using assms(3) A(3) by (simp add: quiet_def settled_def simulates_def)
  have s: "s < n" using reported_member [OF assms(1)] p by fastforce
  from quiet_answered [OF A(2) assms(2) quiet s simulates_told(1) [OF assms(1) A(3) p]]
  obtain t m v where win: "asked A (t, m) = Some v" "answers A (t, m) = [v]"
    and lose: "\<And>q u. fst q < n \<Longrightarrow> asked A q = Some u \<Longrightarrow> q \<noteq> (t, m) \<Longrightarrow> answers A q = [-1]" by blast
  have w: "reported C (t, m) = Some (k, v)" by (rule simulates_reported [OF A(1,3) win(1)])
  have wt: "told C (t, m) = [v]" using win(2) simulates_told(2) [OF assms(1) A(3) w] by simp
  have v: "v \<noteq> -1" using site_invD(6) [OF A(2), of t m] win(1) by (simp add: client_answers_ok_def)
  have others: "told C q = [-1]" if q: "q \<in> reporters C k" "q \<noteq> (t, m)" for q
  proof -
    obtain u where u: "reported C q = Some (k, u)" using q(1) by (auto simp: reporters_def)
    then have "fst q < n" using reported_member [OF assms(1)] by simp
    with lose [OF _ simulates_told(1) [OF assms(1) A(3) u] q(2)] simulates_told(2) [OF assms(1) A(3) u] show ?thesis by simp
  qed
  then show "\<exists>p r. reported C p = Some (k, r) \<and> told C p = [r] \<and> (\<forall>q \<in> reporters C k. q \<noteq> p \<longrightarrow> told C q = [-1])" using w wt by blast
  have "(t, m) \<in> reporters C k \<and> told C (t, m) \<noteq> [-1]" using w wt v by (auto simp: reporters_def)
  then show "\<exists>!p. p \<in> reporters C k \<and> told C p \<noteq> [-1]" using others by blast
qed

text \<open>C4. Refinement: whatever the clients report and in whatever order the messages between the
  servers are delivered, the states of the servers and of the channels refine, for every crash
  site, a reachable state of the abstract tree of \<open>Crash_Spec\<close>.\<close>

theorem crash_net_refines:
  assumes "crash_reachable par n C" "tree par n"
  shows "\<exists>A. site_reachable par n A \<and> simulates n k C A"
  using net_invD(3) [OF reachable_net_inv [OF assms]] unfolding sites_inv_def by blast

theorem crash_net_refines_witness:
  "\<exists>C. crash_reachable (\<lambda>_. 0) 3 C \<and> reporters C crash_example_key = {(1, 0), (2, 0)} \<and>
    (\<exists>A. site_reachable (\<lambda>_. 0) 3 A \<and> simulates 3 crash_example_key C A)"
proof -
  obtain C where C: "crash_reachable (\<lambda>_. 0) 3 C" "reported C = [(1, 0) \<mapsto> (crash_example_key, 1), (2, 0) \<mapsto> (crash_example_key, 2)]"
    using crash_example_run by blast
  then show ?thesis using crash_net_refines [OF C(1) crash_example_tree, of crash_example_key] by (auto simp: reporters_def split: if_splits)
qed

text \<open>C2. Of the processes that crash at one site at most one is ever told to dump core: a process
  that has reported is answered at most once, with -1 or with its own rank, and two processes of
  one site are never both answered with something other than -1.\<close>

theorem crash_at_most_one:
  assumes "crash_reachable par n C" "tree par n"
  shows "(\<forall>p r. reported C p = Some (k, r) \<longrightarrow> told C p \<in> {[], [-1], [r]}) \<and>
    (\<forall>p \<in> reporters C k. \<forall>q \<in> reporters C k. told C p \<notin> {[], [-1]} \<longrightarrow> told C q \<notin> {[], [-1]} \<longrightarrow> p = q)"
  using answered_at_most_once [OF assms] by blast

theorem crash_at_most_one_witness:
  "\<exists>C. crash_reachable (\<lambda>_. 0) 3 C \<and> told C (1, 0) \<in> {[], [-1], [1]} \<and> told C (2, 0) \<in> {[], [-1], [2]} \<and>
    \<not> (told C (1, 0) = [1] \<and> told C (2, 0) = [2])"
proof -
  obtain C where C: "crash_reachable (\<lambda>_. 0) 3 C" "reported C = [(1, 0) \<mapsto> (crash_example_key, 1), (2, 0) \<mapsto> (crash_example_key, 2)]"
    using crash_example_run by blast
  then have "(1, 0) \<in> reporters C crash_example_key" "(2, 0) \<in> reporters C crash_example_key" by (auto simp: reporters_def)
  note c = crash_at_most_one [OF C(1) crash_example_tree, of crash_example_key]
  have "told C (1, 0) \<in> {[], [-1], [1]}" "told C (2, 0) \<in> {[], [-1], [2]}"
    by (rule mp [OF spec [OF spec [OF conjunct1 [OF c]]]], simp add: C(2))+
  moreover have "told C (1, 0) \<notin> {[], [-1]} \<longrightarrow> told C (2, 0) \<notin> {[], [-1]} \<longrightarrow> (1, 0) = (2 :: nat, 0 :: nat)"
    by (rule bspec [OF bspec [OF conjunct2 [OF c]]]) fact+
  ultimately have "told C (1, 0) \<in> {[], [-1], [1]} \<and> told C (2, 0) \<in> {[], [-1], [2]} \<and> \<not> (told C (1, 0) = [1] \<and> told C (2, 0) = [2])" by auto
  then show ?thesis using C(1) by blast
qed

text \<open>C1. Once every message is delivered, exactly one of the processes that crashed at a site has
  been told its own rank, and all others have been told -1.\<close>

theorem crash_exactly_one:
  assumes "crash_reachable par n C" "tree par n" "settled n C" "reporters C k \<noteq> {}"
  shows "(\<exists>!p. p \<in> reporters C k \<and> told C p \<noteq> [-1]) \<and>
    (\<exists>p r. reported C p = Some (k, r) \<and> told C p = [r] \<and> (\<forall>q \<in> reporters C k. q \<noteq> p \<longrightarrow> told C q = [-1]))"
  using one_told_to_dump [OF assms] by blast

theorem crash_exactly_one_witness:
  "\<exists>C. crash_reachable (\<lambda>_. 0) 3 C \<and> settled 3 C \<and> (told C (1, 0) = [1] \<and> told C (2, 0) = [-1] \<or> told C (1, 0) = [-1] \<and> told C (2, 0) = [2])"
proof -
  obtain C where C: "crash_reachable (\<lambda>_. 0) 3 C" "settled 3 C"
    "reported C = [(1, 0) \<mapsto> (crash_example_key, 1), (2, 0) \<mapsto> (crash_example_key, 2)]"
    using crash_example_settled by blast
  then have rep: "reporters C crash_example_key = {(1, 0), (2, 0)}" by (auto simp: reporters_def split: if_splits)
  with crash_exactly_one [OF C(1) crash_example_tree C(2), of crash_example_key] C show ?thesis by (auto split: if_splits)
qed

text \<open>C7. The log of the root is complete: the rows of every crash that a client has reported under
  \<open>OPT_CRASH_LOG\<close> are those that the root holds and those still on their way to it, none lost and
  none twice; once all messages are delivered the root holds them all.\<close>

theorem crash_log_complete:
  assumes "crash_reachable par n C" "tree par n"
  shows "mset (logged C) = rows_of (srv C 0) + (\<Sum>c \<in> {1..<n}. mset (logs (chan_up C c))) \<and>
    (settled n C \<longrightarrow> rows_of (srv C 0) = mset (logged C))"
  using net_invD(5) [OF reachable_net_inv [OF assms]] by (simp add: rows_inv_def settled_def)

theorem crash_log_complete_witness:
  "\<exists>C. crash_reachable (\<lambda>_. 0) 3 C \<and>
    rows_of (srv C 0) = {#(crash_example_key, crash_example_row 1), (crash_example_key, crash_example_row 2)#}"
proof -
  obtain C where C: "crash_reachable (\<lambda>_. 0) 3 C" "settled 3 C"
    "logged C = [(crash_example_key, crash_example_row 1), (crash_example_key, crash_example_row 2)]"
    using crash_example_settled by blast
  then show ?thesis using crash_log_complete [OF C(1) crash_example_tree, THEN conjunct2] by (intro exI [of _ C]) simp
qed



end
