(* ===== verification/Crash_Log.thy ===== *)
theory Crash_Log
  imports Crash_Agreement
begin

text \<open>
  The crash log that the root writes when its server loop has ended
  (\<open>ldcs_audit_server_crash_log.c\<close>): one line of comma-separated values for every row of every
  site. The text that is written can be read back.
\<close>

section \<open>Rows in order\<close>

text \<open>\<open>strcmp\<close>: the sign of the difference of the first bytes that differ, as unsigned bytes.\<close>

fun strcmp :: "string \<Rightarrow> string \<Rightarrow> int" where
  "strcmp [] [] = 0"
| "strcmp [] (b # bs) = -1"
| "strcmp (a # as) [] = 1"
| "strcmp (a # as) (b # bs) =
     (if (of_char a :: nat) < of_char b then -1 else if (of_char b :: nat) < of_char a then 1 else strcmp as bs)"

definition rank_cmp :: "crash_log_rank_t \<Rightarrow> crash_log_rank_t \<Rightarrow> int" where
  "rank_cmp ra rb =
     (if row_rank ra < row_rank rb then -1
      else if row_rank ra > row_rank rb then 1
      else let c = strcmp (c_str (row_hostname ra)) (c_str (row_hostname rb))
           in if c \<noteq> 0 then c
              else if row_pid ra < row_pid rb then -1
              else if row_pid ra > row_pid rb then 1
              else 0)"

section \<open>Fields\<close>

definition NEWLINE :: char where "NEWLINE = CHR 0x0A"
definition QUOTE :: char where "QUOTE = CHR 0x22"
definition BACKSLASH :: char where "BACKSLASH = CHR 0x5C"

definition csv_escape :: "char \<Rightarrow> string" where
  "csv_escape c =
     (if c = BACKSLASH then [BACKSLASH, BACKSLASH]
      else if c = NEWLINE then [BACKSLASH, CHR ''n'']
      else if c = QUOTE then [QUOTE, QUOTE]
      else [c])"

definition write_csv_field :: "string \<Rightarrow> string" where
  "write_csv_field s =
     (let qu = (if list_ex (\<lambda>c. c = CHR '','' \<or> c = QUOTE) s then [QUOTE] else [])
      in qu @ concat (map csv_escape s) @ qu)"

section \<open>The file\<close>

text \<open>What the C library and the kernel return to the writer: whether the log can be opened, its
  size, whether the buffer can be allocated and closed, the results of the calls of \<open>write\<close> in
  turn, the local time as \<open>strftime\<close> formats it, and what \<open>qsort\<close> makes of an array.\<close>

datatype write_result = Wrote nat | Write_EINTR | Write_Error

record log_env_t =
  log_open :: bool
  log_fstat :: "nat option"
  log_memstream :: bool
  log_fclose :: bool
  log_write :: "write_result list"
  log_strftime :: "int \<Rightarrow> string option"
  log_qsort :: "(crash_log_rank_t \<Rightarrow> crash_log_rank_t \<Rightarrow> int) \<Rightarrow> crash_log_rank_t list \<Rightarrow> crash_log_rank_t list"

definition format_timestamp :: "log_env_t \<Rightarrow> int \<Rightarrow> string" where
  "format_timestamp le t = (case log_strftime le t of Some s \<Rightarrow> s | None \<Rightarrow> dec_int t)"

definition CRASH_LOG_HEADER :: string where
  "CRASH_LOG_HEADER = ''rank,hostname,pid,timestamp,exe,site,exemplar,corepath''"

text \<open>The parts of a key on both sides of the first bar.\<close>

definition site_exe :: "byte list \<Rightarrow> string" where
  "site_exe k = (let s = c_str k in if CHR ''|'' \<in> set s then takeWhile (\<lambda>c. c \<noteq> CHR ''|'') s else [])"

definition site_place :: "byte list \<Rightarrow> string" where
  "site_place k = (let s = c_str k in if CHR ''|'' \<in> set s then tl (dropWhile (\<lambda>c. c \<noteq> CHR ''|'') s) else s)"

definition site_corepath :: "crash_site_entry_t \<Rightarrow> string" where
  "site_corepath e = (case exemplar_corepath e of None \<Rightarrow> [] | Some c \<Rightarrow> c)"

definition write_row :: "log_env_t \<Rightarrow> crash_site_entry_t \<Rightarrow> crash_log_rank_t \<Rightarrow> string" where
  "write_row le e row =
     dec_int (row_rank row) @ '','' @ write_csv_field (c_str (row_hostname row)) @ '','' @ dec_int (row_pid row) @ '','' @
     format_timestamp le (row_timestamp row) @ '','' @ write_csv_field (site_exe (site e)) @ '','' @
     write_csv_field (site_place (site e)) @ '','' @ dec_int (exemplar_rank e) @ '','' @ write_csv_field (site_corepath e) @ [NEWLINE]"

definition write_site :: "log_env_t \<Rightarrow> crash_site_entry_t \<Rightarrow> string" where
  "write_site le e = concat (map (write_row le e) (log_ranks e))"

definition sort_rows :: "log_env_t \<Rightarrow> crash_site_entry_t \<Rightarrow> crash_site_entry_t" where
  "sort_rows le e = (if log_ranks e = [] then e else e\<lparr>log_ranks := log_qsort le rank_cmp (log_ranks e)\<rparr>)"

text \<open>The loop around \<open>write\<close>; the result is what has reached the file. With no further result
  the last call has not returned.\<close>

fun write_loop :: "write_result list \<Rightarrow> string \<Rightarrow> string" where
  "write_loop rs [] = []"
| "write_loop [] buf = []"
| "write_loop (Write_EINTR # rs) buf = write_loop rs buf"
| "write_loop (Write_Error # rs) buf = []"
| "write_loop (Wrote n # rs) buf = (if n = 0 then [] else take n buf @ write_loop rs (drop n buf))"

definition crash_log_buffer :: "log_env_t \<Rightarrow> nat \<Rightarrow> crash_site_entry_t list \<Rightarrow> string" where
  "crash_log_buffer le st_size sites =
     (if st_size = 0 then CRASH_LOG_HEADER @ [NEWLINE] else []) @ concat (map (write_site le) sites)"

text \<open>The result has what is appended to the log.\<close>

definition crash_log_root_write :: "log_env_t \<Rightarrow> ldcs_process_data_t \<Rightarrow> string \<times> ldcs_process_data_t" where
  "crash_log_root_write le pd =
     (if \<not> bit (opts pd) OPT_CRASH_LOG then ([], pd)
      else if \<not> ldcs_audit_server_md_is_responsible pd [] then ([], pd)
      else if crash_log pd = [] then ([], pd)
      else if filter (\<lambda>e. log_ranks e \<noteq> []) (crash_sites pd) = [] then ([], pd)
      else if \<not> log_open le then ([], pd)
      else case log_fstat le of
        None \<Rightarrow> ([], pd)
      | Some st_size \<Rightarrow>
          if \<not> log_memstream le then ([], pd)
          else
            let pd = pd\<lparr>crash_sites := map (sort_rows le) (crash_sites pd)\<rparr>;
                buf = crash_log_buffer le st_size (crash_sites pd)
            in if \<not> log_fclose le then ([], pd) else (write_loop (log_write le) buf, pd))"

section \<open>Reading the log\<close>

text \<open>A reader of comma-separated values: lines end with a newline, fields are separated by commas
  outside of quotes, a quoted field has its quotes doubled, and a backslash escapes a backslash
  or stands with \<open>n\<close> for a newline.\<close>

fun csv_lines :: "string \<Rightarrow> string list" where
  "csv_lines [] = []"
| "csv_lines (c # cs) =
     (if c = NEWLINE then [] # csv_lines cs
      else case csv_lines cs of [] \<Rightarrow> [[c]] | l # ls \<Rightarrow> (c # l) # ls)"

fun csv_split :: "bool \<Rightarrow> string \<Rightarrow> string list" where
  "csv_split qu [] = [[]]"
| "csv_split qu (c # cs) =
     (if c = CHR '','' \<and> \<not> qu then [] # csv_split qu cs
      else case csv_split (if c = QUOTE then \<not> qu else qu) cs of [] \<Rightarrow> [[c]] | f # fs \<Rightarrow> (c # f) # fs)"

fun undouble :: "string \<Rightarrow> string" where
  "undouble [] = []"
| "undouble [c] = [c]"
| "undouble (c # d # s) = (if c = QUOTE \<and> d = QUOTE then QUOTE # undouble s else c # undouble (d # s))"

fun csv_unescape :: "string \<Rightarrow> string" where
  "csv_unescape [] = []"
| "csv_unescape [c] = [c]"
| "csv_unescape (c # d # s) =
     (if c = BACKSLASH \<and> d = BACKSLASH then BACKSLASH # csv_unescape s
      else if c = BACKSLASH \<and> d = CHR ''n'' then NEWLINE # csv_unescape s
      else c # csv_unescape (d # s))"

definition csv_field :: "string \<Rightarrow> string" where
  "csv_field f = csv_unescape (case f of [] \<Rightarrow> [] | c # s \<Rightarrow> if c = QUOTE then undouble (butlast s) else f)"

definition csv_read :: "string \<Rightarrow> string list list" where
  "csv_read content = map (map csv_field \<circ> csv_split False) (csv_lines content)"

text \<open>The fields of a row.\<close>

definition row_fields :: "log_env_t \<Rightarrow> crash_site_entry_t \<Rightarrow> crash_log_rank_t \<Rightarrow> string list" where
  "row_fields le e row = [dec_int (row_rank row), c_str (row_hostname row), dec_int (row_pid row), format_timestamp le (row_timestamp row),
     site_exe (site e), site_place (site e), dec_int (exemplar_rank e), site_corepath e]"

section \<open>Round trip\<close>

lemmas csv_chars = NEWLINE_def QUOTE_def BACKSLASH_def

definition plain_field :: "string \<Rightarrow> bool" where
  "plain_field s \<longleftrightarrow> set s \<inter> {CHR '','', QUOTE, BACKSLASH, NEWLINE} = {}"

fun closed :: "bool \<Rightarrow> string \<Rightarrow> bool" where
  "closed qu [] \<longleftrightarrow> \<not> qu"
| "closed qu (c # cs) \<longleftrightarrow> (c = CHR '','' \<longrightarrow> qu) \<and> closed (if c = QUOTE then \<not> qu else qu) cs"

lemma split_closed: "closed qu w \<Longrightarrow> csv_split qu (w @ CHR '','' # rest) = w # csv_split False rest" "closed qu w \<Longrightarrow> csv_split qu w = [w]"
  by (induction w arbitrary: qu) (auto simp: csv_chars)

lemma lines_line: "NEWLINE \<notin> set l \<Longrightarrow> csv_lines (l @ NEWLINE # rest) = l # csv_lines rest"
  by (induction l) auto

lemma escape_closed: "closed True (concat (map csv_escape s) @ w) = closed True w"
  by (induction s) (auto simp: csv_escape_def csv_chars)

lemma plain_closed: "CHR '','' \<notin> set s \<Longrightarrow> QUOTE \<notin> set s \<Longrightarrow> closed False s"
  by (induction s) auto

lemma escape_chars: "c \<in> set (csv_escape d) \<Longrightarrow> c = d \<or> c \<in> {BACKSLASH, CHR ''n''}"
  by (auto simp: csv_escape_def split: if_splits)

lemma field_closed: "closed False (write_csv_field s)"
proof (cases "list_ex (\<lambda>c. c = CHR '','' \<or> c = QUOTE) s")
  case True
  then show ?thesis using escape_closed [of s "[QUOTE]"] by (simp add: write_csv_field_def csv_chars)
next
  case False
  then have "CHR '','' \<notin> set s" "QUOTE \<notin> set s" by (auto simp: list_ex_iff)
  then have "closed False (concat (map csv_escape s))" by (intro plain_closed) (auto dest!: escape_chars simp: csv_chars)
  with False show ?thesis by (simp add: write_csv_field_def)
qed

lemma field_line: "NEWLINE \<notin> set (write_csv_field s)"
proof -
  have "NEWLINE \<notin> set (csv_escape c)" for c by (simp add: csv_escape_def csv_chars)
  then show ?thesis by (auto simp: write_csv_field_def Let_def csv_chars split: if_splits)
qed

definition escape_inner :: "char \<Rightarrow> string" where
  "escape_inner c = (if c = QUOTE then [QUOTE] else csv_escape c)"

lemma undouble_plain: "QUOTE \<notin> set w \<Longrightarrow> undouble (w @ s) = w @ undouble s"
proof (induction w)
  case (Cons c w)
  then show ?case by (cases "w @ s") auto
qed simp

lemma undouble_escape: "undouble (concat (map csv_escape s)) = concat (map escape_inner s)"
proof (induction s)
  case (Cons c s)
  show ?case
  proof (cases "c = QUOTE")
    case True
    then show ?thesis using Cons by (simp add: csv_escape_def escape_inner_def csv_chars)
  next
    case False
    then have "QUOTE \<notin> set (csv_escape c)" by (simp add: csv_escape_def csv_chars)
    then show ?thesis using Cons False by (simp add: undouble_plain escape_inner_def)
  qed
qed simp

lemma unescape_other: "c \<noteq> BACKSLASH \<Longrightarrow> csv_unescape (c # s) = c # csv_unescape s"
  by (cases s) simp_all

lemma unescape_inner: "csv_unescape (concat (map escape_inner s)) = s"
proof (induction s)
  case (Cons c s)
  then show ?case
    by (cases "c \<in> {BACKSLASH, NEWLINE, QUOTE}")
      (auto simp: escape_inner_def csv_escape_def csv_chars unescape_other [unfolded csv_chars])
qed simp

lemma unquoted_field: "QUOTE \<notin> set w \<Longrightarrow> csv_field w = csv_unescape w"
  by (cases w) (auto simp: csv_field_def)

lemma read_field: "csv_field (write_csv_field s) = s"
proof (cases "list_ex (\<lambda>c. c = CHR '','' \<or> c = QUOTE) s")
  case True
  then show ?thesis by (simp add: csv_field_def write_csv_field_def undouble_escape unescape_inner)
next
  case False
  then have "QUOTE \<notin> set s" by (auto simp: list_ex_iff)
  then have same: "map csv_escape s = map escape_inner s" by (auto simp: escape_inner_def)
  from \<open>QUOTE \<notin> set s\<close> have "QUOTE \<notin> set (concat (map csv_escape s))" by (auto dest!: escape_chars simp: csv_chars)
  then have "csv_field (concat (map csv_escape s)) = csv_unescape (concat (map csv_escape s))" by (rule unquoted_field)
  with False show ?thesis by (simp add: write_csv_field_def same unescape_inner)
qed

lemma plain_field: "plain_field s \<Longrightarrow> csv_field s = s \<and> closed False s \<and> NEWLINE \<notin> set s"
proof -
  assume p: "plain_field s"
  then have "concat (map csv_escape s) = s" by (induction s) (auto simp: plain_field_def csv_escape_def)
  moreover have "\<not> list_ex (\<lambda>c. c = CHR '','' \<or> c = QUOTE) s" using p by (auto simp: plain_field_def list_ex_iff)
  ultimately have "write_csv_field s = s" by (simp add: write_csv_field_def)
  then show ?thesis using read_field [of s] field_closed [of s] field_line [of s] by simp
qed

lemma dec_char_plain: "plain_field [dec_char d]"
proof -
  have "\<forall>d \<in> set [0..<10]. plain_field [dec_char d]" by code_simp
  then have "plain_field [dec_char (d mod 10)]" by simp
  then show ?thesis by (simp add: dec_char_def)
qed

lemma dec_digits_plain: "plain_field (dec_digits n)"
proof (induction n rule: dec_digits.induct)
  case (1 n)
  then show ?case using dec_char_plain [of n] by (cases "n < 10") (auto simp: dec_digits.simps [of n] plain_field_def)
qed

lemma dec_int_plain: "plain_field (dec_int i)"
  using dec_digits_plain by (auto simp: dec_int_def plain_field_def csv_chars)

lemma format_timestamp_plain: "(\<And>s. log_strftime le t = Some s \<Longrightarrow> plain_field s) \<Longrightarrow> plain_field (format_timestamp le t)"
  using dec_int_plain by (auto simp: format_timestamp_def split: option.split)

lemma read_row:
  assumes "plain_field (format_timestamp le (row_timestamp row))"
  shows "csv_read (write_row le e row @ rest) = row_fields le e row # csv_read rest"
proof -
  let ?l = "dec_int (row_rank row) @ '','' @ write_csv_field (c_str (row_hostname row)) @ '','' @ dec_int (row_pid row) @ '','' @
     format_timestamp le (row_timestamp row) @ '','' @ write_csv_field (site_exe (site e)) @ '','' @
     write_csv_field (site_place (site e)) @ '','' @ dec_int (exemplar_rank e) @ '','' @ write_csv_field (site_corepath e)"
  note plain = plain_field [OF dec_int_plain] plain_field [OF assms]
  have "NEWLINE \<notin> set ?l" using plain field_line by (simp add: csv_chars)
  from lines_line [OF this, of rest] have "csv_lines (write_row le e row @ rest) = ?l # csv_lines rest" by (simp add: write_row_def)
  moreover have "map csv_field (csv_split False ?l) = row_fields le e row"
    using plain by (simp add: split_closed field_closed read_field row_fields_def)
  ultimately show ?thesis by (simp add: csv_read_def)
qed

lemma read_site:
  assumes "\<And>t s. log_strftime le t = Some s \<Longrightarrow> plain_field s"
  shows "csv_read (write_site le e @ rest) = map (row_fields le e) (log_ranks e) @ csv_read rest"
proof -
  have "csv_read (concat (map (write_row le e) rows) @ rest) = map (row_fields le e) rows @ csv_read rest" for rows
    by (induction rows) (use assms in \<open>simp_all add: read_row format_timestamp_plain\<close>)
  then show ?thesis by (simp add: write_site_def)
qed

lemma read_header: "csv_read (CRASH_LOG_HEADER @ NEWLINE # rest) =
    [''rank'', ''hostname'', ''pid'', ''timestamp'', ''exe'', ''site'', ''exemplar'', ''corepath''] # csv_read rest"
proof -
  have "NEWLINE \<notin> set CRASH_LOG_HEADER" by (simp add: CRASH_LOG_HEADER_def csv_chars)
  moreover have "map csv_field (csv_split False CRASH_LOG_HEADER) = [''rank'', ''hostname'', ''pid'', ''timestamp'', ''exe'', ''site'', ''exemplar'', ''corepath'']"
    by code_simp
  ultimately show ?thesis by (simp add: csv_read_def lines_line)
qed

lemma read_buffer:
  assumes "\<And>t s. log_strftime le t = Some s \<Longrightarrow> plain_field s"
  shows "csv_read (crash_log_buffer le st_size sites) =
    (if st_size = 0 then [[''rank'', ''hostname'', ''pid'', ''timestamp'', ''exe'', ''site'', ''exemplar'', ''corepath'']] else []) @
    concat (map (\<lambda>e. map (row_fields le e) (log_ranks e)) sites)"
proof -
  have "csv_read (concat (map (write_site le) sites)) = concat (map (\<lambda>e. map (row_fields le e) (log_ranks e)) sites)"
    by (induction sites) (use read_site [OF assms] in \<open>auto simp: csv_read_def\<close>)
  then show ?thesis using read_header by (simp add: crash_log_buffer_def)
qed

section \<open>Writing\<close>

definition accepted :: "write_result list \<Rightarrow> nat" where
  "accepted rs = sum_list (map (\<lambda>r. case r of Wrote n \<Rightarrow> n | _ \<Rightarrow> 0) rs)"

lemma write_prefix: "\<exists>k. write_loop rs buf = take k buf"
proof (induction rs buf rule: write_loop.induct)
  case (5 n rs b buf)
  then show ?case
  proof (cases "n = 0")
    case False
    then obtain k where "write_loop rs (drop n (b # buf)) = take k (drop n (b # buf))" using 5 by blast
    then show ?thesis using False by (intro exI [of _ "n + k"]) (simp add: take_add)
  qed (auto intro: exI [of _ 0])
qed (auto intro: exI [of _ 0])

lemma write_all:
  assumes "Write_Error \<notin> set rs" "Wrote 0 \<notin> set rs" "length buf \<le> accepted rs"
  shows "write_loop rs buf = buf"
  using assms
proof (induction rs buf rule: write_loop.induct)
  case (5 n rs b buf)
  then have "n \<noteq> 0" by auto
  with 5 show ?case by (simp add: accepted_def)
qed (simp_all add: accepted_def)

text \<open>The surroundings in which the log gets written: it can be opened, and \<open>write\<close> takes all bytes,
  possibly in parts and with interruptions.\<close>

definition log_writable :: "log_env_t \<Rightarrow> nat \<Rightarrow> bool" where
  "log_writable le len \<longleftrightarrow> log_open le \<and> log_memstream le \<and> log_fclose le \<and>
     Write_Error \<notin> set (log_write le) \<and> Wrote 0 \<notin> set (log_write le) \<and> len \<le> accepted (log_write le)"

lemma root_write:
  assumes "bit (opts pd) OPT_CRASH_LOG" "md_rank pd = 0" "crash_log pd \<noteq> []" "\<exists>e \<in> set (crash_sites pd). log_ranks e \<noteq> []"
    and "log_fstat le = Some st_size" "log_writable le (length (crash_log_buffer le st_size (map (sort_rows le) (crash_sites pd))))"
  shows "fst (crash_log_root_write le pd) = crash_log_buffer le st_size (map (sort_rows le) (crash_sites pd))"
  using assms write_all [of "log_write le"]
  by (auto simp: crash_log_root_write_def ldcs_audit_server_md_is_responsible_def log_writable_def filter_empty_conv)

lemma no_logged_rows: "(\<forall>e \<in> set es. log_ranks e = []) \<Longrightarrow> (\<Sum>e\<leftarrow>es. mset (map (Pair (site e)) (log_ranks e))) = {#}"
  by (induction es) simp_all

lemma sorted_fields: "map (row_fields le (sort_rows le e)) = map (row_fields le e)"
  by (simp add: fun_eq_iff sort_rows_def row_fields_def site_corepath_def)

text \<open>Surroundings for examples, with insertion sort.\<close>

fun insert_row :: "(crash_log_rank_t \<Rightarrow> crash_log_rank_t \<Rightarrow> int) \<Rightarrow> crash_log_rank_t \<Rightarrow> crash_log_rank_t list \<Rightarrow> crash_log_rank_t list" where
  "insert_row cmp r [] = [r]"
| "insert_row cmp r (q # qs) = (if cmp r q \<le> 0 then r # q # qs else q # insert_row cmp r qs)"

definition example_log_env :: "nat \<Rightarrow> log_env_t" where
  "example_log_env k = \<lparr>log_open = True, log_fstat = Some 0, log_memstream = True, log_fclose = True, log_write = [Write_EINTR, Wrote 10, Wrote k],
     log_strftime = (\<lambda>_. Some ''2026-01-01''), log_qsort = (\<lambda>cmp rows. foldr (insert_row cmp) rows [])\<rparr>"

definition example_log_sites :: "crash_site_entry_t list" where
  "example_log_sites = [
     \<lparr>site = ''/bin/a,b|abort:'' @ [NEWLINE, NUL], resolved = True, waiter = no_waiter, exemplar_rank = 2, exemplar_corepath = None,
      log_ranks = [crash_example_row 2, crash_example_row 1]\<rparr>]"

definition example_log_server :: ldcs_process_data_t where
  "example_log_server = (crash_example_server 0)\<lparr>crash_sites := example_log_sites\<rparr>"

lemma insert_row_mset: "mset (foldr (insert_row cmp) rows []) = mset rows"
proof -
  have "mset (insert_row cmp r rows) = add_mset r (mset rows)" for r rows by (induction rows) simp_all
  then show ?thesis by (induction rows) simp_all
qed

lemma example_strftime: "log_strftime (example_log_env k) t = Some s \<Longrightarrow> plain_field s"
  by (auto simp: example_log_env_def plain_field_def csv_chars)

lemma example_log_writable: "len \<le> k \<Longrightarrow> 0 < k \<Longrightarrow> log_writable (example_log_env k) len"
  by (simp add: log_writable_def example_log_env_def accepted_def)

text \<open>C19. The crash log can be read back: whatever commas, quotes, backslashes and newlines the paths
  and host names have, a reader of comma-separated values gets from the text that
  \<open>crash_log_root_write\<close> appends to the log the header, if the log was empty, and one line for
  each row, site by site, with the fields of the row.\<close>

theorem crash_log_read_back:
  assumes "bit (opts pd) OPT_CRASH_LOG" "md_rank pd = 0" "crash_log pd \<noteq> []" "\<exists>e \<in> set (crash_sites pd). log_ranks e \<noteq> []"
    and "log_fstat le = Some st_size" "log_writable le (length (crash_log_buffer le st_size (map (sort_rows le) (crash_sites pd))))"
    and "\<And>t s. log_strftime le t = Some s \<Longrightarrow> plain_field s"
  shows "csv_read (fst (crash_log_root_write le pd)) =
    (if st_size = 0 then [[''rank'', ''hostname'', ''pid'', ''timestamp'', ''exe'', ''site'', ''exemplar'', ''corepath'']] else []) @
    concat (map (\<lambda>e. map (row_fields le e) (log_ranks (sort_rows le e))) (crash_sites pd))"
  using assms(7) by (simp add: root_write [OF assms(1-6)] read_buffer sorted_fields comp_def)

theorem crash_log_read_back_witness:
  "csv_read (fst (crash_log_root_write (example_log_env 300) example_log_server)) =
    [[''rank'', ''hostname'', ''pid'', ''timestamp'', ''exe'', ''site'', ''exemplar'', ''corepath''],
     [''1'', ''node'', ''101'', ''2026-01-01'', ''/bin/a,b'', ''abort:'' @ [NEWLINE], ''2'', []],
     [''2'', ''node'', ''102'', ''2026-01-01'', ''/bin/a,b'', ''abort:'' @ [NEWLINE], ''2'', []]]"
proof -
  have le: "length (crash_log_buffer (example_log_env 300) 0 (map (sort_rows (example_log_env 300)) example_log_sites)) \<le> 300"
    by code_simp
  have rows: "concat (map (\<lambda>e. map (row_fields (example_log_env 300) e) (log_ranks (sort_rows (example_log_env 300) e))) example_log_sites) =
    [[''1'', ''node'', ''101'', ''2026-01-01'', ''/bin/a,b'', ''abort:'' @ [NEWLINE], ''2'', []],
     [''2'', ''node'', ''102'', ''2026-01-01'', ''/bin/a,b'', ''abort:'' @ [NEWLINE], ''2'', []]]"
    by code_simp
  have sites: "crash_sites example_log_server = example_log_sites" by (simp add: example_log_server_def)
  have "md_rank example_log_server = 0" "crash_log example_log_server \<noteq> []" "\<exists>e \<in> set (crash_sites example_log_server). log_ranks e \<noteq> []"
    "bit (opts example_log_server) OPT_CRASH_LOG" "log_fstat (example_log_env 300) = Some 0"
    by (simp_all add: sites, simp_all add: example_log_sites_def example_log_server_def crash_example_server_def start_state_def example_args_def OPT_CRASH_LOG_def bit_iff_odd_drop_bit
        drop_bit_eq_div example_log_env_def)
  from crash_log_read_back [OF this(4,1-3,5) _ example_strftime] show ?thesis unfolding sites rows using example_log_writable [OF le] by simp
qed

text \<open>C8. From the crash to the file: when all messages of the crash reports have been delivered, the
  root's log has one line for every crash that a client has reported, with the rank, the host,
  the process, the time, the executable and the place of that crash, and no other line.\<close>

theorem crash_log_file_complete:
  assumes "crash_reachable par n C" "tree par n" "settled n C" "bit (opts (srv C 0)) OPT_CRASH_LOG" "crash_log (srv C 0) \<noteq> []" "logged C \<noteq> []"
    and "log_fstat le = Some 0" "log_writable le (length (crash_log_buffer le 0 (map (sort_rows le) (crash_sites (srv C 0)))))"
    and "\<And>t s. log_strftime le t = Some s \<Longrightarrow> plain_field s" and "\<And>rows. mset (log_qsort le rank_cmp rows) = mset rows"
  shows "image_mset (take 6) (mset (tl (csv_read (fst (crash_log_root_write le (srv C 0)))))) =
    image_mset (\<lambda>(k, row). [dec_int (row_rank row), c_str (row_hostname row), dec_int (row_pid row), format_timestamp le (row_timestamp row),
      site_exe k, site_place k]) (mset (logged C))"
proof -
  let ?pd = "srv C 0"
  let ?f = "\<lambda>(k, row). [dec_int (row_rank row), c_str (row_hostname row), dec_int (row_pid row), format_timestamp le (row_timestamp row),
      site_exe k, site_place k]"
  note inv = reachable_net_inv [OF assms(1,2)]
  have rows: "rows_of ?pd = mset (logged C)" using net_invD(5) [OF inv] assms(3) by (simp add: rows_inv_def settled_def)
  have rank: "md_rank ?pd = 0" using net_invD(6) [OF inv, of 0] assms(2) by (simp add: server_good_def tree_def)
  have "rows_of ?pd \<noteq> {#}" using rows assms(6) by simp
  then have "\<exists>e \<in> set (crash_sites ?pd). log_ranks e \<noteq> []" using no_logged_rows unfolding rows_of_def by blast
  from root_write [OF assms(4) rank assms(5) this assms(7,8)] read_buffer [OF assms(9)]
  have "tl (csv_read (fst (crash_log_root_write le ?pd))) = concat (map (\<lambda>e. map (row_fields le e) (log_ranks (sort_rows le e))) (crash_sites ?pd))"
    by (simp add: sorted_fields comp_def)
  moreover have "image_mset (take 6) (mset (map (row_fields le e) (log_ranks (sort_rows le e)))) = image_mset ?f (mset (map (Pair (site e)) (log_ranks e)))" for e
  proof -
    have m: "mset (log_ranks (sort_rows le e)) = mset (log_ranks e)" using assms(10) by (simp add: sort_rows_def)
    have "take 6 (row_fields le e row) = ?f (site e, row)" for row by (simp add: row_fields_def)
    then show ?thesis by (simp add: m image_mset.compositionality comp_def)
  qed
  then have "image_mset (take 6) (mset (concat (map (\<lambda>e. map (row_fields le e) (log_ranks (sort_rows le e))) es))) =
      image_mset ?f (\<Sum>e\<leftarrow>es. mset (map (Pair (site e)) (log_ranks e)))" for es
    by (induction es) simp_all
  ultimately show ?thesis by (simp add: rows [symmetric] rows_of_def)
qed

theorem crash_log_file_complete_witness:
  "\<exists>C le. crash_reachable (\<lambda>_. 0) 3 C \<and> settled 3 C \<and>
    image_mset (take 6) (mset (tl (csv_read (fst (crash_log_root_write le (srv C 0)))))) =
    {#[''1'', ''node'', ''101'', ''2026-01-01'', ''/bin/a'', ''abort:x''], [''2'', ''node'', ''102'', ''2026-01-01'', ''/bin/a'', ''abort:x'']#}"
proof -
  obtain C where C: "crash_reachable (\<lambda>_. 0) 3 C" "settled 3 C" "same_server (crash_example_server 0) (srv C 0)"
    "logged C = [(crash_example_key, crash_example_row 1), (crash_example_key, crash_example_row 2)]"
    using crash_example_settled by blast
  define k where "k = Suc (length (crash_log_buffer (example_log_env 0) 0 (map (sort_rows (example_log_env 0)) (crash_sites (srv C 0)))))"
  have row: "write_row (example_log_env k) = write_row (example_log_env 0)" and sort: "sort_rows (example_log_env k) = sort_rows (example_log_env 0)"
    by (simp_all add: fun_eq_iff sort_rows_def write_row_def format_timestamp_def example_log_env_def)
  have "write_site (example_log_env k) = write_site (example_log_env 0)" by (rule ext) (simp add: write_site_def row)
  then have "crash_log_buffer (example_log_env k) = crash_log_buffer (example_log_env 0)" by (intro ext) (simp add: crash_log_buffer_def)
  with sort  have w: "log_writable (example_log_env k) (length (crash_log_buffer (example_log_env k) 0 (map (sort_rows (example_log_env k)) (crash_sites (srv C 0)))))"
    by (intro example_log_writable) (simp_all add: k_def)
  have s: "bit (opts (srv C 0)) OPT_CRASH_LOG" "crash_log (srv C 0) \<noteq> []"
    using C(3) by (simp_all add: same_server_def crash_example_server_def start_state_def example_args_def OPT_CRASH_LOG_def bit_iff_odd_drop_bit drop_bit_eq_div)
  have fields: "map (\<lambda>(k, row). [dec_int (row_rank row), c_str (row_hostname row), dec_int (row_pid row), ''2026-01-01'',
      site_exe k, site_place k]) [(crash_example_key, crash_example_row 1), (crash_example_key, crash_example_row 2)] =
    [[''1'', ''node'', ''101'', ''2026-01-01'', ''/bin/a'', ''abort:x''], [''2'', ''node'', ''102'', ''2026-01-01'', ''/bin/a'', ''abort:x'']]"
    by code_simp
  have "image_mset (take 6) (mset (tl (csv_read (fst (crash_log_root_write (example_log_env k) (srv C 0)))))) =
    mset [[''1'', ''node'', ''101'', ''2026-01-01'', ''/bin/a'', ''abort:x''], [''2'', ''node'', ''102'', ''2026-01-01'', ''/bin/a'', ''abort:x'']]"
    unfolding fields [symmetric]
    by (subst crash_log_file_complete [OF C(1) crash_example_tree C(2) s _ _ w example_strftime])
      (simp_all add: C(4) insert_row_mset example_log_env_def format_timestamp_def)
  then show ?thesis using C(1,2) by auto
qed

end
