(* ===== verification/Sheep.thy ===== *)
theory Sheep
  imports Spindle_Prelude "HOL-Library.Word"
begin

text \<open>
  The shared heap of the clients of a node (\<open>biter/sheep.c\<close>): a \<open>malloc\<close> and \<open>free\<close> over a piece of
  memory that several processes map at different addresses. Addresses are offsets from
  \<open>sheep_base\<close>; offset 0 is the head block, and the code uses it as its null pointer. \<^const>\<open>None\<close>
  is a failed assertion or a loop that does not end. The blocks refine a list of blocks in the
  order of their addresses.
\<close>

section \<open>Blocks\<close>

record block_prefix_t =
  f_prev_block :: nat
  f_next_free :: nat
  f_prev_free :: nat
  f_size :: nat

text \<open>The fields have 32 bits in the code, which hold the offsets in units of 8 bytes of a heap of
  less than \<open>2^25\<close> bytes. \<open>mem\<close> is the memory as the headers of blocks see it.\<close>

record sheep_t =
  heap_size :: nat
  initialized :: bool
  sheep_end :: nat
  first_fit :: bool
  mem :: "nat \<Rightarrow> block_prefix_t"

definition HEAP_NULL :: nat where "HEAP_NULL = 0"
definition head_block :: nat where "head_block = 0"
definition sizeof_block :: nat where "sizeof_block = 16"
definition sizeof_header :: nat where "sizeof_header = 32"

definition PTR :: "nat \<Rightarrow> nat" where "PTR x = x * 8"
definition VAL :: "nat \<Rightarrow> nat" where "VAL v = v div 8"

definition IS_ALLOC :: "sheep_t \<Rightarrow> nat \<Rightarrow> bool" where "IS_ALLOC h x = odd (f_size (mem h x))"
definition SIZE :: "sheep_t \<Rightarrow> nat \<Rightarrow> nat" where "SIZE h x = f_size (mem h x) div 2 * 2 * 4"
definition NEXT_BLOCK :: "sheep_t \<Rightarrow> nat \<Rightarrow> nat" where
  "NEXT_BLOCK h x = (if SIZE h x + x \<ge> sheep_end h then HEAP_NULL else SIZE h x + x)"
definition PREV_BLOCK :: "sheep_t \<Rightarrow> nat \<Rightarrow> nat" where "PREV_BLOCK h x = PTR (f_prev_block (mem h x))"
definition NEXT_FREE :: "sheep_t \<Rightarrow> nat \<Rightarrow> nat" where "NEXT_FREE h x = PTR (f_next_free (mem h x))"
definition PREV_FREE :: "sheep_t \<Rightarrow> nat \<Rightarrow> nat" where "PREV_FREE h x = PTR (f_prev_free (mem h x))"

definition set_block :: "nat \<Rightarrow> (block_prefix_t \<Rightarrow> block_prefix_t) \<Rightarrow> sheep_t \<Rightarrow> sheep_t" where
  "set_block x f h = h\<lparr>mem := (mem h)(x := f (mem h x))\<rparr>"

definition SET_ALLOC :: "nat \<Rightarrow> sheep_t \<Rightarrow> sheep_t" where
  "SET_ALLOC x = set_block x (\<lambda>b. b\<lparr>f_size := or (f_size b) 1\<rparr>)"
definition SET_FREE :: "nat \<Rightarrow> sheep_t \<Rightarrow> sheep_t" where
  "SET_FREE x = set_block x (\<lambda>b. b\<lparr>f_size := f_size b div 2 * 2\<rparr>)"
definition SET_PREV_BLOCK :: "nat \<Rightarrow> nat \<Rightarrow> sheep_t \<Rightarrow> sheep_t" where
  "SET_PREV_BLOCK x v = set_block x (\<lambda>b. b\<lparr>f_prev_block := VAL v\<rparr>)"
definition SET_NEXT_FREE :: "nat \<Rightarrow> nat \<Rightarrow> sheep_t \<Rightarrow> sheep_t" where
  "SET_NEXT_FREE x v = set_block x (\<lambda>b. b\<lparr>f_next_free := VAL v\<rparr>)"
definition SET_PREV_FREE :: "nat \<Rightarrow> nat \<Rightarrow> sheep_t \<Rightarrow> sheep_t" where
  "SET_PREV_FREE x v = set_block x (\<lambda>b. b\<lparr>f_prev_free := VAL v\<rparr>)"
definition SET_SIZE :: "nat \<Rightarrow> nat \<Rightarrow> sheep_t \<Rightarrow> sheep_t" where
  "SET_SIZE x v = set_block x (\<lambda>b. b\<lparr>f_size := or (f_size b mod 2) (v div 4)\<rparr>)"
definition CLEAR :: "nat \<Rightarrow> sheep_t \<Rightarrow> sheep_t" where
  "CLEAR x = set_block x (\<lambda>_. \<lparr>f_prev_block = 0, f_next_free = 0, f_prev_free = 0, f_size = 0\<rparr>)"

definition ALIGN8 :: "nat \<Rightarrow> nat" where
  "ALIGN8 x = (if x mod 8 \<noteq> 0 then (x div 8 + 1) * 8 else x)"

section \<open>Start\<close>

definition init_sheep :: "nat \<Rightarrow> bool \<Rightarrow> sheep_t \<Rightarrow> sheep_t option" where
  "init_sheep n use_first_fit h =
     (if \<not> (n \<ge> 4096 \<and> n mod 4096 = 0 \<and> n < 2 ^ 25) then None
      else
        let h = h\<lparr>first_fit := use_first_fit, sheep_end := n\<rparr>; first_block = sizeof_header
        in if initialized h then Some h
           else
             let h = h\<lparr>heap_size := n\<rparr>;
                 h = CLEAR head_block h;
                 h = SET_ALLOC head_block h;
                 h = SET_PREV_BLOCK head_block HEAP_NULL h;
                 h = SET_NEXT_FREE head_block first_block h;
                 h = SET_PREV_FREE head_block HEAP_NULL h;
                 h = SET_SIZE head_block sizeof_header h;
                 h = CLEAR first_block h;
                 h = SET_FREE first_block h;
                 h = SET_PREV_BLOCK first_block head_block h;
                 h = SET_NEXT_FREE first_block HEAP_NULL h;
                 h = SET_PREV_FREE first_block HEAP_NULL h;
                 h = SET_SIZE first_block (n - sizeof_header) h
             in Some (h\<lparr>initialized := True\<rparr>))"

section \<open>Allocation\<close>

text \<open>The size of the block for a request, in 32 bits.\<close>

definition alloc_size_of :: "nat \<Rightarrow> nat" where
  "alloc_size_of n = ALIGN8 ((n mod 2 ^ 32 + sizeof_block) mod 2 ^ 32) mod 2 ^ 32"

definition min_alloc_size :: nat where
  "min_alloc_size = ALIGN8 (sizeof_block + 8)"

definition UINT32_MAX :: nat where "UINT32_MAX = 2 ^ 32 - 1"

partial_function (option) find_fit :: "sheep_t \<Rightarrow> nat \<Rightarrow> nat \<Rightarrow> nat option \<Rightarrow> nat \<Rightarrow> (nat option \<times> nat) option" where
  "find_fit h alloc_size cur best_fit best_fit_diff =
     (if cur = HEAP_NULL then Some (best_fit, best_fit_diff)
      else if SIZE h cur < alloc_size then find_fit h alloc_size (NEXT_FREE h cur) best_fit best_fit_diff
      else
        let diff = SIZE h cur - alloc_size
        in if diff < best_fit_diff then
             (if diff < min_alloc_size \<or> first_fit h then Some (Some cur, diff)
              else find_fit h alloc_size (NEXT_FREE h cur) (Some cur) diff)
           else if first_fit h then Some (best_fit, best_fit_diff)
           else find_fit h alloc_size (NEXT_FREE h cur) best_fit best_fit_diff)"

declare find_fit.simps [code]

text \<open>Takes a block off the list of free blocks.\<close>

definition take_block :: "nat \<Rightarrow> sheep_t \<Rightarrow> sheep_t" where
  "take_block cur h =
     (let prev_free = PREV_FREE h cur; next_free = NEXT_FREE h cur;
          h = SET_ALLOC cur h;
          h = (if prev_free \<noteq> HEAP_NULL then SET_NEXT_FREE prev_free next_free h else SET_NEXT_FREE head_block next_free h);
          h = (if next_free \<noteq> HEAP_NULL then SET_PREV_FREE next_free prev_free h else h);
          h = SET_NEXT_FREE cur HEAP_NULL h
      in SET_PREV_FREE cur HEAP_NULL h)"

text \<open>Makes the rest of an allocated block a free block of its own.\<close>

definition split_block :: "nat \<Rightarrow> nat \<Rightarrow> nat \<Rightarrow> nat \<Rightarrow> nat \<Rightarrow> nat \<Rightarrow> sheep_t \<Rightarrow> sheep_t option" where
  "split_block cur alloc_size cur_size prev_free next_free next_block h =
     (let new_block = cur + alloc_size;
          new_size = cur_size - alloc_size;
          h = CLEAR new_block h;
          h = SET_FREE new_block h;
          h = SET_PREV_BLOCK new_block cur h;
          h = SET_NEXT_FREE new_block next_free h;
          h = SET_PREV_FREE new_block prev_free h;
          h = SET_SIZE new_block new_size h
      in if \<not> (new_size \<ge> min_alloc_size \<and> new_size < heap_size h \<and> new_size mod 8 = 0) then None
         else
           let h = SET_SIZE cur alloc_size h;
               h = (if next_block \<noteq> HEAP_NULL then SET_PREV_BLOCK next_block new_block h else h);
               h = (if prev_free \<noteq> HEAP_NULL then SET_NEXT_FREE prev_free new_block h else SET_NEXT_FREE head_block new_block h)
           in Some (if next_free \<noteq> HEAP_NULL then SET_PREV_FREE next_free new_block h else h))"

text \<open>The result has the address that is returned, \<^const>\<open>None\<close> for \<open>NULL\<close>.\<close>

definition malloc_sheep :: "nat \<Rightarrow> sheep_t \<Rightarrow> (nat option \<times> sheep_t) option" where
  "malloc_sheep n h =
     (if n = 0 then None
      else
        let alloc_size = alloc_size_of n
        in case find_fit h alloc_size (NEXT_FREE h head_block) None UINT32_MAX of
             None \<Rightarrow> None
           | Some (None, _) \<Rightarrow> Some (None, h)
           | Some (Some cur, best_fit_diff) \<Rightarrow>
               if IS_ALLOC h cur then None
               else
                 let prev_free = PREV_FREE h cur; next_free = NEXT_FREE h cur; next_block = NEXT_BLOCK h cur;
                     cur_size = SIZE h cur;
                     h = take_block cur h
                 in if best_fit_diff < min_alloc_size then Some (Some (cur + sizeof_block), h)
                    else map_option (Pair (Some (cur + sizeof_block)))
                           (split_block cur alloc_size cur_size prev_free next_free next_block h))"

section \<open>Release\<close>

definition merge_free_blocks :: "nat \<Rightarrow> nat \<Rightarrow> sheep_t \<Rightarrow> sheep_t" where
  "merge_free_blocks a b h =
     (let a_size = SIZE h a; b_next_block = NEXT_BLOCK h b; b_next_free = NEXT_FREE h b; b_size = SIZE h b;
          h = SET_NEXT_FREE a b_next_free h;
          h = (if b_next_block \<noteq> HEAP_NULL then SET_PREV_BLOCK b_next_block a h else h);
          h = (if b_next_free \<noteq> HEAP_NULL then SET_PREV_FREE b_next_free a h else h)
      in SET_SIZE a (a_size + b_size) h)"

partial_function (option) find_prev_free :: "sheep_t \<Rightarrow> nat \<Rightarrow> nat option" where
  "find_prev_free h x = (if x \<noteq> HEAP_NULL \<and> IS_ALLOC h x then find_prev_free h (PREV_BLOCK h x) else Some x)"

declare find_prev_free.simps [code]

definition join_prev :: "nat \<Rightarrow> sheep_t \<Rightarrow> bool \<times> nat \<times> sheep_t" where
  "join_prev cur h = (let prev_block = PREV_BLOCK h cur
     in if \<not> IS_ALLOC h prev_block then (True, prev_block, merge_free_blocks prev_block cur h) else (False, cur, h))"

definition join_next :: "nat \<Rightarrow> sheep_t \<Rightarrow> bool \<times> sheep_t" where
  "join_next cur h = (let next_block = NEXT_BLOCK h cur
     in if \<not> IS_ALLOC h next_block then (True, merge_free_blocks cur next_block h) else (False, h))"

partial_function (option) join_loop :: "nat \<Rightarrow> sheep_t \<Rightarrow> sheep_t option" where
  "join_loop cur h =
     (case join_prev cur h of (changed, cur, h) \<Rightarrow>
      case join_next cur h of (changed', h) \<Rightarrow>
        if changed \<or> changed' then join_loop cur h else Some h)"

declare join_loop.simps [code]

definition free_sheep :: "nat \<Rightarrow> sheep_t \<Rightarrow> sheep_t option" where
  "free_sheep p h =
     (let cur = p - sizeof_block
      in if \<not> (sizeof_block \<le> p \<and> cur > head_block \<and> cur < heap_size h) then None
         else case find_prev_free h cur of
           None \<Rightarrow> None
         | Some prev_free \<Rightarrow>
             let next_free = (if prev_free = HEAP_NULL then NEXT_FREE h head_block else NEXT_FREE h prev_free)
             in if \<not> ((prev_free < cur \<or> prev_free = HEAP_NULL) \<and> (next_free > cur \<or> next_free = HEAP_NULL)) then None
                else
                  let h = SET_FREE cur h;
                      h = (if prev_free \<noteq> HEAP_NULL then SET_NEXT_FREE prev_free cur h else SET_NEXT_FREE head_block cur h);
                      h = (if next_free \<noteq> HEAP_NULL then SET_PREV_FREE next_free cur h else h);
                      h = SET_NEXT_FREE cur next_free h;
                      h = SET_PREV_FREE cur prev_free h
                  in join_loop cur h)"

definition sheep_alloc_size :: "nat \<Rightarrow> nat" where
  "sheep_alloc_size n = (let alloc_size = ALIGN8 n in (if alloc_size = 0 then 8 else alloc_size) + sizeof_block)"

section \<open>Validation\<close>

text \<open>The assertions on a block and the block before it, \<^const>\<open>None\<close> for none.\<close>

definition valid_block :: "sheep_t \<Rightarrow> nat option \<Rightarrow> nat \<Rightarrow> bool" where
  "valid_block h prev cur \<longleftrightarrow>
     cur < heap_size h \<and>
     (case prev of
        Some p \<Rightarrow> NEXT_BLOCK h p = cur \<and> PREV_BLOCK h cur = p \<and> PREV_BLOCK h cur \<noteq> HEAP_NULL
      | None \<Rightarrow> PREV_BLOCK h cur = HEAP_NULL) \<and>
     SIZE h cur < heap_size h \<and> SIZE h cur \<ge> sizeof_block + 8 \<and>
     (NEXT_BLOCK h cur > cur \<or> NEXT_BLOCK h cur = HEAP_NULL) \<and>
     (PREV_BLOCK h cur < cur \<or> PREV_BLOCK h cur = HEAP_NULL) \<and>
     (if IS_ALLOC h cur then (NEXT_FREE h cur = HEAP_NULL \<or> cur = head_block) \<and> PREV_FREE h cur = HEAP_NULL
      else (\<forall>p. prev = Some p \<longrightarrow> IS_ALLOC h p) \<and> (NEXT_BLOCK h cur \<noteq> HEAP_NULL \<longrightarrow> IS_ALLOC h (NEXT_BLOCK h cur))) \<and>
     (NEXT_FREE h cur > cur \<or> NEXT_FREE h cur = HEAP_NULL) \<and>
     (PREV_FREE h cur < cur \<or> PREV_FREE h cur = HEAP_NULL) \<and>
     (\<forall>p. prev = Some p \<longrightarrow> p + SIZE h p = cur)"

text \<open>The results count the free blocks and the allocations.\<close>

partial_function (option) validate_blocks :: "sheep_t \<Rightarrow> nat option \<Rightarrow> nat \<Rightarrow> nat \<Rightarrow> nat \<Rightarrow> nat \<Rightarrow> (nat \<times> nat \<times> nat) option" where
  "validate_blocks h prev cur num_frees allocations blocks =
     (if cur = HEAP_NULL then Some (num_frees, allocations, blocks)
      else if \<not> valid_block h prev cur then None
      else if IS_ALLOC h cur then validate_blocks h (Some cur) (NEXT_BLOCK h cur) num_frees (allocations + 1) (blocks + 1)
      else validate_blocks h (Some cur) (NEXT_BLOCK h cur) (num_frees + 1) allocations (blocks + 1))"

declare validate_blocks.simps [code]

definition valid_free :: "sheep_t \<Rightarrow> nat option \<Rightarrow> nat \<Rightarrow> bool" where
  "valid_free h prev cur \<longleftrightarrow>
     cur < heap_size h \<and> \<not> IS_ALLOC h cur \<and>
     (case prev of
        Some p \<Rightarrow> NEXT_FREE h p = cur \<and> PREV_FREE h cur = p \<and> PREV_BLOCK h cur \<noteq> HEAP_NULL
      | None \<Rightarrow> PREV_FREE h cur = HEAP_NULL) \<and>
     SIZE h cur < heap_size h \<and> SIZE h cur \<ge> sizeof_block + 8 \<and>
     (NEXT_FREE h cur > cur \<or> NEXT_FREE h cur = HEAP_NULL) \<and>
     (PREV_FREE h cur < cur \<or> PREV_FREE h cur = HEAP_NULL)"

partial_function (option) validate_frees :: "sheep_t \<Rightarrow> nat option \<Rightarrow> nat \<Rightarrow> nat \<Rightarrow> nat option" where
  "validate_frees h prev cur num_frees =
     (if cur = HEAP_NULL then Some num_frees
      else if \<not> valid_free h prev cur then None
      else validate_frees h (Some cur) (NEXT_FREE h cur) (num_frees + 1))"

declare validate_frees.simps [code]

definition validate_sheep :: "sheep_t \<Rightarrow> unit option" where
  "validate_sheep h =
     (case validate_blocks h None (NEXT_BLOCK h head_block) 0 0 0 of
        None \<Rightarrow> None
      | Some (num_frees, allocations, blocks) \<Rightarrow>
          case validate_frees h None (NEXT_FREE h head_block) 0 of
            None \<Rightarrow> None
          | Some num_frees2 \<Rightarrow> if num_frees = num_frees2 \<and> blocks = allocations + num_frees then Some () else None)"

section \<open>Blocks in a list\<close>

record block =
  addr :: nat
  len :: nat
  used :: bool

fun tiles :: "nat \<Rightarrow> block list \<Rightarrow> nat \<Rightarrow> bool" where
  "tiles a [] e \<longleftrightarrow> a = e"
| "tiles a (b # bs) e \<longleftrightarrow> addr b = a \<and> 24 \<le> len b \<and> 8 dvd len b \<and> tiles (a + len b) bs e"

fun apart :: "block list \<Rightarrow> bool" where
  "apart (b # c # bs) \<longleftrightarrow> (used b \<or> used c) \<and> apart (c # bs)"
| "apart _ = True"

fun first_free :: "block list \<Rightarrow> nat \<Rightarrow> nat" where
  "first_free [] nf = nf"
| "first_free (b # bs) nf = (if used b then first_free bs nf else addr b)"

fun last_free :: "nat \<Rightarrow> block list \<Rightarrow> nat" where
  "last_free pf [] = pf"
| "last_free pf (b # bs) = last_free (if used b then pf else addr b) bs"

fun last_addr :: "nat \<Rightarrow> block list \<Rightarrow> nat" where
  "last_addr p [] = p"
| "last_addr p (b # bs) = last_addr (addr b) bs"

definition prefix_of :: "nat \<Rightarrow> nat \<Rightarrow> block \<Rightarrow> nat \<Rightarrow> block_prefix_t" where
  "prefix_of p pf b nf = \<lparr>f_prev_block = VAL p, f_next_free = (if used b then 0 else VAL nf), f_prev_free = (if used b then 0 else VAL pf),
     f_size = len b div 4 + of_bool (used b)\<rparr>"

fun linked :: "sheep_t \<Rightarrow> nat \<Rightarrow> nat \<Rightarrow> block list \<Rightarrow> nat \<Rightarrow> bool" where
  "linked h p pf [] nf = True"
| "linked h p pf (b # bs) nf \<longleftrightarrow> mem h (addr b) = prefix_of p pf b (first_free bs nf) \<and>
     linked h (addr b) (if used b then pf else addr b) bs nf"

definition head_prefix :: "nat \<Rightarrow> block_prefix_t" where
  "head_prefix nf = \<lparr>f_prev_block = 0, f_next_free = VAL nf, f_prev_free = 0, f_size = 9\<rparr>"

definition links :: "sheep_t \<Rightarrow> block list \<Rightarrow> bool" where
  "links h bs \<longleftrightarrow> mem h head_block = head_prefix (first_free bs HEAP_NULL) \<and> linked h head_block HEAP_NULL bs HEAP_NULL"

definition heap_blocks :: "sheep_t \<Rightarrow> block list \<Rightarrow> bool" where
  "heap_blocks h bs \<longleftrightarrow> initialized h \<and> sheep_end h = heap_size h \<and> heap_size h < 2 ^ 25 \<and> 8 dvd heap_size h \<and>
     tiles sizeof_header bs (heap_size h) \<and> links h bs"

section \<open>Lemmas on blocks\<close>

lemmas sheep_consts = HEAP_NULL_def head_block_def sizeof_block_def sizeof_header_def

lemma set_block_sel [simp]:
  "mem (set_block x f h) y = (if y = x then f (mem h x) else mem h y)"
  "heap_size (set_block x f h) = heap_size h" "initialized (set_block x f h) = initialized h"
  "sheep_end (set_block x f h) = sheep_end h" "first_fit (set_block x f h) = first_fit h"
  by (simp_all add: set_block_def)

lemma PTR_VAL [simp]: "8 dvd v \<Longrightarrow> PTR (VAL v) = v" "PTR 0 = 0" "VAL 0 = 0"
  by (simp_all add: PTR_def VAL_def)

lemma or_even: "even x \<Longrightarrow> or x 1 = x + 1" for x :: nat
  using or_Suc_0_eq [of x] by simp

lemma or_size: "8 dvd v \<Longrightarrow> or (x mod 2) (v div 4) = v div 4 + x mod 2" for x v :: nat
proof -
  assume "8 dvd v"
  then obtain k where "v = 8 * k" by blast
  then show ?thesis by (cases "even x") (simp_all add: odd_iff_mod_2_eq_one even_iff_mod_2_eq_zero or_Suc_0_eq or.commute [of "Suc 0"])
qed

fun extent :: "block list \<Rightarrow> nat" where
  "extent [] = 0"
| "extent (b # bs) = len b + extent bs"

lemma tiles_append: "tiles a (xs @ ys) e \<longleftrightarrow> tiles a xs (a + extent xs) \<and> tiles (a + extent xs) ys e"
  by (induction xs arbitrary: a) (auto simp: add.assoc)

lemma tiles_end: "tiles a bs e \<Longrightarrow> e = a + extent bs"
  by (induction bs arbitrary: a) (fastforce simp: add.assoc)+

lemma tiles_bounds: "tiles a bs e \<Longrightarrow> b \<in> set bs \<Longrightarrow> a \<le> addr b \<and> addr b + len b \<le> e \<and> 24 \<le> len b \<and> 8 dvd len b"
proof (induction bs arbitrary: a)
  case (Cons c bs)
  then show ?case using tiles_end [of "a + len c" bs e] by (cases "b = c") fastforce+
qed simp

lemma tiles_aligned: "tiles a bs e \<Longrightarrow> 8 dvd a \<Longrightarrow> b \<in> set bs \<Longrightarrow> 8 dvd addr b"
  by (induction bs arbitrary: a) auto

lemma tiles_apart: "tiles a bs e \<Longrightarrow> b \<in> set bs \<Longrightarrow> c \<in> set bs \<Longrightarrow> addr b \<noteq> addr c \<Longrightarrow> addr b + len b \<le> addr c \<or> addr c + len c \<le> addr b"
proof (induction bs arbitrary: a)
  case (Cons d bs)
  then have t: "tiles (a + len d) bs e" "addr d = a" by simp_all
  have "a + len d \<le> addr x" if "x \<in> set bs" for x using tiles_bounds [OF t(1) that] by simp
  then show ?case using Cons.IH [OF t(1)] Cons.prems(2-4) t(2) by auto
qed simp

lemma first_free_append [simp]: "first_free (xs @ ys) nf = first_free xs (first_free ys nf)"
  by (induction xs) auto

lemma last_append [simp]: "last_free pf (xs @ ys) = last_free (last_free pf xs) ys" "last_addr p (xs @ ys) = last_addr (last_addr p xs) ys"
  by (induction xs arbitrary: pf p) auto

lemma linked_append: "linked h p pf (xs @ ys) nf \<longleftrightarrow> linked h p pf xs (first_free ys nf) \<and> linked h (last_addr p xs) (last_free pf xs) ys nf"
  by (induction xs arbitrary: p pf) auto

lemma linked_cong: "(\<And>b. b \<in> set bs \<Longrightarrow> mem h' (addr b) = mem h (addr b)) \<Longrightarrow> linked h' p pf bs nf = linked h p pf bs nf"
  by (induction bs arbitrary: p pf) auto

lemma first_free_cases: "first_free bs nf = nf \<and> (\<forall>b \<in> set bs. used b) \<or> (\<exists>b \<in> set bs. \<not> used b \<and> first_free bs nf = addr b)"
  by (induction bs) auto

lemma last_free_cases: "last_free pf bs = pf \<and> (\<forall>b \<in> set bs. used b) \<or> (\<exists>b \<in> set bs. \<not> used b \<and> last_free pf bs = addr b)"
proof (induction bs arbitrary: pf)
  case (Cons c bs)
  show ?case using Cons.IH [of pf] Cons.IH [of "addr c"] by auto
qed simp

text \<open>The blocks in front of a change: the last free block, or the head, gets a new successor.\<close>

lemma relink_front:
  assumes "mem h 0 = head_prefix (first_free xs nf)" "linked h 0 0 xs nf" "tiles 32 xs m"
    and "mem h' (last_free 0 xs) = (mem h (last_free 0 xs))\<lparr>f_next_free := VAL nf'\<rparr>"
    and "\<And>y. y \<in> insert 0 (addr ` set xs) \<Longrightarrow> y \<noteq> last_free 0 xs \<Longrightarrow> mem h' y = mem h y"
  shows "mem h' 0 = head_prefix (first_free xs nf') \<and> linked h' 0 0 xs nf'"
  using assms
proof (induction xs arbitrary: nf nf' m rule: rev_induct)
  case (snoc b xs)
  have t: "tiles 32 xs (32 + extent xs)" "addr b = 32 + extent xs" using snoc.prems(3) by (simp_all add: tiles_append)
  have lt: "addr c < addr b" if "c \<in> set xs" for c using tiles_bounds [OF t(1) that] t(2) by simp
  have b: "mem h (addr b) = prefix_of (last_addr 0 xs) (last_free 0 xs) b nf" using snoc.prems(2) by (simp add: linked_append)
  show ?case
  proof (cases "used b")
    case True
    have "last_free 0 xs \<noteq> addr b" using last_free_cases [of 0 xs] lt t(2) by fastforce
    then have "mem h' (addr b) = mem h (addr b)" using snoc.prems(5) [of "addr b"] True by simp
    moreover have "mem h' 0 = head_prefix (first_free xs nf') \<and> linked h' 0 0 xs nf'"
      by (rule snoc.IH [of nf _ nf', OF _ _ t(1)]) (use snoc.prems True in \<open>auto simp: linked_append\<close>)
    ultimately show ?thesis using True b by (simp add: linked_append prefix_of_def)
  next
    case False
    have same: "mem h' y = mem h y" if "y \<in> insert 0 (addr ` set xs)" for y
      using snoc.prems(5) [of y] that lt t(2) False by fastforce
    have "linked h' 0 0 xs (addr b)" using snoc.prems(2) False linked_cong [of xs h' h] same by (simp add: linked_append)
    moreover have "mem h' (addr b) = prefix_of (last_addr 0 xs) (last_free 0 xs) b nf'" using snoc.prems(4) False b by (simp add: prefix_of_def)
    ultimately show ?thesis using snoc.prems(1) same False by (simp add: linked_append)
  qed
qed (simp add: head_prefix_def)

text \<open>The blocks behind a change: the first one gets a new predecessor, and so does the first free
  one.\<close>

definition relink :: "block list \<Rightarrow> nat \<Rightarrow> nat \<Rightarrow> nat \<Rightarrow> block_prefix_t \<Rightarrow> block_prefix_t" where
  "relink ys p pf y b = b\<lparr>f_prev_block := if ys \<noteq> [] \<and> y = addr (hd ys) then VAL p else f_prev_block b,
     f_prev_free := if y = first_free ys 0 then VAL pf else f_prev_free b\<rparr>"

lemma relink_pf:
  assumes "linked h p pf ys nf" "tiles a ys e" "0 < a"
    and "\<And>y. y \<in> addr ` set ys \<Longrightarrow> mem h' y = (mem h y)\<lparr>f_prev_free := if y = first_free ys 0 then VAL pf' else f_prev_free (mem h y)\<rparr>"
  shows "linked h' p pf' ys nf"
  using assms
proof (induction ys arbitrary: p pf a)
  case (Cons b ys)
  have gt: "addr b < addr c" if "c \<in> set ys" for c using tiles_bounds [of "a + len b" ys e c] that Cons.prems(2) by auto
  show ?case
  proof (cases "used b")
    case True
    have "addr b \<noteq> first_free ys 0" using first_free_cases [of ys 0] gt Cons.prems(2,3) by fastforce
    then have "mem h' (addr b) = mem h (addr b)" using Cons.prems(4) [of "addr b"] True by simp
    moreover have "linked h' (addr b) pf' ys nf" by (rule Cons.IH [of _ _ "a + len b"]) (use Cons.prems True in auto)
    ultimately show ?thesis using Cons.prems(1) True by (simp add: prefix_of_def)
  next
    case False
    have "mem h' (addr c) = mem h (addr c)" if "c \<in> set ys" for c using Cons.prems(4) [of "addr c"] gt [OF that] that False by simp
    then have "linked h' (addr b) (addr b) ys nf" using linked_cong [of ys h' h] Cons.prems(1) False by simp
    then show ?thesis using Cons.prems(1) Cons.prems(4) [of "addr b"] False by (simp add: prefix_of_def)
  qed
qed simp

lemma relink_back:
  assumes "linked h p pf ys nf" "tiles a ys e" "0 < a" and "\<And>y. y \<in> addr ` set ys \<Longrightarrow> mem h' y = relink ys p' pf' y (mem h y)"
  shows "linked h' p' pf' ys nf"
proof (cases ys)
  case (Cons b zs)
  define g where "g = h\<lparr>mem := (mem h)(addr b := (mem h (addr b))\<lparr>f_prev_block := VAL p'\<rparr>)\<rparr>"
  have gt: "addr b < addr c" if "c \<in> set zs" for c using tiles_bounds [of "a + len b" zs e c] that assms(2) Cons by auto
  have "linked g (addr b) (if used b then pf else addr b) zs nf = linked h (addr b) (if used b then pf else addr b) zs nf"
    by (rule linked_cong) (use gt in \<open>force simp: g_def\<close>)
  then have "linked g p' pf ys nf" using assms(1) Cons by (simp add: g_def prefix_of_def)
  then show ?thesis by (rule relink_pf [OF _ assms(2,3)]) (use assms(4) gt in \<open>auto simp: Cons relink_def g_def\<close>)
qed simp

lemma links_replace:
  assumes l: "links h (xs @ m @ ys)" and t: "tiles 32 (xs @ m @ ys) e"
    and front: "mem h' (last_free 0 xs) = (mem h (last_free 0 xs))\<lparr>f_next_free := VAL (first_free (m' @ ys) 0)\<rparr>"
      "\<And>y. y \<in> insert 0 (addr ` set xs) \<Longrightarrow> y \<noteq> last_free 0 xs \<Longrightarrow> mem h' y = mem h y"
    and mid: "linked h' (last_addr 0 xs) (last_free 0 xs) m' (first_free ys 0)"
    and rear: "\<And>y. y \<in> addr ` set ys \<Longrightarrow> mem h' y = relink ys (last_addr (last_addr 0 xs) m') (last_free (last_free 0 xs) m') y (mem h y)"
  shows "links h' (xs @ m' @ ys)"
proof -
  have t: "tiles 32 xs (32 + extent xs)" "tiles (32 + extent (xs @ m)) ys e"
    using t tiles_append [of 32 "xs @ m" ys e] by (simp_all add: tiles_append)
  have l: "mem h 0 = head_prefix (first_free xs (first_free (m @ ys) 0))" "linked h 0 0 xs (first_free (m @ ys) 0)"
    "linked h (last_addr 0 (xs @ m)) (last_free 0 (xs @ m)) ys 0"
    using l by (simp_all add: links_def linked_append sheep_consts)
  have "linked h' (last_addr (last_addr 0 xs) m') (last_free (last_free 0 xs) m') ys 0"
    by (rule relink_back [OF l(3) t(2)]) (simp_all add: rear)
  with relink_front [OF l(1,2) t(1) front] mid show ?thesis by (simp add: links_def linked_append sheep_consts)
qed

section \<open>Reading a block\<close>

lemma geometry:
  assumes "heap_blocks h (xs @ b # ys)"
  shows "32 \<le> addr b" "8 dvd addr b" "24 \<le> len b" "8 dvd len b" "addr b + len b \<le> heap_size h" "tiles 32 xs (addr b)" "tiles (addr b + len b) ys (heap_size h)"
    and "c \<in> set xs \<Longrightarrow> 32 \<le> addr c \<and> addr c < addr b" "d \<in> set ys \<Longrightarrow> addr b + len b \<le> addr d"
    and "last_free 0 xs < addr b" "8 dvd last_free 0 xs" "first_free ys 0 = 0 \<or> addr b < first_free ys 0" "8 dvd first_free ys 0"
    and "last_addr 0 xs < addr b" "8 dvd last_addr 0 xs"
proof -
  have t: "tiles 32 (xs @ b # ys) (heap_size h)" using assms by (simp add: heap_blocks_def sheep_consts)
  then have tt: "tiles 32 xs (32 + extent xs)" "addr b = 32 + extent xs" "24 \<le> len b" "8 dvd len b" "tiles (addr b + len b) ys (heap_size h)"
    by (auto simp: tiles_append)
  then show "tiles 32 xs (addr b)" "24 \<le> len b" "8 dvd len b" "tiles (addr b + len b) ys (heap_size h)" "32 \<le> addr b" by simp_all
  show dvd: "8 dvd addr b" using tiles_aligned [OF t, of b] by simp
  show "addr b + len b \<le> heap_size h" using tiles_end [OF tt(5)] by simp
  have x: "32 \<le> addr c \<and> addr c < addr b \<and> 8 dvd addr c" if "c \<in> set xs" for c
    using tiles_bounds [OF tt(1) that] tiles_aligned [OF tt(1) _ that] tt(2) by auto
  have y: "addr b + len b \<le> addr d \<and> 8 dvd addr d" if "d \<in> set ys" for d
    using tiles_bounds [OF tt(5) that] tiles_aligned [OF tt(5) _ that] dvd tt(4) by auto
  show "c \<in> set xs \<Longrightarrow> 32 \<le> addr c \<and> addr c < addr b" "d \<in> set ys \<Longrightarrow> addr b + len b \<le> addr d" using x y by auto
  show "last_free 0 xs < addr b" "8 dvd last_free 0 xs" using last_free_cases [of 0 xs] x tt(2) by auto
  show "first_free ys 0 = 0 \<or> addr b < first_free ys 0" "8 dvd first_free ys 0" using first_free_cases [of ys 0] y tt(3) by fastforce+
  have "last_addr 0 xs = 0 \<or> (\<exists>c \<in> set xs. last_addr 0 xs = addr c)" by (induction xs rule: rev_induct) auto
  then show "last_addr 0 xs < addr b" "8 dvd last_addr 0 xs" using x tt(2) by auto
qed

lemma block_prefix:
  assumes "heap_blocks h (xs @ b # ys)"
  shows "mem h (addr b) = prefix_of (last_addr 0 xs) (last_free 0 xs) b (first_free ys 0)"
  using assms by (simp add: heap_blocks_def links_def linked_append sheep_consts)

lemma block_reads:
  assumes "heap_blocks h (xs @ b # ys)"
  shows "SIZE h (addr b) = len b" "IS_ALLOC h (addr b) = used b"
    and "NEXT_FREE h (addr b) = (if used b then 0 else first_free ys 0)" "PREV_FREE h (addr b) = (if used b then 0 else last_free 0 xs)"
    and "PREV_BLOCK h (addr b) = last_addr 0 xs" "NEXT_BLOCK h (addr b) = (if ys = [] then 0 else addr (hd ys))"
proof -
  note g = geometry [OF assms] and p = block_prefix [OF assms]
  obtain k where "len b = 8 * k" using g(4) by blast
  then show size: "SIZE h (addr b) = len b" and "IS_ALLOC h (addr b) = used b" by (simp_all add: SIZE_def IS_ALLOC_def p prefix_of_def)
  show "NEXT_FREE h (addr b) = (if used b then 0 else first_free ys 0)" "PREV_FREE h (addr b) = (if used b then 0 else last_free 0 xs)"
    "PREV_BLOCK h (addr b) = last_addr 0 xs"
    using g(11,13,15) by (simp_all add: NEXT_FREE_def PREV_FREE_def PREV_BLOCK_def p prefix_of_def)
  have "sheep_end h = heap_size h" using assms by (simp add: heap_blocks_def)
  then show "NEXT_BLOCK h (addr b) = (if ys = [] then 0 else addr (hd ys))"
    using g(7) size by (cases ys) (auto simp: NEXT_BLOCK_def sheep_consts dest: tiles_end)
qed

lemma last_free_next:
  "mem h 0 = head_prefix (first_free xs nf) \<Longrightarrow> linked h 0 0 xs nf \<Longrightarrow> f_next_free (mem h (last_free 0 xs)) = VAL nf"
proof (induction xs arbitrary: nf rule: rev_induct)
  case (snoc b xs)
  then show ?case by (cases "used b") (auto simp: linked_append prefix_of_def)
qed (simp add: head_prefix_def)

lemma next_of_last_free:
  assumes "heap_blocks h (xs @ b # ys)"
  shows "f_next_free (mem h (last_free 0 xs)) = VAL (first_free (b # ys) 0)"
  by (rule last_free_next) (use assms in \<open>simp_all add: heap_blocks_def links_def linked_append sheep_consts\<close>)

lemma head_reads:
  assumes "heap_blocks h bs"
  shows "NEXT_FREE h 0 = first_free bs 0" "IS_ALLOC h 0"
proof -
  have t: "tiles 32 bs (heap_size h)" and m: "mem h 0 = head_prefix (first_free bs 0)"
    using assms by (simp_all add: heap_blocks_def links_def sheep_consts)
  have "8 dvd first_free bs 0" using first_free_cases [of bs 0] tiles_aligned [OF t] by auto
  then show "NEXT_FREE h 0 = first_free bs 0" "IS_ALLOC h 0" by (simp_all add: NEXT_FREE_def IS_ALLOC_def m head_prefix_def)
qed

section \<open>Operations on the list\<close>

lemma heap_replace:
  assumes h: "heap_blocks h (xs @ m @ ys)" and m: "m \<noteq> []" and same: "initialized h' = initialized h" "sheep_end h' = sheep_end h" "heap_size h' = heap_size h"
    and t: "tiles (addr (hd m)) m' (addr (hd m) + extent m)"
    and front: "mem h' (last_free 0 xs) = (mem h (last_free 0 xs))\<lparr>f_next_free := VAL (first_free (m' @ ys) 0)\<rparr>"
      "\<And>y. y \<in> insert 0 (addr ` set xs) \<Longrightarrow> y \<noteq> last_free 0 xs \<Longrightarrow> mem h' y = mem h y"
    and mid: "linked h' (last_addr 0 xs) (last_free 0 xs) m' (first_free ys 0)"
    and rear: "\<And>y. y \<in> addr ` set ys \<Longrightarrow> mem h' y = relink ys (last_addr (last_addr 0 xs) m') (last_free (last_free 0 xs) m') y (mem h y)"
  shows "heap_blocks h' (xs @ m' @ ys)"
proof -
  have tt: "tiles 32 (xs @ m @ ys) (heap_size h)" and l: "links h (xs @ m @ ys)" using h by (simp_all add: heap_blocks_def sheep_consts)
  from tt have "tiles (32 + extent xs) m (32 + extent xs + extent m)" and t2: "tiles 32 xs (32 + extent xs)" "tiles (32 + extent xs + extent m) ys (heap_size h)"
    by (simp_all add: tiles_append)
  then have "addr (hd m) = 32 + extent xs" using m by (cases m) auto
  with t have "tiles (32 + extent xs) m' (32 + extent xs + extent m)" "extent m' = extent m" using tiles_end [OF t] by simp_all
  then have "tiles 32 (xs @ m' @ ys) (heap_size h)" using t2 by (simp add: tiles_append)
  with links_replace [OF l tt front mid rear] show ?thesis using h same by (simp add: heap_blocks_def sheep_consts)
qed

lemma relink_same_prev:
  assumes "heap_blocks h (xs @ b # ys)"
  shows "relink ys (addr b) pf y (mem h y) = (mem h y)\<lparr>f_prev_free := if y = first_free ys 0 then VAL pf else f_prev_free (mem h y)\<rparr>"
proof (cases ys)
  case (Cons c zs)
  then have "f_prev_block (mem h (addr c)) = VAL (addr b)" using block_prefix [of h "xs @ [b]" c zs] assms by (simp add: prefix_of_def)
  then show ?thesis by (simp add: relink_def Cons)
qed (simp add: relink_def)

lemmas set_defs = SET_ALLOC_def SET_FREE_def SET_PREV_BLOCK_def SET_NEXT_FREE_def SET_PREV_FREE_def SET_SIZE_def CLEAR_def

lemma take_block_list:
  assumes h: "heap_blocks h (xs @ b # ys)" and free: "\<not> used b"
  shows "heap_blocks (take_block (addr b) h) (xs @ b\<lparr>used := True\<rparr> # ys)" "first_fit (take_block (addr b) h) = first_fit h"
proof -
  note g = geometry [OF h] and r = block_reads [OF h] and p = block_prefix [OF h]
  let ?h = "take_block (addr b) h" and ?pf = "last_free 0 xs" and ?nf = "first_free ys 0"
  have e: "?h = SET_PREV_FREE (addr b) 0 (SET_NEXT_FREE (addr b) 0
      ((if ?nf \<noteq> 0 then SET_PREV_FREE ?nf ?pf else id) (SET_NEXT_FREE ?pf ?nf (SET_ALLOC (addr b) h))))"
    using r free by (simp add: take_block_def Let_def sheep_consts)
  show "first_fit ?h = first_fit h" by (simp add: e set_defs)
  have b: "mem ?h (addr b) = prefix_of (last_addr 0 xs) ?pf (b\<lparr>used := True\<rparr>) ?nf"
    using g(1,4,10,12) p free by (auto simp: e set_defs prefix_of_def or_even [simplified])
  have "heap_blocks ?h (xs @ [b\<lparr>used := True\<rparr>] @ ys)"
  proof (rule heap_replace [where m = "[b]" and h = h])
    show "mem ?h ?pf = (mem h ?pf)\<lparr>f_next_free := VAL (first_free ([b\<lparr>used := True\<rparr>] @ ys) 0)\<rparr>"
      using g(10,12) by (auto simp: e set_defs)
    show "mem ?h y = mem h y" if "y \<in> insert 0 (addr ` set xs)" "y \<noteq> ?pf" for y
      using that g(1,8,12) by (fastforce simp: e set_defs)
    show "mem ?h y = relink ys (last_addr (last_addr 0 xs) [b\<lparr>used := True\<rparr>]) (last_free ?pf [b\<lparr>used := True\<rparr>]) y (mem h y)" if "y \<in> addr ` set ys" for y
      using that g(1,9,10) g(3) relink_same_prev [OF h, of ?pf y] by (fastforce simp: e set_defs)
  qed (use h g b in \<open>auto simp: e set_defs\<close>)
  then show "heap_blocks ?h (xs @ b\<lparr>used := True\<rparr> # ys)" by simp
qed

lemma hd_addr: "ys \<noteq> [] \<Longrightarrow> addr (hd ys) \<in> addr ` set ys"
  by simp

lemma split_block_list:
  assumes h: "heap_blocks h (xs @ b # ys)" and u: "used b" and a: "8 dvd a" "24 \<le> a" "a + 24 \<le> len b"
  shows "\<exists>h'. split_block (addr b) a (len b) (last_free 0 xs) (first_free ys 0) (if ys = [] then 0 else addr (hd ys)) h = Some h' \<and>
    heap_blocks h' (xs @ b\<lparr>len := a\<rparr> # \<lparr>addr = addr b + a, len = len b - a, used = False\<rparr> # ys) \<and> first_fit h' = first_fit h"
proof -
  note g = geometry [OF h] and p = block_prefix [OF h]
  let ?pf = "last_free 0 xs" and ?nf = "first_free ys 0" and ?new = "addr b + a"
  define nb where "nb = (if ys = [] then 0 else addr (hd ys))"
  let ?m = "[b\<lparr>len := a\<rparr>, \<lparr>addr = ?new, len = len b - a, used = False\<rparr>]"
  define h' where "h' = (if ?nf \<noteq> 0 then SET_PREV_FREE ?nf ?new else id) (SET_NEXT_FREE ?pf ?new ((if nb \<noteq> 0 then SET_PREV_BLOCK nb ?new else id)
    (SET_SIZE (addr b) a (SET_SIZE ?new (len b - a) (SET_PREV_FREE ?new ?pf (SET_NEXT_FREE ?new ?nf (SET_PREV_BLOCK ?new (addr b) (SET_FREE ?new (CLEAR ?new h)))))))))"
  have d: "8 dvd (len b - a)" using g(4) a by simp
  have "len b - a < heap_size h" using g(1,5) a by simp
  then have s: "split_block (addr b) a (len b) ?pf ?nf nb h = Some h'"
    using a d by (simp add: split_block_def Let_def h'_def sheep_consts min_alloc_size_def ALIGN8_def set_defs mod_eq_0_iff_dvd)
  have nb: "nb = 0 \<or> addr b + len b \<le> nb" using g(9) hd_addr [of ys] unfolding nb_def by auto
  have nf: "?nf = 0 \<or> addr b + len b \<le> ?nf" using first_free_cases [of ys 0] g(9) by auto
  have ne: "?pf \<noteq> ?new" "?pf \<noteq> addr b" "?nf \<noteq> ?new" "nb \<noteq> ?new" "?nf \<noteq> addr b" "nb \<noteq> addr b" "?new \<noteq> addr b" "?nf \<noteq> 0 \<Longrightarrow> ?pf \<noteq> ?nf" "nb \<noteq> 0 \<Longrightarrow> ?pf \<noteq> nb"
    using g(1,3,10) nf nb a by linarith+
  have m_new: "mem h' ?new = prefix_of (addr b) ?pf \<lparr>addr = ?new, len = len b - a, used = False\<rparr> ?nf"
    using ne or_size [OF d, of 0] by (simp add: h'_def set_defs prefix_of_def)
  have m_b: "mem h' (addr b) = prefix_of (last_addr 0 xs) ?pf (b\<lparr>len := a\<rparr>) ?new"
  proof -
    obtain k where "len b = 8 * k" using g(4) by blast
    then have "f_size (mem h (addr b)) mod 2 = 1" using u by (simp add: p prefix_of_def)
    then have "or (f_size (mem h (addr b)) mod 2) (a div 4) = a div 4 + 1" using or_size [OF a(1), of 1] by simp
    moreover have "mem h' (addr b) = (mem h (addr b))\<lparr>f_size := or (f_size (mem h (addr b)) mod 2) (a div 4)\<rparr>"
      using ne by (simp add: h'_def set_defs)
    ultimately show ?thesis using u by (simp add: p prefix_of_def)
  qed
  have m_pf: "mem h' ?pf = (mem h ?pf)\<lparr>f_next_free := VAL ?new\<rparr>" using ne by (auto simp: h'_def set_defs)
  have m_rest: "mem h' y = (mem h y)\<lparr>f_prev_block := if nb \<noteq> 0 \<and> y = nb then VAL ?new else f_prev_block (mem h y),
      f_prev_free := if ?nf \<noteq> 0 \<and> y = ?nf then VAL ?new else f_prev_free (mem h y)\<rparr>" if "y \<noteq> ?new" "y \<noteq> addr b" "y \<noteq> ?pf" for y
    using that by (simp add: h'_def set_defs)
  have same: "heap_size h' = heap_size h" "sheep_end h' = sheep_end h" "initialized h' = initialized h" "first_fit h' = first_fit h"
    by (simp_all add: h'_def set_defs)
  have tile: "tiles (addr b) ?m (addr b + len b)" using g(4) a d by simp
  have "heap_blocks h' (xs @ ?m @ ys)"
  proof (rule heap_replace [where m = "[b]" and h = h])
    show "mem h' ?pf = (mem h ?pf)\<lparr>f_next_free := VAL (first_free (?m @ ys) 0)\<rparr>" using m_pf u by simp
    show "mem h' y = mem h y" if y: "y \<in> insert 0 (addr ` set xs)" "y \<noteq> ?pf" for y
    proof -
      have "y < addr b" using y(1) g(1,8) by auto
      then have "y \<noteq> ?new" "y \<noteq> addr b" "\<not> (nb \<noteq> 0 \<and> y = nb)" "\<not> (?nf \<noteq> 0 \<and> y = ?nf)" using nb nf by auto
      then show ?thesis using m_rest [of y] y(2) by auto
    qed
    show "linked h' (last_addr 0 xs) ?pf ?m ?nf" using m_b m_new u by simp
    show "mem h' y = relink ys (last_addr (last_addr 0 xs) ?m) (last_free ?pf ?m) y (mem h y)" if y: "y \<in> addr ` set ys" for y
    proof -
      have "addr b + len b \<le> y" "ys \<noteq> []" using y g(9) by auto
      then have "y \<noteq> ?new" "y \<noteq> addr b" "y \<noteq> ?pf" "y \<noteq> 0" "nb \<noteq> 0" "nb = addr (hd ys)" using a g(1,3,10) nb g(9) [of "hd ys"] unfolding nb_def by auto
      then show ?thesis using m_rest [of y] u \<open>ys \<noteq> []\<close> by (auto simp: relink_def)
    qed
  qed (use h tile in \<open>simp_all add: same\<close>)
  then have "heap_blocks h' (xs @ b\<lparr>len := a\<rparr> # \<lparr>addr = ?new, len = len b - a, used = False\<rparr> # ys)" by simp
  then show ?thesis using s same(4) unfolding nb_def by blast
qed

lemma put_back_list:
  assumes h: "heap_blocks h (xs @ b # ys)" and u: "used b"
    and h': "h' = SET_PREV_FREE (addr b) (last_free 0 xs) (SET_NEXT_FREE (addr b) (first_free ys 0)
      ((if first_free ys 0 \<noteq> 0 then SET_PREV_FREE (first_free ys 0) (addr b) else id) (SET_NEXT_FREE (last_free 0 xs) (addr b) (SET_FREE (addr b) h))))"
  shows "heap_blocks h' (xs @ b\<lparr>used := False\<rparr> # ys)"
proof -
  note g = geometry [OF h] and p = block_prefix [OF h]
  let ?pf = "last_free 0 xs" and ?nf = "first_free ys 0"
  have ne: "?pf \<noteq> addr b" "?nf \<noteq> addr b" "?nf \<noteq> 0 \<Longrightarrow> ?pf \<noteq> ?nf" using g(1,10,12) by linarith+
  have m_b: "mem h' (addr b) = prefix_of (last_addr 0 xs) ?pf (b\<lparr>used := False\<rparr>) ?nf"
  proof -
    obtain k where "len b = 8 * k" using g(4) by blast
    then show ?thesis using ne u by (simp add: h' set_defs) (simp add: p prefix_of_def)
  qed
  have m_pf: "mem h' ?pf = (mem h ?pf)\<lparr>f_next_free := VAL (addr b)\<rparr>" using ne by (auto simp: h' set_defs)
  have m_rest: "mem h' y = (mem h y)\<lparr>f_prev_free := if ?nf \<noteq> 0 \<and> y = ?nf then VAL (addr b) else f_prev_free (mem h y)\<rparr>" if "y \<noteq> addr b" "y \<noteq> ?pf" for y
    using that by (simp add: h' set_defs)
  have "heap_blocks h' (xs @ [b\<lparr>used := False\<rparr>] @ ys)"
  proof (rule heap_replace [where m = "[b]" and h = h])
    show "mem h' ?pf = (mem h ?pf)\<lparr>f_next_free := VAL (first_free ([b\<lparr>used := False\<rparr>] @ ys) 0)\<rparr>" using m_pf by simp
    show "mem h' y = mem h y" if y: "y \<in> insert 0 (addr ` set xs)" "y \<noteq> ?pf" for y
    proof -
      have "y < addr b" using y(1) g(1,8) by auto
      then show ?thesis using m_rest [of y] y(2) g(12) by auto
    qed
    show "mem h' y = relink ys (last_addr (last_addr 0 xs) [b\<lparr>used := False\<rparr>]) (last_free ?pf [b\<lparr>used := False\<rparr>]) y (mem h y)"
      if y: "y \<in> addr ` set ys" for y
    proof -
      have "addr b + len b \<le> y" using y g(9) by auto
      then have "y \<noteq> addr b" "y \<noteq> ?pf" "y \<noteq> 0" using g(1,3,10) by auto
      then show ?thesis using m_rest [of y] relink_same_prev [OF h, of "addr b" y] by auto
    qed
  qed (use h g m_b in \<open>auto simp: h' set_defs\<close>)
  then show ?thesis by simp
qed

lemma merge_list:
  assumes h: "heap_blocks h (xs @ a # b # ys)" and u: "\<not> used a" "\<not> used b"
  shows "heap_blocks (merge_free_blocks (addr a) (addr b) h) (xs @ a\<lparr>len := len a + len b\<rparr> # ys)" "first_fit (merge_free_blocks (addr a) (addr b) h) = first_fit h"
proof -
  have hb: "heap_blocks h ((xs @ [a]) @ b # ys)" using h by simp
  note ga = geometry [OF h] and gb = geometry [OF hb] and pa = block_prefix [OF h] and ra = block_reads [OF h] and rb = block_reads [OF hb]
  let ?nf = "first_free ys 0"
  define nb where "nb = (if ys = [] then 0 else addr (hd ys))"
  define h' where "h' = SET_SIZE (addr a) (len a + len b) ((if ?nf \<noteq> 0 then SET_PREV_FREE ?nf (addr a) else id)
    ((if nb \<noteq> 0 then SET_PREV_BLOCK nb (addr a) else id) (SET_NEXT_FREE (addr a) ?nf h)))"
  have e: "merge_free_blocks (addr a) (addr b) h = h'"
    using ra(1) rb(1,3,6) u by (simp add: merge_free_blocks_def Let_def h'_def nb_def sheep_consts)
  have ab: "addr b = addr a + len a" using ga(7) by simp
  have nb: "nb = 0 \<or> addr b + len b \<le> nb" using gb(9) hd_addr [of ys] unfolding nb_def by auto
  have nf: "?nf = 0 \<or> addr b + len b \<le> ?nf" using first_free_cases [of ys 0] gb(9) by auto
  have ne: "?nf \<noteq> addr a" "nb \<noteq> addr a" using ga(1,3) gb(3) nb nf ab by linarith+
  have d: "8 dvd (len a + len b)" using ga(4) gb(4) by simp
  have m_a: "mem h' (addr a) = prefix_of (last_addr 0 xs) (last_free 0 xs) (a\<lparr>len := len a + len b\<rparr>) ?nf"
  proof -
    obtain k where "len a = 8 * k" using ga(4) by blast
    then have "f_size (mem h (addr a)) mod 2 = 0" using u by (simp add: pa prefix_of_def)
    then have "or (f_size (mem h (addr a)) mod 2) ((len a + len b) div 4) = (len a + len b) div 4" using or_size [OF d, of 0] by simp
    then show ?thesis using ne u by (simp add: h'_def set_defs) (simp add: pa prefix_of_def)
  qed
  have m_rest: "mem h' y = (mem h y)\<lparr>f_prev_block := if nb \<noteq> 0 \<and> y = nb then VAL (addr a) else f_prev_block (mem h y),
      f_prev_free := if ?nf \<noteq> 0 \<and> y = ?nf then VAL (addr a) else f_prev_free (mem h y)\<rparr>" if "y \<noteq> addr a" for y
    using that by (simp add: h'_def set_defs)
  let ?m = "[a\<lparr>len := len a + len b\<rparr>]"
  have small: "mem h' y = mem h y" if "y < addr a" for y using m_rest [of y] that nb nf ab by auto
  have "heap_blocks h' (xs @ ?m @ ys)"
  proof (rule heap_replace [where m = "[a, b]" and h = h])
    have "f_next_free (mem h (last_free 0 xs)) = VAL (addr a)" using next_of_last_free [OF h] u by simp
    then show "mem h' (last_free 0 xs) = (mem h (last_free 0 xs))\<lparr>f_next_free := VAL (first_free (?m @ ys) 0)\<rparr>"
      using small [OF ga(10)] u by simp
    show "mem h' y = mem h y" if y: "y \<in> insert 0 (addr ` set xs)" "y \<noteq> last_free 0 xs" for y
      by (rule small) (use y(1) ga(1,8) in auto)
    show "linked h' (last_addr 0 xs) (last_free 0 xs) ?m ?nf" using m_a u by simp
    show "mem h' y = relink ys (last_addr (last_addr 0 xs) ?m) (last_free (last_free 0 xs) ?m) y (mem h y)" if y: "y \<in> addr ` set ys" for y
    proof -
      have "addr b + len b \<le> y" "ys \<noteq> []" using y gb(9) by auto
      then have "y \<noteq> addr a" "y \<noteq> 0" "nb \<noteq> 0" "nb = addr (hd ys)" using ga(1,3) gb(1,3) nb ab gb(9) [of "hd ys"] unfolding nb_def by auto
      then show ?thesis using m_rest [of y] u \<open>ys \<noteq> []\<close> by (auto simp: relink_def)
    qed
  qed (use h ga gb d in \<open>auto simp: h'_def set_defs ab\<close>)
  then show "heap_blocks (merge_free_blocks (addr a) (addr b) h) (xs @ a\<lparr>len := len a + len b\<rparr> # ys)" by (simp add: e)
  show "first_fit (merge_free_blocks (addr a) (addr b) h) = first_fit h" by (simp add: e h'_def set_defs)
qed

section \<open>Allocation on the list\<close>

fun fit_list :: "bool \<Rightarrow> nat \<Rightarrow> block list \<Rightarrow> nat option \<Rightarrow> nat \<Rightarrow> nat option \<times> nat" where
  "fit_list ff a [] best d = (best, d)"
| "fit_list ff a (b # bs) best d =
     (if used b \<or> len b < a then fit_list ff a bs best d
      else if len b - a < d then
        (if len b - a < 24 \<or> ff then (Some (addr b), len b - a) else fit_list ff a bs (Some (addr b)) (len b - a))
      else if ff then (best, d)
      else fit_list ff a bs best d)"

lemma find_fit_list:
  "heap_blocks h (xs @ ys) \<Longrightarrow> find_fit h a (first_free ys 0) best d = Some (fit_list (first_fit h) a ys best d)"
proof (induction ys arbitrary: xs best d)
  case (Cons b ys)
  note r = block_reads [OF Cons.prems] and g = geometry [OF Cons.prems]
  have rest: "heap_blocks h ((xs @ [b]) @ ys)" using Cons.prems by simp
  note IH = Cons.IH [OF rest]
  show ?case
  proof (cases "used b")
    case False
    then show ?thesis using r g(1) IH
      by (subst find_fit.simps) (simp add: sheep_consts min_alloc_size_def ALIGN8_def Let_def)
  qed (simp add: IH)
qed (simp add: find_fit.simps sheep_consts)

lemma fit_list_found:
  "fit_list ff a bs best d = (r, d') \<Longrightarrow> r = best \<and> d' = d \<or> (\<exists>b \<in> set bs. \<not> used b \<and> a \<le> len b \<and> r = Some (addr b) \<and> d' = len b - a \<and> d' < d)"
proof (induction bs arbitrary: best d)
  case (Cons b bs)
  show ?case
  proof (cases "used b \<or> len b < a \<or> \<not> len b - a < d")
    case True
    then show ?thesis using Cons by (auto split: if_splits)
  next
    case False
    then show ?thesis using Cons.IH [of "Some (addr b)" "len b - a"] Cons.prems by (auto split: if_splits)
  qed
qed simp

lemma fit_list_keeps: "fit_list ff a bs (Some x) d \<noteq> (None, d')"
  by (induction bs arbitrary: x d) auto

lemma fit_list_none: "fit_list ff a bs None d = (None, d') \<Longrightarrow> \<forall>b \<in> set bs. len b < a + d \<Longrightarrow> \<forall>b \<in> set bs. used b \<or> len b < a"
proof (induction bs)
  case (Cons b bs)
  then show ?case using fit_list_keeps [of ff a bs "addr b"] by (auto split: if_splits)
qed simp

text \<open>The best fit, unless a block that is used whole comes first.\<close>

lemma fit_list_best:
  "fit_list False a bs best d = (r, d') \<Longrightarrow> d' < 24 \<or> d' \<le> d \<and> (\<forall>b \<in> set bs. \<not> used b \<longrightarrow> a \<le> len b \<longrightarrow> d' \<le> len b - a)"
proof (induction bs arbitrary: best d)
  case (Cons b bs)
  show ?case
  proof (cases "used b \<or> len b < a \<or> \<not> len b - a < d")
    case True
    then show ?thesis using Cons.IH [of best d] Cons.prems by (auto split: if_splits)
  next
    case False
    then show ?thesis using Cons.IH [of "Some (addr b)" "len b - a"] Cons.prems by (auto split: if_splits)
  qed
qed simp

lemma ALIGN8_ge: "x \<le> ALIGN8 x" "8 dvd ALIGN8 x" "ALIGN8 x < x + 8"
proof -
  have "x = 8 * (x div 8) + x mod 8" by simp
  moreover have "x mod 8 < 8" by simp
  ultimately show "x \<le> ALIGN8 x" "ALIGN8 x < x + 8" unfolding ALIGN8_def by (auto, linarith+)
  show "8 dvd ALIGN8 x" by (simp add: ALIGN8_def mod_eq_0_iff_dvd dvd_mult)
qed

text \<open>The sizes of requests for which nothing wraps around.\<close>

definition request_ok :: "nat \<Rightarrow> bool" where
  "request_ok n \<longleftrightarrow> 0 < n \<and> n < 2 ^ 32 - 24"

lemma alloc_size_request: "request_ok n \<Longrightarrow> alloc_size_of n = ALIGN8 (n + 16)"
  using ALIGN8_ge [of "n + 16"] by (simp add: request_ok_def alloc_size_of_def sizeof_block_def)

lemma alloc_size_bounds: "request_ok n \<Longrightarrow> n + 16 \<le> alloc_size_of n \<and> 24 \<le> alloc_size_of n \<and> 8 dvd alloc_size_of n"
proof -
  assume r: "request_ok n"
  obtain k where k: "ALIGN8 (n + 16) = 8 * k" using ALIGN8_ge(2) by blast
  have "n + 16 \<le> ALIGN8 (n + 16)" by (rule ALIGN8_ge)
  moreover have "16 < ALIGN8 (n + 16)" using calculation r by (simp add: request_ok_def)
  ultimately show ?thesis using alloc_size_request [OF r] k by simp
qed

definition allocated :: "nat \<Rightarrow> block \<Rightarrow> block list" where
  "allocated a b = (if len b - a < 24 then [b\<lparr>used := True\<rparr>]
     else [b\<lparr>used := True, len := a\<rparr>, \<lparr>addr = addr b + a, len = len b - a, used = False\<rparr>])"

lemma malloc_list:
  assumes h: "heap_blocks h bs" and n: "request_ok n"
  shows "malloc_sheep n h = Some (None, h) \<and> (\<forall>b \<in> set bs. used b \<or> len b < alloc_size_of n) \<or>
    (\<exists>xs b ys h'. bs = xs @ b # ys \<and> \<not> used b \<and> alloc_size_of n \<le> len b \<and> malloc_sheep n h = Some (Some (addr b + 16), h') \<and>
       heap_blocks h' (xs @ allocated (alloc_size_of n) b @ ys) \<and> first_fit h' = first_fit h \<and>
       (first_fit h \<or> len b - alloc_size_of n < 24 \<or> (\<forall>c \<in> set bs. \<not> used c \<longrightarrow> alloc_size_of n \<le> len c \<longrightarrow> len b \<le> len c)))"
proof -
  let ?a = "alloc_size_of n"
  have t: "tiles 32 bs (heap_size h)" "heap_size h < 2 ^ 25" using h by (simp_all add: heap_blocks_def sheep_consts)
  have small: "\<forall>b \<in> set bs. len b < ?a + UINT32_MAX" using tiles_bounds [OF t(1)] t(2) by (fastforce simp: UINT32_MAX_def)
  obtain r d where rd: "fit_list (first_fit h) ?a bs None UINT32_MAX = (r, d)" by fastforce
  have find: "find_fit h ?a (NEXT_FREE h head_block) None UINT32_MAX = Some (r, d)"
    using find_fit_list [of h "[]" bs ?a None UINT32_MAX] h rd head_reads(1) [OF h] by (simp add: sheep_consts)
  show ?thesis
  proof (cases r)
    case None
    then have "\<forall>b \<in> set bs. used b \<or> len b < ?a" using fit_list_none [of "first_fit h" ?a bs] rd small by auto
    then show ?thesis using find None n by (simp add: malloc_sheep_def request_ok_def)
  next
    case (Some x)
    then obtain b where b: "b \<in> set bs" "\<not> used b" "?a \<le> len b" "x = addr b" "d = len b - ?a" using fit_list_found [OF rd] by auto
    then obtain xs ys where bs: "bs = xs @ b # ys" by (auto dest: split_list)
    note hb = h [unfolded bs] and r = block_reads [OF h [unfolded bs]]
    note take = take_block_list [OF hb b(2)]
    have best: "first_fit h \<or> d < 24 \<or> (\<forall>c \<in> set bs. \<not> used c \<longrightarrow> ?a \<le> len c \<longrightarrow> len b \<le> len c)"
      using fit_list_best [of ?a bs None UINT32_MAX] rd b(3,5) by (cases "first_fit h") (auto simp: diff_le_mono2 le_diff_conv)
    show ?thesis
    proof (cases "d < 24")
      case True
      then have "malloc_sheep n h = Some (Some (addr b + 16), take_block (addr b) h)"
        using find Some b r n by (simp add: malloc_sheep_def request_ok_def Let_def min_alloc_size_def ALIGN8_def sheep_consts)
      then show ?thesis using take b bs True by (intro disjI2 exI [of _ xs] exI [of _ b] exI [of _ ys]) (simp add: allocated_def)
    next
      case False
      have a: "8 dvd ?a" "24 \<le> ?a" "?a + 24 \<le> len (b\<lparr>used := True\<rparr>)" using alloc_size_bounds [OF n] False b(3,5) by simp_all
      from split_block_list [OF take(1) _ a] obtain h' where h': "split_block (addr b) ?a (len b) (last_free 0 xs) (first_free ys 0)
          (if ys = [] then 0 else addr (hd ys)) (take_block (addr b) h) = Some h'"
        "heap_blocks h' (xs @ allocated ?a b @ ys)" "first_fit h' = first_fit h"
        using False b(5) take(2) by (auto simp: allocated_def)
      have "malloc_sheep n h = Some (Some (addr b + 16), h')"
        using find Some b r n h'(1) False by (simp add: malloc_sheep_def request_ok_def Let_def min_alloc_size_def ALIGN8_def sheep_consts)
      then show ?thesis using h'(2,3) b bs best by blast
    qed
  qed
qed

section \<open>Release on the list\<close>

lemma find_prev_free_list: "heap_blocks h (xs @ ys) \<Longrightarrow> find_prev_free h (last_addr 0 xs) = Some (last_free 0 xs)"
proof (induction xs arbitrary: ys rule: rev_induct)
  case (snoc b xs)
  then have h: "heap_blocks h (xs @ b # ys)" by simp
  note r = block_reads [OF h] and g = geometry [OF h]
  show ?case
  proof (cases "used b")
    case True
    then have "find_prev_free h (addr b) = find_prev_free h (last_addr 0 xs)" using r g(1) by (subst find_prev_free.simps) (simp add: sheep_consts)
    then show ?thesis using True snoc.IH [OF h] by simp
  qed (use r in \<open>simp add: find_prev_free.simps [of h "addr b"]\<close>)
qed (simp add: find_prev_free.simps sheep_consts)

definition join_left :: "block list \<Rightarrow> block \<Rightarrow> block list \<times> block" where
  "join_left xs b = (if xs \<noteq> [] \<and> \<not> used (last xs) then (butlast xs, (last xs)\<lparr>len := len (last xs) + len b\<rparr>) else (xs, b))"

definition join_right :: "block \<Rightarrow> block list \<Rightarrow> block \<times> block list" where
  "join_right b ys = (if ys \<noteq> [] \<and> \<not> used (hd ys) then (b\<lparr>len := len b + len (hd ys)\<rparr>, tl ys) else (b, ys))"

definition released :: "block list \<Rightarrow> block \<Rightarrow> block list \<Rightarrow> block list" where
  "released xs b ys = (case join_left xs (b\<lparr>used := False\<rparr>) of (xs, b) \<Rightarrow> case join_right b ys of (b, ys) \<Rightarrow> xs @ b # ys)"

lemma join_prev_list:
  assumes h: "heap_blocks h (xs @ b # ys)" and u: "\<not> used b" and j: "join_left xs b = (xs', b')"
  shows "\<exists>ch h'. join_prev (addr b) h = (ch, addr b', h') \<and> heap_blocks h' (xs' @ b' # ys) \<and> first_fit h' = first_fit h \<and> \<not> used b' \<and>
    (\<not> ch \<longrightarrow> h' = h \<and> xs' = xs \<and> b' = b)"
proof (cases xs rule: rev_cases)
  case Nil
  then show ?thesis using assms block_reads(5) [OF h] head_reads(2) [OF h] by (auto simp: join_prev_def join_left_def)
next
  case (snoc zs a)
  then have h2: "heap_blocks h (zs @ a # b # ys)" using h by simp
  have p: "PREV_BLOCK h (addr b) = addr a" "IS_ALLOC h (addr a) = used a" using block_reads(5) [OF h] block_reads(2) [OF h2] snoc by simp_all
  show ?thesis
  proof (cases "used a")
    case False
    then have "join_prev (addr b) h = (True, addr a, merge_free_blocks (addr a) (addr b) h)" "xs' = zs" "b' = a\<lparr>len := len a + len b\<rparr>"
      using p j snoc by (simp_all add: join_prev_def join_left_def Let_def)
    then show ?thesis using merge_list [OF h2 False u] False by auto
  qed (use p j snoc h u in \<open>auto simp: join_prev_def join_left_def\<close>)
qed

lemma join_next_list:
  assumes h: "heap_blocks h (xs @ b # ys)" and u: "\<not> used b" and j: "join_right b ys = (b', ys')"
  shows "\<exists>ch h'. join_next (addr b) h = (ch, h') \<and> heap_blocks h' (xs @ b' # ys') \<and> first_fit h' = first_fit h \<and> \<not> used b' \<and> addr b' = addr b \<and>
    (\<not> ch \<longrightarrow> h' = h \<and> ys' = ys \<and> b' = b)"
proof (cases ys)
  case Nil
  then show ?thesis using assms block_reads(6) [OF h] head_reads(2) [OF h] by (auto simp: join_next_def join_right_def)
next
  case (Cons c zs)
  then have h2: "heap_blocks h ((xs @ [b]) @ c # zs)" "heap_blocks h (xs @ b # c # zs)" using h by simp_all
  have p: "NEXT_BLOCK h (addr b) = addr c" "IS_ALLOC h (addr c) = used c" using block_reads(6) [OF h] block_reads(2) [OF h2(1)] Cons by simp_all
  show ?thesis
  proof (cases "used c")
    case False
    then have "join_next (addr b) h = (True, merge_free_blocks (addr b) (addr c) h)" "ys' = zs" "b' = b\<lparr>len := len b + len c\<rparr>"
      using p j Cons by (simp_all add: join_next_def join_right_def Let_def)
    then show ?thesis using merge_list [OF h2(2) u False] u by auto
  qed (use p j Cons h u in \<open>auto simp: join_next_def join_right_def\<close>)
qed

text \<open>A block between blocks in use is left as it is; the loop ends after one more round.\<close>

lemma join_loop_done:
  assumes h: "heap_blocks h (xs @ b # ys)" and u: "\<not> used b" and "xs = [] \<or> used (last xs)" "ys = [] \<or> used (hd ys)"
  shows "join_loop (addr b) h = Some h"
proof -
  have "IS_ALLOC h (PREV_BLOCK h (addr b))"
  proof (cases xs rule: rev_cases)
    case (snoc zs a)
    then show ?thesis using block_reads(2) [of h zs a "b # ys"] block_reads(5) [OF h] h assms(3) by simp
  qed (use block_reads(5) [OF h] head_reads(2) [OF h] in simp)
  moreover have "IS_ALLOC h (NEXT_BLOCK h (addr b))"
  proof (cases ys)
    case (Cons c zs)
    then show ?thesis using block_reads(2) [of h "xs @ [b]" c zs] block_reads(6) [OF h] h assms(4) by simp
  qed (use block_reads(6) [OF h] head_reads(2) [OF h] in simp)
  ultimately show ?thesis by (subst join_loop.simps) (simp add: join_prev_def join_next_def)
qed

lemma apart_append: "apart (xs @ ys) \<longleftrightarrow> apart xs \<and> apart ys \<and> (xs \<noteq> [] \<longrightarrow> ys \<noteq> [] \<longrightarrow> used (last xs) \<or> used (hd ys))"
proof (induction xs)
  case (Cons b xs)
  then show ?case by (cases xs; cases ys) auto
qed simp

lemma join_loop_list:
  assumes h: "heap_blocks h (xs @ b # ys)" and u: "\<not> used b" and ap: "apart xs" "apart ys"
    and jl: "join_left xs b = (xs', b1)" and jr: "join_right b1 ys = (b', ys')"
  shows "\<exists>h'. join_loop (addr b) h = Some h' \<and> heap_blocks h' (xs' @ b' # ys') \<and> first_fit h' = first_fit h \<and> apart (xs' @ b' # ys')"
proof -
  from join_prev_list [OF h u jl] obtain c1 h1 where 1: "join_prev (addr b) h = (c1, addr b1, h1)" "heap_blocks h1 (xs' @ b1 # ys)" "first_fit h1 = first_fit h"
    "\<not> used b1" "\<not> c1 \<longrightarrow> h1 = h \<and> xs' = xs \<and> b1 = b" by blast
  from join_next_list [OF 1(2,4) jr] obtain c2 h2 where 2: "join_next (addr b1) h1 = (c2, h2)" "heap_blocks h2 (xs' @ b' # ys')" "first_fit h2 = first_fit h1"
    "\<not> used b'" "addr b' = addr b1" by blast
  have l: "apart xs' \<and> (xs' = [] \<or> used (last xs'))"
  proof (cases xs rule: rev_cases)
    case (snoc zs a)
    then show ?thesis using jl ap(1) by (auto simp: join_left_def apart_append split: if_splits)
  qed (use jl in \<open>auto simp: join_left_def\<close>)
  have r: "apart ys' \<and> (ys' = [] \<or> used (hd ys'))"
  proof (cases ys)
    case (Cons c zs)
    then show ?thesis using jr ap(2) by (cases zs) (auto simp: join_right_def split: if_splits)
  qed (use jr in \<open>auto simp: join_right_def\<close>)
  have "join_loop (addr b) h = (if c1 \<or> c2 then join_loop (addr b') h2 else Some h2)" using 1(1) 2(1,5) by (subst join_loop.simps) simp
  moreover have "join_loop (addr b') h2 = Some h2" using join_loop_done [OF 2(2,4)] l r by blast
  moreover have "apart (xs' @ b' # ys')" using l r 2(4) by (cases ys') (auto simp: apart_append)
  ultimately show ?thesis using 1(3) 2(2,3) by auto
qed

lemma free_list:
  assumes h: "heap_blocks h (xs @ b # ys)" and u: "used b" and ap: "apart (xs @ b # ys)"
  shows "\<exists>h'. free_sheep (addr b + 16) h = Some h' \<and> heap_blocks h' (released xs b ys) \<and> first_fit h' = first_fit h \<and> apart (released xs b ys)"
proof -
  note g = geometry [OF h] and r = block_reads [OF h]
  let ?pf = "last_free 0 xs" and ?nf = "first_free ys 0"
  define h1 where "h1 = SET_PREV_FREE (addr b) ?pf (SET_NEXT_FREE (addr b) ?nf
      ((if ?nf \<noteq> 0 then SET_PREV_FREE ?nf (addr b) else id) (SET_NEXT_FREE ?pf (addr b) (SET_FREE (addr b) h))))"
  have "find_prev_free h (addr b) = Some ?pf"
    using find_prev_free_list [of h "xs @ [b]" ys] h u by simp
  moreover have "NEXT_FREE h ?pf = ?nf" using next_of_last_free [OF h] u g(13) by (simp add: NEXT_FREE_def)
  ultimately have "free_sheep (addr b + 16) h = join_loop (addr b) h1"
    using g(1,3,5,10,12) by (auto simp: free_sheep_def h1_def Let_def sheep_consts)
  moreover have h1: "heap_blocks h1 (xs @ b\<lparr>used := False\<rparr> # ys)" by (rule put_back_list [OF h u h1_def])
  moreover have "first_fit h1 = first_fit h" by (simp add: h1_def set_defs)
  moreover have "apart xs" "apart ys" using ap by (cases ys; simp add: apart_append)+
  moreover obtain xs' b1 where "join_left xs (b\<lparr>used := False\<rparr>) = (xs', b1)" by fastforce
  moreover obtain b' ys' where "join_right b1 ys = (b', ys')" by fastforce
  ultimately show ?thesis using join_loop_list [of h1 xs "b\<lparr>used := False\<rparr>" ys xs' b1 b' ys'] by (simp add: released_def)
qed

section \<open>Runs\<close>

text \<open>The processes on a node allocate and release memory, one at a time. The state has the
  allocations that are live, with the sizes that were asked for.\<close>

datatype sheep_op = Malloc nat | Free nat

type_synonym sheep_run_t = "(nat \<times> nat) list \<times> sheep_t"

fun sheep_step :: "sheep_op \<Rightarrow> sheep_run_t \<Rightarrow> sheep_run_t option" where
  "sheep_step (Malloc n) (live, h) =
     (case malloc_sheep n h of
        None \<Rightarrow> None
      | Some (None, h) \<Rightarrow> Some (live, h)
      | Some (Some p, h) \<Rightarrow> Some ((p, n) # live, h))"
| "sheep_step (Free p) (live, h) = map_option (Pair (filter (\<lambda>a. fst a \<noteq> p) live)) (free_sheep p h)"

text \<open>A client asks for memory of a size below \<open>2^32\<close> bytes and gives back what it has.\<close>

fun sheep_op_ok :: "sheep_op \<Rightarrow> sheep_run_t \<Rightarrow> bool" where
  "sheep_op_ok (Malloc n) s \<longleftrightarrow> request_ok n"
| "sheep_op_ok (Free p) (live, h) \<longleftrightarrow> p \<in> fst ` set live"

inductive sheep_reachable :: "nat \<Rightarrow> bool \<Rightarrow> sheep_run_t \<Rightarrow> bool" for sz ff where
  start: "\<not> initialized h0 \<Longrightarrow> init_sheep sz ff h0 = Some h \<Longrightarrow> sheep_reachable sz ff ([], h)"
| op: "sheep_reachable sz ff s \<Longrightarrow> sheep_op_ok op s \<Longrightarrow> sheep_step op s = Some s' \<Longrightarrow> sheep_reachable sz ff s'"

definition live_ok :: "(nat \<times> nat) list \<Rightarrow> block list \<Rightarrow> bool" where
  "live_ok live bs \<longleftrightarrow> distinct (map fst live) \<and> fst ` set live = (\<lambda>b. addr b + 16) ` {b \<in> set bs. used b} \<and>
     (\<forall>(p, n) \<in> set live. \<exists>b \<in> set bs. used b \<and> p = addr b + 16 \<and> 16 + n \<le> len b)"

definition sheep_inv :: "nat \<Rightarrow> bool \<Rightarrow> sheep_run_t \<Rightarrow> bool" where
  "sheep_inv n ff s \<longleftrightarrow> (\<exists>bs. heap_blocks (snd s) bs \<and> apart bs \<and> live_ok (fst s) bs \<and> heap_size (snd s) = n \<and> first_fit (snd s) = ff)"

lemma heap_extent: "heap_blocks h bs \<Longrightarrow> heap_size h = 32 + extent bs"
  by (auto simp: heap_blocks_def sheep_consts dest: tiles_end)

lemma extent_append [simp]: "extent (xs @ ys) = extent xs + extent ys"
  by (induction xs) simp_all

lemma extent_allocated: "a \<le> len b \<Longrightarrow> extent (allocated a b) = len b"
  by (simp add: allocated_def)

lemma extent_released: "extent (released xs b ys) = extent (xs @ b # ys)"
proof -
  have "xs \<noteq> [] \<Longrightarrow> extent xs = extent (butlast xs) + len (last xs)" by (cases xs rule: rev_cases) simp_all
  moreover have "ys \<noteq> [] \<Longrightarrow> extent ys = len (hd ys) + extent (tl ys)" by (cases ys) simp_all
  ultimately show ?thesis by (simp add: released_def join_left_def join_right_def)
qed

lemma init_list:
  assumes "init_sheep n ff h0 = Some h" "\<not> initialized h0"
  shows "heap_blocks h [\<lparr>addr = 32, len = n - 32, used = False\<rparr>]" "heap_size h = n" "first_fit h = ff"
proof -
  have n: "4096 \<le> n" "n mod 4096 = 0" "n < 2 ^ 25" using assms(1) by (auto simp: init_sheep_def split: if_splits)
  obtain k where k: "n = 4096 * k" using n(2) by blast
  then have d: "8 dvd n" "8 dvd (n - 32)" by (auto simp: dvd_mult2)
  have "or 0 ((n - 32) div 4) = (n - 32) div 4" "or (Suc 0) 8 = (9 :: nat)" by (simp_all add: or_Suc_0_eq or.commute [of "Suc 0"])
  then show "heap_blocks h [\<lparr>addr = 32, len = n - 32, used = False\<rparr>]" "heap_size h = n" "first_fit h = ff"
    using assms n d by (auto simp: init_sheep_def Let_def heap_blocks_def links_def sheep_consts set_defs head_prefix_def prefix_of_def VAL_def)
qed

lemma own_addr: "tiles 32 (xs @ b # ys) e \<Longrightarrow> addr b \<notin> addr ` set (xs @ ys)"
proof -
  assume "tiles 32 (xs @ b # ys) e"
  then have t: "tiles 32 xs (32 + extent xs)" "tiles (32 + extent xs + len b) ys e" "addr b = 32 + extent xs" "24 \<le> len b" by (auto simp: tiles_append)
  have "addr c \<noteq> addr b" if "c \<in> set xs" for c using tiles_bounds [OF t(1) that] t(3) by simp
  moreover have "addr c \<noteq> addr b" if "c \<in> set ys" for c using tiles_bounds [OF t(2) that] t(3,4) by simp
  ultimately show ?thesis by force
qed

definition in_use :: "block list \<Rightarrow> block set" where
  "in_use bs = {b \<in> set bs. used b}"

lemma live_ok_iff: "live_ok live bs \<longleftrightarrow> distinct (map fst live) \<and> fst ` set live = (\<lambda>b. addr b + 16) ` in_use bs \<and>
    (\<forall>a \<in> set live. \<exists>b \<in> in_use bs. fst a = addr b + 16 \<and> 16 + snd a \<le> len b)"
  by (auto simp: live_ok_def in_use_def split_def)

lemma live_alloc:
  assumes "live_ok live bs" "in_use bs' = insert c (in_use bs)" "addr c \<notin> addr ` in_use bs" "16 + n \<le> len c"
  shows "live_ok ((addr c + 16, n) # live) bs'"
proof -
  have "addr c + 16 \<notin> fst ` set live" using assms(1,3) unfolding live_ok_iff by auto
  then show ?thesis using assms unfolding live_ok_iff by simp
qed

lemma live_free:
  assumes "live_ok live bs" "in_use bs = insert c (in_use bs')" "addr c \<notin> addr ` in_use bs'"
  shows "live_ok (filter (\<lambda>a. fst a \<noteq> addr c + 16) live) bs'"
proof -
  have "fst ` set (filter (\<lambda>a. fst a \<noteq> addr c + 16) live) = fst ` set live - {addr c + 16}" by auto
  also have "\<dots> = (\<lambda>b. addr b + 16) ` in_use bs'"
  proof -
    have "addr c + 16 \<notin> (\<lambda>b. addr b + 16) ` in_use bs'" using assms(3) by auto
    then show ?thesis using assms(1,2) unfolding live_ok_iff by simp
  qed
  finally show ?thesis using assms(1,2) unfolding live_ok_iff by (fastforce simp: distinct_map_filter)
qed

lemma in_use_allocated: "\<not> used b \<Longrightarrow> in_use (xs @ allocated a b @ ys) = insert (hd (allocated a b)) (in_use (xs @ b # ys))"
  by (auto simp: in_use_def allocated_def)

lemma in_use_released: "in_use (released xs b ys) = in_use (xs @ ys)"
proof -
  have u: "in_use (us @ c # vs) = in_use (us @ vs)" if "\<not> used c" for us c vs using that by (auto simp: in_use_def)
  obtain xs' b1 where l: "join_left xs (b\<lparr>used := False\<rparr>) = (xs', b1)" by fastforce
  obtain b2 ys' where r: "join_right b1 ys = (b2, ys')" by fastforce
  have left: "\<not> used b1 \<and> (\<forall>zs. in_use (xs' @ zs) = in_use (xs @ zs))"
  proof (cases xs rule: rev_cases)
    case (snoc us c)
    then show ?thesis using l u [of c us] by (auto simp: join_left_def split: if_splits)
  qed (use l in \<open>auto simp: join_left_def\<close>)
  have right: "\<not> used b2 \<and> (\<forall>zs. in_use (zs @ ys') = in_use (zs @ ys))"
  proof (cases ys)
    case (Cons c vs)
    then show ?thesis using r left u [of c _ vs] by (auto simp: join_right_def split: if_splits)
  qed (use r left in \<open>auto simp: join_right_def\<close>)
  show ?thesis using u [of b2 xs' ys'] left right by (simp add: released_def l r)
qed

lemma apart_alloc: "apart (xs @ b # ys) \<Longrightarrow> \<not> used b \<Longrightarrow> apart (xs @ allocated a b @ ys)"
  by (cases ys) (auto simp: apart_append allocated_def)

lemma sheep_inv_step:
  assumes inv: "sheep_inv sz ff s" and ok: "sheep_op_ok op s"
  shows "\<exists>s'. sheep_step op s = Some s' \<and> sheep_inv sz ff s'"
proof -
  obtain live h where s: "s = (live, h)" by fastforce
  obtain bs where bs: "heap_blocks h bs" "apart bs" "live_ok live bs" "heap_size h = sz" "first_fit h = ff" using inv s by (auto simp: sheep_inv_def)
  have t: "tiles 32 bs sz" using bs by (simp add: heap_blocks_def sheep_consts)
  show ?thesis
  proof (cases op)
    case (Malloc n)
    then have n: "request_ok n" using ok s by simp
    from malloc_list [OF bs(1) n] consider "malloc_sheep n h = Some (None, h)"
      | xs b ys h' where "bs = xs @ b # ys" "\<not> used b" "alloc_size_of n \<le> len b" "malloc_sheep n h = Some (Some (addr b + 16), h')"
        "heap_blocks h' (xs @ allocated (alloc_size_of n) b @ ys)" "first_fit h' = first_fit h" by blast
    then show ?thesis
    proof cases
      case 1
      then show ?thesis using s Malloc inv by simp
    next
      case b: (2 xs b ys h')
      have "heap_size h' = sz" using heap_extent [OF b(5)] heap_extent [OF bs(1)] bs(4) extent_allocated [OF b(3)] b(1) by simp
      moreover have "live_ok ((addr b + 16, n) # live) (xs @ allocated (alloc_size_of n) b @ ys)"
      proof -
        let ?c = "hd (allocated (alloc_size_of n) b)"
        have "addr ?c = addr b" "16 + n \<le> len ?c" using b(3) alloc_size_bounds [OF n] by (auto simp: allocated_def)
        moreover have "addr b \<notin> addr ` in_use bs" using own_addr [of xs b ys sz] t b(1,2) by (auto simp: in_use_def)
        ultimately show ?thesis using live_alloc [OF bs(3), of "xs @ allocated (alloc_size_of n) b @ ys" ?c n] in_use_allocated [OF b(2)] b(1) by simp
      qed
      ultimately show ?thesis using b bs apart_alloc s Malloc by (auto simp: sheep_inv_def)
    qed
  next
    case (Free p)
    then obtain b where "b \<in> set bs" "used b" "p = addr b + 16" using ok s bs(3) by (auto simp: live_ok_def)
    then obtain xs ys where b: "bs = xs @ b # ys" "used b" "p = addr b + 16" by (auto dest: split_list)
    from free_list [OF bs(1) [unfolded b(1)] b(2) bs(2) [unfolded b(1)]] obtain h' where
      h': "free_sheep p h = Some h'" "heap_blocks h' (released xs b ys)" "first_fit h' = first_fit h" "apart (released xs b ys)" using b(3) by blast
    then have "heap_size h' = sz" using heap_extent [OF bs(1)] heap_extent [of h' "released xs b ys"] extent_released [of xs b ys] bs(4) b(1) by simp
    moreover have "live_ok (filter (\<lambda>a. fst a \<noteq> p) live) (released xs b ys)" 
      using live_free [OF bs(3), of b "released xs b ys"] own_addr [of xs b ys sz] t b by (auto simp: in_use_released) (auto simp: in_use_def)
    ultimately show ?thesis using h' bs(5) s Free by (auto simp: sheep_inv_def)
  qed
qed

section \<open>Validity\<close>

definition free_count :: "block list \<Rightarrow> nat" where
  "free_count bs = length (filter (\<lambda>b. \<not> used b) bs)"

lemma valid_block_list:
  assumes h: "heap_blocks h (xs @ b # ys)" and ap: "apart (xs @ b # ys)"
  shows "valid_block h (if xs = [] then None else Some (addr (last xs))) (addr b)"
proof -
  note g = geometry [OF h] and r = block_reads [OF h]
  have next_gt: "NEXT_BLOCK h (addr b) = 0 \<or> addr b < NEXT_BLOCK h (addr b)" using r(6) g(3) g(9) [of "hd ys"] by (cases ys) auto
  have next_used: "IS_ALLOC h (NEXT_BLOCK h (addr b))" if "\<not> used b"
  proof (cases ys)
    case (Cons c zs)
    then show ?thesis using that ap block_reads(2) [of h "xs @ [b]" c zs] h r(6) by (auto simp: apart_append)
  qed (use r(6) head_reads(2) [OF h] in simp)
  have prev: "case (if xs = [] then None else Some (addr (last xs))) of
      Some p \<Rightarrow> NEXT_BLOCK h p = addr b \<and> PREV_BLOCK h (addr b) = p \<and> p \<noteq> 0 \<and> p + SIZE h p = addr b \<and> (\<not> used b \<longrightarrow> IS_ALLOC h p)
    | None \<Rightarrow> PREV_BLOCK h (addr b) = 0"
  proof (cases xs rule: rev_cases)
    case (snoc zs a)
    then have ha: "heap_blocks h (zs @ a # b # ys)" using h by simp
    show ?thesis using block_reads [OF ha] geometry(1,7) [OF ha] r(5) ap snoc by (auto simp: apart_append)
  qed (use r(5) in simp)
  have "NEXT_FREE h (addr b) = 0 \<or> addr b < NEXT_FREE h (addr b)" "PREV_FREE h (addr b) = 0 \<or> PREV_FREE h (addr b) < addr b"
    "PREV_BLOCK h (addr b) = 0 \<or> PREV_BLOCK h (addr b) < addr b" using r(3-5) g(10,12,14) by auto
  moreover have "IS_ALLOC h (addr b) \<Longrightarrow> NEXT_FREE h (addr b) = 0 \<and> PREV_FREE h (addr b) = 0" using r(2-4) by simp
  ultimately show ?thesis using prev next_gt next_used g(1,3,5) r(1,2)
    by (cases "xs = []"; cases "used b") (auto simp: valid_block_def sheep_consts)
qed

lemma validate_blocks_list:
  assumes "heap_blocks h (xs @ ys)" "apart (xs @ ys)"
  shows "validate_blocks h (if xs = [] then None else Some (addr (last xs))) (if ys = [] then 0 else addr (hd ys)) f a n =
    Some (f + free_count ys, a + (length ys - free_count ys), n + length ys)"
  using assms
proof (induction ys arbitrary: xs f a n)
  case (Cons b ys)
  note v = valid_block_list [OF Cons.prems] and r = block_reads [OF Cons.prems(1)] and g = geometry [OF Cons.prems(1)]
  note IH = Cons.IH [of "xs @ [b]"]
  have "length (filter (\<lambda>b. \<not> used b) ys) \<le> length ys" by simp
  then have "Suc (a + length ys) - length (filter (\<lambda>b. \<not> used b) ys) = a + (Suc (length ys) - length (filter (\<lambda>b. \<not> used b) ys))"
    by linarith
  then show ?case using v r g(1) IH Cons.prems by (subst validate_blocks.simps) (auto simp: sheep_consts free_count_def)
qed (simp add: validate_blocks.simps sheep_consts free_count_def)

lemma valid_free_list:
  assumes h: "heap_blocks h (xs @ b # ys)" and u: "\<not> used b"
  shows "valid_free h (if last_free 0 xs = 0 then None else Some (last_free 0 xs)) (addr b)"
proof -
  note g = geometry [OF h] and r = block_reads [OF h]
  have "NEXT_FREE h (last_free 0 xs) = addr b" using next_of_last_free [OF h] u g(2) by (simp add: NEXT_FREE_def)
  moreover have "last_free 0 xs \<noteq> 0 \<Longrightarrow> last_addr 0 xs \<noteq> 0"
  proof (cases xs rule: rev_cases)
    case (snoc zs a)
    then show ?thesis using g(8) [of a] by simp
  qed simp
  ultimately show ?thesis using g r u by (auto simp: valid_free_def sheep_consts)
qed

lemma validate_frees_list:
  assumes "heap_blocks h (xs @ ys)"
  shows "validate_frees h (if last_free 0 xs = 0 then None else Some (last_free 0 xs)) (first_free ys 0) f = Some (f + free_count ys)"
  using assms
proof (induction ys arbitrary: xs f)
  case (Cons b ys)
  note r = block_reads [OF Cons.prems(1)] and g = geometry [OF Cons.prems(1)]
  note IH = Cons.IH [of "xs @ [b]"]
  show ?case
  proof (cases "used b")
    case True
    then have "last_free 0 (xs @ [b]) = last_free 0 xs" by simp
    with IH [of f] Cons.prems have "validate_frees h (if last_free 0 xs = 0 then None else Some (last_free 0 xs)) (first_free ys 0) f = Some (f + free_count ys)"
      by (metis append.assoc append_Cons append_Nil)
    then show ?thesis using True by (simp add: free_count_def)
  next
    case False
    define q where "q = (if last_free 0 xs = 0 then None else Some (last_free 0 xs))"
    have "valid_free h q (addr b)" using valid_free_list [OF Cons.prems False] by (simp only: q_def)
    then have "validate_frees h q (addr b) f = validate_frees h (Some (addr b)) (first_free ys 0) (f + 1)"
      using r(3) g(1) False by (subst validate_frees.simps) (simp add: sheep_consts)
    then show ?thesis using IH [of "f + 1"] Cons.prems False g(1) by (simp add: q_def [symmetric] free_count_def)
  qed
qed (simp add: validate_frees.simps sheep_consts free_count_def)

lemma validate_list:
  assumes h: "heap_blocks h bs" and ap: "apart bs" and ne: "bs \<noteq> []"
  shows "validate_sheep h = Some ()"
proof -
  obtain b ys where bs: "bs = b # ys" using ne by (cases bs) auto
  have "mem h 0 = head_prefix (first_free bs 0)" "sheep_end h = heap_size h" using h by (simp_all add: heap_blocks_def links_def sheep_consts)
  then have "NEXT_BLOCK h 0 = 32" using heap_extent [OF h] geometry(3) [of h "[]" b ys] h bs by (simp add: NEXT_BLOCK_def SIZE_def head_prefix_def)
  moreover have "addr b = 32" using h bs by (simp add: heap_blocks_def sheep_consts)
  ultimately have "NEXT_BLOCK h head_block = (if bs = [] then 0 else addr (hd bs))" by (simp add: bs sheep_consts)
  moreover have "free_count bs \<le> length bs" by (simp add: free_count_def)
  ultimately show ?thesis
    using validate_blocks_list [of h "[]" bs 0 0 0] validate_frees_list [of h "[]" bs 0] h ap head_reads(1) [OF h]
    by (simp add: validate_sheep_def sheep_consts)
qed

section \<open>The shared heap is correct\<close>

lemma reachable_inv: "sheep_reachable sz ff s \<Longrightarrow> sheep_inv sz ff s"
proof (induction rule: sheep_reachable.induct)
  case (start h0 h)
  then show ?case using init_list [of sz ff h0 h]
    by (auto simp: sheep_inv_def live_ok_def intro!: exI [of _ "[\<lparr>addr = 32, len = sz - 32, used = False\<rparr>]"])
next
  case (op s op s')
  then show ?case using sheep_inv_step by fastforce
qed

lemma reachable_size: "sheep_reachable sz ff s \<Longrightarrow> 4096 \<le> sz"
  by (induction rule: sheep_reachable.induct) (auto simp: init_sheep_def split: if_splits)

text \<open>An example: a heap of a page, with two allocations.\<close>

definition blank_heap :: sheep_t where
  "blank_heap = \<lparr>heap_size = 0, initialized = False, sheep_end = 0, first_fit = False,
     mem = (\<lambda>_. \<lparr>f_prev_block = 0, f_next_free = 0, f_prev_free = 0, f_size = 0\<rparr>)\<rparr>"

lemma example_heap: "\<exists>h. sheep_reachable 4096 False ([(168, 5), (48, 100)], h)"
proof -
  obtain h where h: "init_sheep 4096 False blank_heap = Some h" by (simp add: init_sheep_def Let_def blank_heap_def)
  have fresh: "\<not> initialized blank_heap" by (simp add: blank_heap_def)
  let ?b = "\<lparr>addr = 32, len = 4064, used = False\<rparr>" and ?c = "\<lparr>addr = 152, len = 3944, used = False\<rparr>"
  have r: "request_ok 100" "request_ok 5" "alloc_size_of 100 = 120" "alloc_size_of 5 = 24"
    by (simp_all add: request_ok_def alloc_size_of_def sizeof_block_def ALIGN8_def)
  have "heap_blocks h [?b]" using init_list(1) [OF h fresh] by simp
  from malloc_list [OF this r(1)] r(3) obtain h1 where h1: "malloc_sheep 100 h = Some (Some 48, h1)" "heap_blocks h1 [\<lparr>addr = 32, len = 120, used = True\<rparr>, ?c]"
    by (fastforce simp: allocated_def Cons_eq_append_conv)
  from malloc_list [OF h1(2) r(2)] r(4) obtain h2 where h2: "malloc_sheep 5 h1 = Some (Some 168, h2)"
    by (fastforce simp: Cons_eq_append_conv)
  have "sheep_reachable 4096 False ([(48, 100)], h1)"
    by (rule sheep_reachable.op [OF sheep_reachable.start [OF fresh h], where op = "Malloc 100"]) (use h1(1) r(1) in simp_all)
  then have "sheep_reachable 4096 False ([(168, 5), (48, 100)], h2)"
    by (rule sheep_reachable.op [where op = "Malloc 5"]) (use h2 r(2) in simp_all)
  then show ?thesis by blast
qed

text \<open>C16. Every memory operation on the shared heap succeeds in every state that the clients can
  reach: no assertion fails and every loop over the blocks ends, whatever has been allocated and
  released before and in whatever order.\<close>

theorem sheep_never_fails:
  assumes "sheep_reachable sz ff s" "sheep_op_ok op s"
  shows "\<exists>s'. sheep_step op s = Some s' \<and> sheep_reachable sz ff s'"
  using sheep_inv_step [OF reachable_inv [OF assms(1)] assms(2)] sheep_reachable.op [OF assms] by blast

theorem sheep_never_fails_witness:
  "\<exists>h s'. sheep_reachable 4096 False ([(168, 5), (48, 100)], h) \<and> sheep_step (Free 48) ([(168, 5), (48, 100)], h) = Some s' \<and> sheep_reachable 4096 False s'"
proof -
  obtain h where "sheep_reachable 4096 False ([(168, 5), (48, 100)], h)" using example_heap by blast
  then show ?thesis using sheep_never_fails [of 4096 False "([(168, 5), (48, 100)], h)" "Free 48"] by auto
qed

text \<open>C15. Live allocations never overlap: each is aligned to 8 bytes, has at least the size that
  was asked for, lies within the heap behind its header, and is separated from every other live
  allocation by at least the 16 bytes of a block prefix, so that clients that stay within their
  allocations overwrite neither each other's data nor the heap's own.\<close>

theorem sheep_allocations_disjoint:
  assumes "sheep_reachable sz ff (live, h)"
  shows "distinct (map fst live) \<and> (\<forall>(p, n) \<in> set live. 8 dvd p \<and> 48 \<le> p \<and> p + n \<le> sz) \<and>
    (\<forall>(p, n) \<in> set live. \<forall>(q, m) \<in> set live. p \<noteq> q \<longrightarrow> p + n + 16 \<le> q \<or> q + m + 16 \<le> p)"
proof -
  obtain bs where bs: "heap_blocks h bs" "live_ok live bs" "heap_size h = sz" using reachable_inv [OF assms] by (auto simp: sheep_inv_def)
  have t: "tiles 32 bs sz" using bs by (simp add: heap_blocks_def sheep_consts)
  have block: "\<exists>b \<in> set bs. p = addr b + 16 \<and> 16 + n \<le> len b" if "(p, n) \<in> set live" for p n
    using bs(2) that by (fastforce simp: live_ok_def)
  have one: "8 dvd p \<and> 48 \<le> p \<and> p + n \<le> sz" if "(p, n) \<in> set live" for p n
    using block [OF that] tiles_bounds [OF t] tiles_aligned [OF t] by fastforce
  have two: "p + n + 16 \<le> q \<or> q + m + 16 \<le> p" if pq: "(p, n) \<in> set live" "(q, m) \<in> set live" "p \<noteq> q" for p n q m
  proof -
    obtain b c where b: "b \<in> set bs" "p = addr b + 16" "16 + n \<le> len b" and c: "c \<in> set bs" "q = addr c + 16" "16 + m \<le> len c"
      using block [OF pq(1)] block [OF pq(2)] by blast
    have "addr b + len b \<le> addr c \<or> addr c + len c \<le> addr b" using tiles_apart [OF t b(1) c(1)] pq(3) b(2) c(2) by auto
    then show ?thesis using b(2,3) c(2,3) by auto
  qed
  have "\<forall>(p, n) \<in> set live. \<forall>(q, m) \<in> set live. p \<noteq> q \<longrightarrow> p + n + 16 \<le> q \<or> q + m + 16 \<le> p" using two by blast
  then show ?thesis using bs(2) one by (auto simp: live_ok_def)
qed

theorem sheep_allocations_disjoint_witness:
  "\<exists>h. sheep_reachable 4096 False ([(168, 5), (48, 100)], h) \<and> (8 :: nat) dvd 48 \<and> 48 + 100 + 16 \<le> (168 :: nat)"
proof -
  obtain h where h: "sheep_reachable 4096 False ([(168, 5), (48, 100)], h)" using example_heap by blast
  from sheep_allocations_disjoint [OF h] h show ?thesis by auto
qed



text \<open>C17. Released memory is joined again: the heap stays well-formed, which is to say that
  \<open>validate_sheep\<close> finds nothing wrong with it, and once everything has been released any request
  that fits into the heap at all is served.\<close>

theorem sheep_released_is_joined:
  assumes "sheep_reachable sz ff (live, h)"
  shows "validate_sheep h = Some () \<and>
    (live = [] \<longrightarrow> (\<forall>n. request_ok n \<longrightarrow> alloc_size_of n \<le> sz - 32 \<longrightarrow> (\<exists>h'. malloc_sheep n h = Some (Some 48, h'))))"
proof -
  obtain bs where bs: "heap_blocks h bs" "apart bs" "live_ok live bs" "heap_size h = sz" using reachable_inv [OF assms] by (auto simp: sheep_inv_def)
  have e: "sz = 32 + extent bs" using heap_extent [OF bs(1)] bs(4) by simp
  have ne: "bs \<noteq> []" using e reachable_size [OF assms] by auto
  have "\<exists>h'. malloc_sheep n h = Some (Some 48, h')" if n: "live = []" "request_ok n" "alloc_size_of n \<le> sz - 32" for n
  proof -
    have free: "\<forall>b \<in> set bs. \<not> used b" using bs(3) n(1) by (auto simp: live_ok_def)
    then obtain b where b: "bs = [b]" using bs(2) ne by (cases bs rule: apart.cases) auto
    then have "addr b = 32" "len b = sz - 32" using bs(1) e by (auto simp: heap_blocks_def sheep_consts)
    then show ?thesis using malloc_list [OF bs(1) n(2)] n(3) free b by (auto simp: Cons_eq_append_conv)
  qed
  then show ?thesis using validate_list [OF bs(1,2) ne] by blast
qed

theorem sheep_released_is_joined_witness:
  "\<exists>h h' h''. sheep_reachable 4096 False ([(168, 5), (48, 100)], h) \<and> validate_sheep h = Some () \<and>
    sheep_reachable 4096 False ([], h') \<and> malloc_sheep 4000 h' = Some (Some 48, h'')"
proof -
  obtain h where h: "sheep_reachable 4096 False ([(168, 5), (48, 100)], h)" using example_heap by blast
  obtain h1 where "sheep_reachable 4096 False ([(168, 5)], h1)"
    using sheep_inv_step [OF reachable_inv [OF h], of "Free 48"] sheep_reachable.op [OF h, of "Free 48"] by auto
  then obtain h2 where h2: "sheep_reachable 4096 False ([], h2)"
    using sheep_inv_step [OF reachable_inv, of 4096 False "([(168, 5)], h1)" "Free 168"] sheep_reachable.op [of 4096 False "([(168, 5)], h1)" "Free 168"] by auto
  have "request_ok 4000" "alloc_size_of 4000 \<le> 4096 - 32" by (simp_all add: request_ok_def alloc_size_of_def sizeof_block_def ALIGN8_def)
  then show ?thesis using sheep_released_is_joined [OF h] sheep_released_is_joined [OF h2] h h2 by blast
qed

text \<open>The size of a request is taken as 32 bits: a request of almost 4 GB on a heap of a page gets an
  address, in a block that is smaller than its own prefix.\<close>

lemma sheep_size_wraps:
  assumes "init_sheep 4096 False blank_heap = Some h"
  shows "alloc_size_of (2 ^ 32 - 8) = 8" "\<exists>h'. malloc_sheep (2 ^ 32 - 8) h = Some (Some 48, h')"
proof -
  show a: "alloc_size_of (2 ^ 32 - 8) = 8" by (simp add: alloc_size_of_def sizeof_block_def ALIGN8_def)
  let ?b = "\<lparr>addr = 32, len = 4064, used = False\<rparr>"
  have h: "heap_blocks h [?b]" using init_list(1) [OF assms] by (simp add: blank_heap_def)
  have ff: "first_fit h = False" using init_list(3) [OF assms] by (simp add: blank_heap_def)
  have "heap_size h = 4096" using init_list(2) [OF assms] by (simp add: blank_heap_def)
  moreover have "find_fit h 8 (NEXT_FREE h head_block) None UINT32_MAX = Some (Some 32, 4056)"
    using find_fit_list [of h "[]" "[?b]" 8 None UINT32_MAX] h head_reads(1) [OF h] ff by (simp add: sheep_consts UINT32_MAX_def)
  ultimately show "\<exists>h'. malloc_sheep (2 ^ 32 - 8) h = Some (Some 48, h')"
    using block_reads(1,2) [of h "[]" ?b "[]"] h take_block_list(1) [of h "[]" ?b "[]"] heap_extent [of "take_block 32 h"] a
    by (simp add: malloc_sheep_def Let_def split_block_def min_alloc_size_def ALIGN8_def sheep_consts set_defs)
qed

end
