(* ===== verification/Spec2Isabelle.thy ===== *)
theory Spec2Isabelle
  imports Cobo_Collectives Cobo_Open Requestors Msgbundle Flush_Thread Ldcs_Cache Global_Name Packets Numa Handler_Inv Crash_Log Sheep
begin

text \<open>
  Spindle: a verification library.
\<close>

end
